(* ===== verification/Prelude.thy ===== *)
theory Prelude
  imports Main "HOL-Library.Word" "HOL-Library.Monad_Syntax"
begin

text \<open>
  Shared vocabulary of the development: the machine integer types of the i386 target, the flat
  byte-addressed memory with its little-endian loads and stores, address ranges that wrap at
  $2^{32}$ together with the separation lemmas every pointer proof uses, and the two collections
  \<open>mem_simps\<close> (what a load sees after a store) and \<open>sep_intros\<close> (how separation is established).
\<close>

unbundle bit_operations_syntax

named_theorems mem_simps "loads after stores"
named_theorems sep_intros "separation of address ranges"

section \<open>Types\<close>

type_synonym u8 = "8 word"
type_synonym u16 = "16 word"
type_synonym u32 = "32 word"
type_synonym u64 = "64 word"

text \<open>The address space: one byte per 32-bit address.\<close>

type_synonym mem = "u32 \<Rightarrow> u8"

section \<open>Little-endian loads and stores\<close>

definition load16 :: "mem \<Rightarrow> u32 \<Rightarrow> u16" where
  "load16 m a = ucast (m a) OR push_bit 8 (ucast (m (a + 1)))"

definition load32 :: "mem \<Rightarrow> u32 \<Rightarrow> u32" where
  "load32 m a = ucast (m a) OR push_bit 8 (ucast (m (a + 1)))
     OR push_bit 16 (ucast (m (a + 2))) OR push_bit 24 (ucast (m (a + 3)))"

definition store16 :: "mem \<Rightarrow> u32 \<Rightarrow> u16 \<Rightarrow> mem" where
  "store16 m a v = m(a := ucast v, a + 1 := ucast (drop_bit 8 v))"

definition store32 :: "mem \<Rightarrow> u32 \<Rightarrow> u32 \<Rightarrow> mem" where
  "store32 m a v = m(a := ucast v, a + 1 := ucast (drop_bit 8 v),
     a + 2 := ucast (drop_bit 16 v), a + 3 := ucast (drop_bit 24 v))"

section \<open>Address ranges\<close>

text \<open>\<open>in_rng a n x\<close>: address \<open>x\<close> is one of the \<open>n\<close> bytes from \<open>a\<close> on, modulo $2^{32}$.\<close>

definition in_rng :: "u32 \<Rightarrow> nat \<Rightarrow> u32 \<Rightarrow> bool" where
  "in_rng a n x \<longleftrightarrow> unat (x - a) < n"

text \<open>\<open>disj a n b k\<close>: the \<open>n\<close> bytes from \<open>a\<close> and the \<open>k\<close> bytes from \<open>b\<close> are disjoint.\<close>

definition disj :: "u32 \<Rightarrow> nat \<Rightarrow> u32 \<Rightarrow> nat \<Rightarrow> bool" where
  "disj a n b k \<longleftrightarrow> n \<le> unat (b - a) \<and> k \<le> unat (a - b)"

lemma disj_sym: "disj a n b k \<Longrightarrow> disj b k a n"
  by (simp add: disj_def)

lemma disjD:
  assumes "disj a n b k" and "in_rng a n x"
  shows "\<not> in_rng b k x"
proof
  assume "in_rng b k x"
  define p q where "p = x - a" and "q = x - b"
  have pq: "unat p < n" "unat q < k"
    using assms(2) \<open>in_rng b k x\<close> by (auto simp: in_rng_def p_def q_def)
  have ba: "b - a = p - q" and ab: "a - b = q - p"
    by (simp_all add: p_def q_def)
  show False
  proof (cases "q \<le> p")
    case True
    then have "unat (p - q) = unat p - unat q" by (rule unat_sub)
    then show False using assms(1) pq ba by (auto simp: disj_def)
  next
    case False
    then have "unat (q - p) = unat q - unat p" by (intro unat_sub) simp
    then show False using assms(1) pq ab by (auto simp: disj_def)
  qed
qed

lemma in_rng_self [simp]: "0 < n \<Longrightarrow> in_rng a n a"
  by (simp add: in_rng_def)

lemma in_rng_offset: "unat i < n \<Longrightarrow> in_rng a n (a + i)"
  by (simp add: in_rng_def)

lemma in_rng_sub: "in_rng a n x \<Longrightarrow> n \<le> k \<Longrightarrow> in_rng a k x"
  by (simp add: in_rng_def)

lemma in_rng_shift:
  assumes "in_rng (a + i) n x" and "unat i + n \<le> k" and "k \<le> 2 ^ 32"
  shows "in_rng a k x"
proof -
  define d where "d = x - (a + i)"
  have "x - a = d + i" by (simp add: d_def)
  moreover have "unat d < n" using assms(1) by (simp add: in_rng_def d_def)
  ultimately show ?thesis
    using assms(2,3) by (simp add: in_rng_def unat_word_ariths)
qed

lemma disj_sub:
  assumes "disj a n b k" and "unat i + n' \<le> n" and "unat j + k' \<le> k" and "0 < n'" and "0 < k'"
    and "n \<le> 2 ^ 32" and "k \<le> 2 ^ 32"
  shows "disj (a + i) n' (b + j) k'"
proof -
  have no: "\<not> (in_rng (a + i) n' x \<and> in_rng (b + j) k' x)" for x
    using disjD[OF assms(1)] in_rng_shift assms by blast
  have "n' \<le> unat ((b + j) - (a + i))"
  proof (rule ccontr)
    assume "\<not> ?thesis"
    then have "in_rng (a + i) n' (b + j)" by (simp add: in_rng_def)
    then show False using no[of "b + j"] assms(5) by simp
  qed
  moreover have "k' \<le> unat ((a + i) - (b + j))"
  proof (rule ccontr)
    assume "\<not> ?thesis"
    then have "in_rng (b + j) k' (a + i)" by (simp add: in_rng_def)
    then show False using no[of "a + i"] assms(4) by simp
  qed
  ultimately show ?thesis by (simp add: disj_def)
qed

lemma disj_lin [sep_intros]:
  assumes "unat a + n \<le> unat b" and "unat b + k \<le> 4294967296" and "0 < n"
  shows "disj a n b k"
proof -
  have lt: "unat a < unat b" using assms by simp
  then have "unat (b - a) = unat b - unat a" by (intro unat_sub) (simp add: word_le_nat_alt)
  moreover have "unat (a - b) = 4294967296 + unat a - unat b"
    using lt by (simp add: unat_sub_if')
  ultimately show ?thesis using assms by (auto simp: disj_def)
qed

lemma addr_offset_iff: "x = p + i \<longleftrightarrow> unat (x - p) = unat (i :: u32)"
  unfolding word_unat_eq_iff [symmetric] by (auto simp: algebra_simps)

lemma disj_offset_neq:
  "disj a n b k \<Longrightarrow> unat i < n \<Longrightarrow> unat j < k \<Longrightarrow> a + i \<noteq> b + j"
  by (metis disjD in_rng_offset)

section \<open>What a load sees after a store\<close>

lemma load32_cong:
  assumes "\<And>x. in_rng a 4 x \<Longrightarrow> m x = m' x"
  shows "load32 m a = load32 m' a"
  by (simp add: load32_def assms in_rng_def)

lemma load16_cong:
  assumes "\<And>x. in_rng a 2 x \<Longrightarrow> m x = m' x"
  shows "load16 m a = load16 m' a"
  by (simp add: load16_def assms in_rng_def)

lemma store32_outside: "\<not> in_rng a 4 x \<Longrightarrow> store32 m a v x = m x"
  by (auto simp: store32_def in_rng_def)

lemma bytes_of_u32:
  "ucast (ucast v :: u8) OR push_bit 8 (ucast (ucast (drop_bit 8 v) :: u8))
     OR push_bit 16 (ucast (ucast (drop_bit 16 v) :: u8))
     OR push_bit 24 (ucast (ucast (drop_bit 24 v) :: u8)) = (v :: u32)"
    (is "?w = v")
proof (rule bit_word_eqI)
  fix n assume "n < LENGTH(32)"
  then consider "n < 8" | "8 \<le> n" "n < 16" | "16 \<le> n" "n < 24" | "24 \<le> n" "n < 32"
    by force
  then show "bit ?w n = bit v n"
    by cases (auto simp: bit_simps)
qed

lemma load32_store32 [mem_simps, simp]: "load32 (store32 m a v) a = v"
  using bytes_of_u32 [of v] by (simp add: load32_def store32_def)

lemma store16_outside: "\<not> in_rng a 2 x \<Longrightarrow> store16 m a v x = m x"
  by (auto simp: store16_def in_rng_def addr_offset_iff)

lemma bytes_of_u16: "(ucast (ucast v :: u8) :: u16) OR push_bit 8 (ucast (ucast (drop_bit 8 v) :: u8)) = v"
  by (rule bit_word_eqI) (auto simp: bit_or_iff bit_push_bit_iff bit_ucast_iff bit_drop_bit_eq)

lemma load16_store16 [mem_simps, simp]: "load16 (store16 m a v) a = v"
  using bytes_of_u16 [of v] by (simp add: load16_def store16_def)

lemma load32_store32_disj [mem_simps]:
  "disj a 4 b 4 \<Longrightarrow> load32 (store32 m a v) b = load32 m b"
  by (rule load32_cong, rule store32_outside) (blast dest: disjD disj_sym)

section \<open>Unsigned values\<close>

lemma unat_u32_lt: "unat (x :: u32) < 4294967296"
  using unsigned_less [of x] by simp

lemma unat_u32_add: "unat (a + b :: u32) = (unat a + unat b) mod 4294967296"
  by (simp add: unat_word_ariths)

lemma unat_u32_add_le: "unat a + unat b < 4294967296 \<Longrightarrow> unat (a + b :: u32) = unat a + unat b"
  by (simp add: unat_u32_add)

lemma sint_pos_unat:
  assumes "sint (x :: u32) > 0"
  shows "unat x < 2147483648"
proof (rule ccontr)
  assume "\<not> unat x < 2147483648"
  moreover have "uint x = int (unat x)" by simp
  ultimately have "2147483648 \<le> uint x" by linarith
  moreover have "uint x < 4294967296" using uint_lt2p [of x] by simp
  ultimately have "uint x div 2 ^ 31 = 1" by simp
  then have "bit (uint x) 31" unfolding bit_iff_odd by (metis odd_one)
  then have "sint x < 0" by (simp add: sint_uint)
  then show False using assms by simp
qed

section \<open>Counting loops over unsigned 32-bit counters\<close>

lemma unat_Suc_u32: "(i :: u32) < n \<Longrightarrow> unat (i + 1) = Suc (unat i)"
  using unat_u32_lt [of n] by (simp add: unat_word_ariths word_less_nat_alt)

lemma loop_up_dec [termination_simp]: "(i :: u32) < n \<Longrightarrow> unat n - unat (i + 1) < unat n - unat i"
  by (simp add: unat_Suc_u32 word_less_nat_alt)

lemma loop_up_dec2: "(x :: u32) + 1 < n \<Longrightarrow> unat n - unat (2 + x) < unat n - unat (x + 1)"
proof -
  assume "x + 1 < n"
  moreover have "2 + x = x + 1 + 1" by simp
  ultimately show ?thesis by (simp only: loop_up_dec)
qed

lemma unat_minus_one_u32 [simp]: "unat (- 1 :: u32) = 4294967295"
  unfolding unat_eq_nat_uint by (simp add: unsigned_minus_1_eq_mask mask_eq_exp_minus_1)

lemma less_not_max: "(x :: u32) < y \<Longrightarrow> x \<noteq> - 1"
  using unat_u32_lt [of y] by (auto simp: word_less_nat_alt)

lemma le_not_max: "(x :: u32) \<le> y \<Longrightarrow> y \<noteq> - 1 \<Longrightarrow> x \<noteq> - 1"
  using unat_u32_lt [of y] by (auto simp: word_le_nat_alt word_unat_eq_iff)

lemma unat_Suc_max: "(x :: u32) \<noteq> - 1 \<Longrightarrow> unat (x + 1) = unat x + 1"
  using unat_u32_lt [of x] unat_u32_add_le [of x 1] by (auto simp: word_unat_eq_iff)

lemma loop_down_dec [termination_simp]: "(i :: u32) \<noteq> 0 \<Longrightarrow> unat (i - 1) < unat i"
  by (rule measure_unat)

lemma unat_of_nat_u32: "n < 4294967296 \<Longrightarrow> unat (of_nat n :: u32) = n"
  by (simp add: unat_of_nat)

lemma of_nat_Suc_u32: "Suc k < 4294967296 \<Longrightarrow> (of_nat (Suc k) :: u32) \<noteq> 0"
proof -
  assume "Suc k < 4294967296"
  then have "unat (of_nat (Suc k) :: u32) = Suc k" by (simp add: unat_of_nat del: of_nat_Suc)
  then show ?thesis by (metis nat.distinct(1) unat_0)
qed

lemma sint_small: "unat (x :: u32) < 2147483648 \<Longrightarrow> sint x = int (unat x)"
proof -
  assume a: "unat x < 2147483648"
  have "int (unat x) < 2147483648" using a by linarith
  then have "uint x < 2147483648" by simp
  moreover have "- (2 ^ 31) \<le> uint x" by (rule order_trans [OF _ uint_ge_0]) simp
  ultimately have "signed_take_bit 31 (uint x) = uint x" by (intro signed_take_bit_int_eq_self) simp_all
  then show ?thesis by (simp add: sint_uint)
qed

lemma load32_bytes:
  "ucast (load32 m a) = m a" "ucast (drop_bit 8 (load32 m a)) = m (a + 1)"
  "ucast (drop_bit 16 (load32 m a)) = m (a + 2)" "ucast (drop_bit 24 (load32 m a)) = m (a + 3)"
  unfolding load32_def by (rule bit_word_eqI; auto simp: bit_simps dest: bit_imp_le_length)+

lemma store32_same: "store32 m a (load32 m a) = m"
  by (simp add: store32_def load32_bytes)

lemma load16_bytes: "ucast (load16 m a) = m a" "ucast (drop_bit 8 (load16 m a)) = m (a + 1)"
  unfolding load16_def by (rule bit_word_eqI; auto simp: bit_simps dest: bit_imp_le_length)+

lemma store16_same: "store16 m a (load16 m a) = m"
  by (simp add: store16_def load16_bytes)

end
