(* ===== verification/Portio.thy ===== *)
theory Portio
  imports Prelude
begin

text \<open>
  The I/O ports, \<open>kernel/include/kernel/portio.h\<close>.  The devices behind the ports are not part of the
  program: a bus carries them as a function of the accesses made so far, and every access is appended
  to the trace, so that a property about a driver is a property of the accesses it makes.
\<close>


datatype io_event = Out8 u16 u8 | In8 u16 u8 | Wait | Ticks u32

text \<open>
  \<open>Ticks n\<close> stands for a driver that sleeps for \<open>n\<close> ticks of the timer between two accesses.
  \<open>device h port\<close> is what the devices answer to a read of \<open>port\<close> after the accesses \<open>h\<close>, latest first.
\<close>

record bus =
  device :: "io_event list \<Rightarrow> u16 \<Rightarrow> u8"
  trace :: "io_event list"

definition outport8 :: "u16 \<Rightarrow> u8 \<Rightarrow> bus \<Rightarrow> bus" where
  "outport8 port v b = b\<lparr>trace := Out8 port v # trace b\<rparr>"

definition inport8 :: "u16 \<Rightarrow> bus \<Rightarrow> u8 \<times> bus" where
  "inport8 port b = (let v = device b (trace b) port in (v, b\<lparr>trace := In8 port v # trace b\<rparr>))"

definition io_wait :: "bus \<Rightarrow> bus" where
  "io_wait b = b\<lparr>trace := Wait # trace b\<rparr>"

end
