(* ===== verification/Libc_Mem.thy ===== *)
theory Libc_Mem
  imports Prelude
begin

text \<open>
  The block operations of \<^verbatim>\<open>libc/string\<close>: \<open>memset\<close>, \<open>memcpy\<close>, \<open>memmove\<close> and \<open>memcmp\<close>, byte loops
  over the flat memory. Each \<open>for\<close> loop is a recursive function on its counter; the lemmas give the
  memory after the call in closed form.
\<close>

section \<open>The operations\<close>

function memset_loop :: "mem \<Rightarrow> u32 \<Rightarrow> u8 \<Rightarrow> u32 \<Rightarrow> u32 \<Rightarrow> mem" where
  "memset_loop m buf v i sz =
     (if i < sz then memset_loop (m(buf + i := v)) buf v (i + 1) sz else m)"
  by pat_completeness auto
termination
  by (relation "measure (\<lambda>(m, buf, v, i, sz). unat sz - unat i)")
    (simp_all add: loop_up_dec)

definition memset :: "mem \<Rightarrow> u32 \<Rightarrow> u32 \<Rightarrow> u32 \<Rightarrow> mem \<times> u32" where
  "memset m bufptr value sz = (memset_loop m bufptr (ucast value) 0 sz, bufptr)"

function memcpy_loop :: "mem \<Rightarrow> u32 \<Rightarrow> u32 \<Rightarrow> u32 \<Rightarrow> u32 \<Rightarrow> mem" where
  "memcpy_loop m dst src i sz =
     (if i < sz then memcpy_loop (m(dst + i := m (src + i))) dst src (i + 1) sz else m)"
  by pat_completeness auto
termination
  by (relation "measure (\<lambda>(m, dst, src, i, sz). unat sz - unat i)")
    (simp_all add: loop_up_dec)

definition memcpy :: "mem \<Rightarrow> u32 \<Rightarrow> u32 \<Rightarrow> u32 \<Rightarrow> mem \<times> u32" where
  "memcpy m dstptr srcptr sz = (memcpy_loop m dstptr srcptr 0 sz, dstptr)"

function memmove_down :: "mem \<Rightarrow> u32 \<Rightarrow> u32 \<Rightarrow> u32 \<Rightarrow> mem" where
  "memmove_down m dst src i =
     (if i \<noteq> 0 then memmove_down (m(dst + (i - 1) := m (src + (i - 1)))) dst src (i - 1) else m)"
  by pat_completeness auto
termination
  by (relation "measure (\<lambda>(m, dst, src, i). unat i)") (simp_all add: loop_down_dec)

definition memmove :: "mem \<Rightarrow> u32 \<Rightarrow> u32 \<Rightarrow> u32 \<Rightarrow> mem \<times> u32" where
  "memmove m dstptr srcptr sz =
     (if dstptr < srcptr then memcpy_loop m dstptr srcptr 0 sz
      else memmove_down m dstptr srcptr sz, dstptr)"

function memcmp_loop :: "mem \<Rightarrow> u32 \<Rightarrow> u32 \<Rightarrow> u32 \<Rightarrow> u32 \<Rightarrow> int" where
  "memcmp_loop m a b i sz =
     (if i < sz then
        if m (a + i) < m (b + i) then - 1
        else if m (b + i) < m (a + i) then 1
        else memcmp_loop m a b (i + 1) sz
      else 0)"
  by pat_completeness auto
termination
  by (relation "measure (\<lambda>(m, a, b, i, sz). unat sz - unat i)") (simp_all add: loop_up_dec)

definition memcmp :: "mem \<Rightarrow> u32 \<Rightarrow> u32 \<Rightarrow> u32 \<Rightarrow> int" where
  "memcmp m aptr bptr sz = memcmp_loop m aptr bptr 0 sz"

declare memset_loop.simps [simp del] memcpy_loop.simps [simp del] memmove_down.simps [simp del]
  memcmp_loop.simps [simp del]

section \<open>memset\<close>

lemma memset_loop_apply:
  "unat i \<le> unat sz \<Longrightarrow> memset_loop m p v i sz x =
     (if unat i \<le> unat (x - p) \<and> unat (x - p) < unat sz then v else m x)"
proof (induction m p v i sz rule: memset_loop.induct)
  case (1 m p v i sz)
  show ?case
  proof (cases "i < sz")
    case True
    then show ?thesis
      using 1 addr_offset_iff [of x p i] by (subst memset_loop.simps) (auto simp: unat_Suc_u32 word_less_nat_alt fun_upd_def)
  next
    case False
    with 1 show ?thesis by (subst memset_loop.simps) (auto simp: word_less_nat_alt)
  qed
qed

lemma memset_apply:
  "fst (memset m p v n) x = (if in_rng p (unat n) x then ucast v else m x)"
  by (simp add: memset_def memset_loop_apply in_rng_def)

text \<open>
  \<open>memset\<close> returns its argument, gives each of the \<open>n\<close> bytes from \<open>p\<close> on the low byte of the value
  and leaves every other byte of memory as it was.
\<close>

theorem memset_correct:
  "snd (memset m p v n) = p \<and>
   (\<forall>x. fst (memset m p v n) x = (if in_rng p (unat n) x then ucast v else m x))"
  by (simp add: memset_apply) (simp add: memset_def)

section \<open>memcpy and memmove\<close>

text \<open>
  An upward copy is right when no byte is written before it is read, a downward copy when the
  same holds in the other order.
\<close>

definition up_safe :: "u32 \<Rightarrow> u32 \<Rightarrow> u32 \<Rightarrow> bool" where
  "up_safe dst src n \<longleftrightarrow> (\<forall>k j. k < j \<and> j < n \<longrightarrow> dst + k \<noteq> src + j)"

definition down_safe :: "u32 \<Rightarrow> u32 \<Rightarrow> u32 \<Rightarrow> bool" where
  "down_safe dst src n \<longleftrightarrow> (\<forall>k j. j < k \<and> k < n \<longrightarrow> dst + k \<noteq> src + j)"

lemma memcpy_loop_apply:
  "up_safe dst src n \<Longrightarrow> unat i \<le> unat n \<Longrightarrow> memcpy_loop m dst src i n x =
     (if unat i \<le> unat (x - dst) \<and> unat (x - dst) < unat n then m (src + (x - dst)) else m x)"
proof (induction m dst src i n rule: memcpy_loop.induct)
  case (1 m dst src i n)
  show ?case
  proof (cases "i < n")
    case True
    have unread: "src + (x - dst) \<noteq> dst + i" if "i < x - dst" "x - dst < n"
      using 1(2) that unfolding up_safe_def by metis
    show ?thesis
      using 1 True addr_offset_iff [of x dst i] unread
      by (subst memcpy_loop.simps) (auto simp: unat_Suc_u32 word_less_nat_alt fun_upd_def)
  next
    case False
    with 1 show ?thesis by (subst memcpy_loop.simps) (auto simp: word_less_nat_alt)
  qed
qed

lemma memmove_down_apply:
  "down_safe dst src n \<Longrightarrow> unat i \<le> unat n \<Longrightarrow> memmove_down m dst src i x =
     (if unat (x - dst) < unat i then m (src + (x - dst)) else m x)"
proof (induction m dst src i rule: memmove_down.induct)
  case (1 m dst src i)
  show ?case
  proof (cases "i = 0")
    case False
    then have i1: "unat (i - 1) = unat i - 1" and pos: "0 < unat i"
      by (simp_all add: unat_minus_one unat_gt_0)
    have "i - 1 < n" using 1(3) i1 pos by (simp add: word_less_nat_alt)
    then have unread: "src + (x - dst) \<noteq> dst + (i - 1)" if "x - dst < i - 1"
      using 1(2) that unfolding down_safe_def by metis
    show ?thesis
      using 1 False addr_offset_iff [of x dst "i - 1"] unread i1 pos
      by (subst memmove_down.simps) (auto simp: word_less_nat_alt fun_upd_def)
  qed (simp add: memmove_down.simps)
qed

lemma up_safe_disj: "disj dst (unat n) src (unat n) \<Longrightarrow> up_safe dst src n"
  unfolding up_safe_def using disj_offset_neq [of dst "unat n" src "unat n"]
  by (auto simp: word_less_nat_alt)

lemma up_safe_below: "dst < src \<Longrightarrow> unat src + unat n \<le> 2 ^ 32 \<Longrightarrow> up_safe dst src n"
  unfolding up_safe_def by (auto simp: word_less_nat_alt word_unat_eq_iff unat_u32_add)

lemma down_safe_above: "src \<le> dst \<Longrightarrow> unat dst + unat n \<le> 2 ^ 32 \<Longrightarrow> down_safe dst src n"
  unfolding down_safe_def
  by (auto simp: word_less_nat_alt word_le_nat_alt word_unat_eq_iff unat_u32_add)

lemma memcpy_apply:
  "disj dst (unat n) src (unat n) \<Longrightarrow>
   fst (memcpy m dst src n) x = (if in_rng dst (unat n) x then m (src + (x - dst)) else m x)"
  by (simp add: memcpy_def memcpy_loop_apply up_safe_disj in_rng_def)

text \<open>
  C18: \<open>memmove\<close> is right for overlapping ranges: when neither range wraps around the end of the
  address space, every destination byte receives the source byte as it was before the call, and no
  byte outside the destination changes.
\<close>

theorem memmove_correct:
  assumes "unat dst + unat n \<le> 2 ^ 32" and "unat src + unat n \<le> 2 ^ 32"
  shows "fst (memmove m dst src n) x = (if in_rng dst (unat n) x then m (src + (x - dst)) else m x)"
proof (cases "dst < src")
  case True
  with assms show ?thesis
    by (simp add: memmove_def memcpy_loop_apply up_safe_below in_rng_def)
next
  case False
  with assms show ?thesis
    by (simp add: memmove_def memmove_down_apply [where n = n] down_safe_above in_rng_def)
qed

theorem memmove_correct_witness:
  "fst (memmove (\<lambda>a. ucast a) 101 100 3) 103 = (if in_rng 101 (unat (3 :: u32)) 103
     then ucast (100 + (103 - 101) :: u32) else ucast (103 :: u32))"
  by (rule memmove_correct) simp_all

section \<open>memcmp\<close>

lemma memcmp_loop_zero:
  "memcmp_loop m a b i n = 0 \<longleftrightarrow> (\<forall>j. i \<le> j \<and> j < n \<longrightarrow> m (a + j) = m (b + j))"
proof (induction m a b i n rule: memcmp_loop.induct)
  case (1 m a b i n)
  show ?case
  proof (cases "i < n")
    case True
    have step: "i \<le> j \<longleftrightarrow> j = i \<or> i + 1 \<le> j" for j
      using unat_Suc_u32 [OF True] by (auto simp: word_le_nat_alt word_unat_eq_iff)
    show ?thesis
      using 1 True by (subst memcmp_loop.simps) (auto simp: step)
  qed (auto simp: memcmp_loop.simps)
qed

lemma memcmp_loop_swap: "memcmp_loop m b a i n = - memcmp_loop m a b i n"
proof (induction m a b i n rule: memcmp_loop.induct)
  case (1 m a b i n)
  then show ?case
    by (subst (1 2) memcmp_loop.simps) auto
qed

text \<open>
  \<open>memcmp\<close> returns 0 exactly when the two blocks hold the same bytes, and swapping its arguments
  negates the result, so the sign is that of a total order.
\<close>

theorem memcmp_correct:
  "(memcmp m a b n = 0 \<longleftrightarrow> (\<forall>j < n. m (a + j) = m (b + j))) \<and>
   memcmp m b a n = - memcmp m a b n"
  by (simp add: memcmp_def memcmp_loop_zero memcmp_loop_swap [of m b a])

theorem memcmp_correct_witness:
  "(memcmp (\<lambda>_. 7) 10 20 4 = 0 \<longleftrightarrow> (\<forall>j < 4. (7 :: u8) = 7)) \<and>
   memcmp (\<lambda>_. 7) 20 10 4 = - memcmp (\<lambda>_. 7) 10 20 4"
  using memcmp_correct [of "\<lambda>_. 7" 10 20 4] by simp

end
