(* ===== verification/Libc_Str.thy ===== *)
theory Libc_Str
  imports Libc_Mem
begin

text \<open>
  The string functions of the C library, \<open>libc/string/str*.c\<close> and \<open>libc/stdlib/find.c\<close>, over the flat
  memory: \<open>strlen\<close>, \<open>strcmp\<close>, \<open>strcpy\<close>, \<open>strspn\<close>, \<open>strpbrk\<close>, \<open>lfind\<close> and the tokenizer \<open>strtok_r\<close>,
  which the file systems use to walk paths.  \<open>cstr m p s\<close> says that the NUL-terminated string \<open>s\<close> lies
  at \<open>p\<close>; on such memory every loop ends.
\<close>

section \<open>The operations\<close>

text \<open>A loop that ends at a NUL byte only may never end: its value is then \<open>None\<close>.\<close>

partial_function (option) strlen_loop :: "mem \<Rightarrow> u32 \<Rightarrow> u32 \<Rightarrow> u32 option" where
  "strlen_loop m string result =
     (if m (string + result) \<noteq> 0 then strlen_loop m string (result + 1) else Some result)"

definition strlen :: "mem \<Rightarrow> u32 \<Rightarrow> u32 option" where
  "strlen m string = strlen_loop m string 0"

partial_function (option) strcmp_loop :: "mem \<Rightarrow> u32 \<Rightarrow> u32 \<Rightarrow> u32 \<Rightarrow> int option" where
  "strcmp_loop m a b i =
     (if m (a + i) \<noteq> 0 \<and> m (b + i) \<noteq> 0 then
        if m (a + i) \<noteq> m (b + i) then
          if (m (a + i) = 0 \<and> m (b + i) \<noteq> 0) \<or> (m (a + i) \<noteq> 0 \<and> m (b + i) = 0) then Some 1 else Some 0
        else strcmp_loop m a b (i + 1)
      else Some 0)"

definition strcmp :: "mem \<Rightarrow> u32 \<Rightarrow> u32 \<Rightarrow> int option" where
  "strcmp m a b = strcmp_loop m a b 0"

definition strcpy :: "mem \<Rightarrow> u32 \<Rightarrow> u32 \<Rightarrow> (u32 \<times> mem) option" where
  "strcpy m dstptr srcptr = do {
     sz \<leftarrow> strlen m srcptr;
     Some (dstptr, memcpy_loop m dstptr srcptr 0 sz)
   }"

text \<open>The inner loop of \<open>strspn\<close>: where \<open>temp\<close> stops.\<close>

partial_function (option) strspn_scan :: "mem \<Rightarrow> u8 \<Rightarrow> u32 \<Rightarrow> u32 option" where
  "strspn_scan m c temp =
     (if m temp \<noteq> 0 then if c = m temp then Some temp else strspn_scan m c (temp + 1) else Some temp)"

partial_function (option) strspn_loop :: "mem \<Rightarrow> u32 \<Rightarrow> u32 \<Rightarrow> u32 \<Rightarrow> u32 option" where
  "strspn_loop m str2 ptr sz =
     (if m ptr \<noteq> 0
      then do {
        temp \<leftarrow> strspn_scan m (m ptr) str2;
        if m temp = 0 then Some sz else strspn_loop m str2 (ptr + 1) (sz + 1)
      }
      else Some sz)"

definition strspn :: "mem \<Rightarrow> u32 \<Rightarrow> u32 \<Rightarrow> u32 option" where
  "strspn m str1 str2 = strspn_loop m str2 str1 0"

text \<open>The inner loop of \<open>strpbrk\<close>: is \<open>c\<close> among the characters from \<open>acc\<close> on?\<close>

partial_function (option) strpbrk_scan :: "mem \<Rightarrow> u8 \<Rightarrow> u32 \<Rightarrow> bool option" where
  "strpbrk_scan m c acc =
     (if m acc \<noteq> 0 then if m acc = c then Some True else strpbrk_scan m c (acc + 1) else Some False)"

partial_function (option) strpbrk :: "mem \<Rightarrow> u32 \<Rightarrow> u32 \<Rightarrow> u32 option" where
  "strpbrk m str1 str2 =
     (if m str1 \<noteq> 0
      then do {
        found \<leftarrow> strpbrk_scan m (m str1) str2;
        if found then Some str1 else strpbrk m (str1 + 1) str2
      }
      else Some 0)"

partial_function (option) lfind_loop :: "mem \<Rightarrow> u32 \<Rightarrow> u8 \<Rightarrow> u32 \<Rightarrow> u32 option" where
  "lfind_loop m str1 c i = (if m (str1 + i) \<noteq> c then lfind_loop m str1 c (i + 1) else Some i)"

definition lfind :: "mem \<Rightarrow> u32 \<Rightarrow> u8 \<Rightarrow> u32 option" where
  "lfind m str1 c = do { i \<leftarrow> lfind_loop m str1 c 0; Some (str1 + i) }"

definition strtok_r :: "mem \<Rightarrow> u32 \<Rightarrow> u32 \<Rightarrow> u32 \<Rightarrow> (u32 \<times> mem) option" where
  "strtok_r m str0 delim saveptr =
     (let str1 = (if str0 = 0 then load32 m saveptr else str0)
      in do {
        skip \<leftarrow> strspn m str1 delim;
        let str2 = str1 + skip;
        if m str2 = 0 then Some (0, store32 m saveptr str2)
        else do {
          str3 \<leftarrow> strpbrk m str2 delim;
          if str3 = 0
          then do { e \<leftarrow> lfind m str2 0; Some (str2, store32 m saveptr e) }
          else Some (str2, store32 (m(str3 := 0)) saveptr (str3 + 1))
        }
      })"

declare strlen_loop.simps [code] strcmp_loop.simps [code] strspn_scan.simps [code] strspn_loop.simps [code]
  strpbrk_scan.simps [code] strpbrk.simps [code] lfind_loop.simps [code]

section \<open>Strings in memory\<close>

text \<open>At \<open>p\<close> lie the characters of \<open>s\<close>, none of them NUL, and a NUL.\<close>

fun cstr :: "mem \<Rightarrow> u32 \<Rightarrow> u8 list \<Rightarrow> bool" where
  "cstr m p [] \<longleftrightarrow> m p = 0"
| "cstr m p (c # s) \<longleftrightarrow> m p = c \<and> c \<noteq> 0 \<and> cstr m (p + 1) s"

lemma cstr_append: "cstr m p (s @ t) \<longleftrightarrow>
  (\<forall>i < length s. m (p + of_nat i) = s ! i \<and> s ! i \<noteq> 0) \<and> cstr m (p + of_nat (length s)) t"
proof (induction s arbitrary: p)
  case (Cons c s)
  show ?case by (simp add: Cons All_less_Suc2 add.assoc add.commute [of 1] del: of_nat_Suc) (auto simp: ac_simps)
qed simp

lemma cstr_nth: "cstr m p s \<longleftrightarrow>
  (\<forall>i < length s. m (p + of_nat i) = s ! i \<and> s ! i \<noteq> 0) \<and> m (p + of_nat (length s)) = 0"
  using cstr_append [of m p s "[]"] by simp

lemma cstr_cong:
  "(\<And>i. i \<le> length s \<Longrightarrow> m' (p + of_nat i) = m (p + of_nat i)) \<Longrightarrow> cstr m' p s = cstr m p s"
proof (induction s arbitrary: p)
  case (Cons c s)
  have "m' (p + 1 + of_nat i) = m (p + 1 + of_nat i)" if "i \<le> length s" for i
    using Cons.prems [of "Suc i"] that by (simp add: ac_simps)
  then show ?case using Cons.IH [of "p + 1"] Cons.prems [of 0] by simp
next
  case Nil
  from Nil [of 0] show ?case by simp
qed

section \<open>Length, comparison, spans\<close>

lemma strlen_loop_correct: "cstr m (p + i) s \<Longrightarrow> strlen_loop m p i = Some (i + of_nat (length s))"
proof (induction s arbitrary: i)
  case Nil
  then show ?case by (subst strlen_loop.simps) simp
next
  case (Cons c s)
  then show ?case by (subst strlen_loop.simps) (simp add: ac_simps)
qed

lemma strspn_scan_correct:
  "cstr m q d \<Longrightarrow> \<exists>t. strspn_scan m c q = Some t \<and> (m t = 0 \<longleftrightarrow> c \<notin> set d)"
proof (induction d arbitrary: q)
  case Nil
  then show ?case by (subst strspn_scan.simps) simp
next
  case (Cons x d)
  then show ?case by (subst strspn_scan.simps) auto
qed

lemma strspn_loop_correct:
  "cstr m p s \<Longrightarrow> cstr m q d \<Longrightarrow>
   strspn_loop m q p n = Some (n + of_nat (length (takeWhile (\<lambda>c. c \<in> set d) s)))"
proof (induction s arbitrary: p n)
  case Nil
  then show ?case by (subst strspn_loop.simps) simp
next
  case (Cons c s)
  obtain t where "strspn_scan m c q = Some t" "m t = 0 \<longleftrightarrow> c \<notin> set d"
    using strspn_scan_correct [OF Cons.prems(2)] by blast
  then show ?case using Cons by (subst strspn_loop.simps) (simp add: ac_simps)
qed

lemma strpbrk_scan_correct: "cstr m q d \<Longrightarrow> strpbrk_scan m c q = Some (c \<in> set d)"
proof (induction d arbitrary: q)
  case Nil
  then show ?case by (subst strpbrk_scan.simps) simp
next
  case (Cons x d)
  then show ?case by (subst strpbrk_scan.simps) auto
qed

lemma strpbrk_correct:
  "cstr m p s \<Longrightarrow> cstr m q d \<Longrightarrow> strpbrk m p q =
     Some (if \<exists>c \<in> set s. c \<in> set d then p + of_nat (length (takeWhile (\<lambda>c. c \<notin> set d) s)) else 0)"
proof (induction s arbitrary: p)
  case Nil
  then show ?case by (subst strpbrk.simps) simp
next
  case (Cons c s)
  then show ?case by (subst strpbrk.simps) (auto simp: strpbrk_scan_correct ac_simps)
qed

lemma lfind_zero: "cstr m p s \<Longrightarrow> lfind m p 0 = Some (p + of_nat (length s))"
proof -
  have "cstr m (p + i) s \<Longrightarrow> lfind_loop m p 0 i = Some (i + of_nat (length s))" for i
  proof (induction s arbitrary: i)
    case Nil
    then show ?case by (subst lfind_loop.simps) simp
  next
    case (Cons c s)
    then show ?case by (subst lfind_loop.simps) (simp add: ac_simps)
  qed
  from this [of 0] show "cstr m p s \<Longrightarrow> ?thesis" by (simp add: lfind_def)
qed

text \<open>A string at \<open>0x100\<close>, \<open>a,b\<close>, and the delimiters \<open>,\<close> at \<open>0x200\<close>.\<close>

definition sample_str :: mem where
  "sample_str = (\<lambda>_. 0)(0x100 := 97, 0x101 := 44, 0x102 := 98, 0x200 := 44)"

lemma sample_str_cstr: "cstr sample_str 0x100 [97, 44, 98]" "cstr sample_str 0x200 [44]"
  by (simp_all add: sample_str_def)

lemma strlen_correct:
  assumes "cstr m p s"
  shows "strlen m p = Some (of_nat (length s))"
  using strlen_loop_correct [of m p 0 s] assms by (simp add: strlen_def)

lemma strcmp_zero:
  assumes "cstr m a s" and "cstr m b t"
  shows "strcmp m a b = Some 0"
proof -
  have "cstr m (a + i) s \<Longrightarrow> cstr m (b + i) t \<Longrightarrow> strcmp_loop m a b i = Some 0" for i
  proof (induction s arbitrary: t i)
    case Nil
    then show ?case by (subst strcmp_loop.simps) simp
  next
    case (Cons c s)
    show ?case
    proof (cases t)
      case Nil
      then show ?thesis using Cons.prems by (subst strcmp_loop.simps) simp
    next
      case (Cons d u)
      then show ?thesis using Cons.prems Cons.IH [of "i + 1" u] by (subst strcmp_loop.simps) (simp add: ac_simps)
    qed
  qed
  from this [of 0] show ?thesis using assms by (simp add: strcmp_def)
qed

text \<open>\<open>strcmp\<close> of any two strings ends, and returns 0 whether or not they are equal.\<close>

theorem strcmp_always_zero:
  assumes "cstr m a s" and "cstr m b t"
  shows "strcmp m a b = Some 0"
  using assms by (rule strcmp_zero)

theorem strcmp_always_zero_witness:
  "cstr sample_str 0x100 [97, 44, 98] \<and> cstr sample_str 0x200 [44] \<and> strcmp sample_str 0x100 0x200 = Some 0"
  using strcmp_always_zero [OF sample_str_cstr] sample_str_cstr by simp

text \<open>
  \<open>strcpy\<close> onto a place that does not overlap the string copies its characters and nothing else: the byte
  after them, where the terminating NUL of the copy should be, keeps its old value.
\<close>

theorem strcpy_no_terminator:
  assumes "cstr m q s" and "length s < 4294967296" and "disj p (length s) q (length s)"
  shows "\<exists>m'. strcpy m p q = Some (p, m') \<and> (\<forall>i < length s. m' (p + of_nat i) = s ! i) \<and>
    (\<forall>x. \<not> in_rng p (length s) x \<longrightarrow> m' x = m x)"
proof -
  let ?n = "of_nat (length s) :: u32"
  have n: "unat ?n = length s" using assms(2) by (simp add: unat_of_nat)
  have c: "memcpy_loop m p q 0 ?n x = (if in_rng p (length s) x then m (q + (x - p)) else m x)" for x
    using memcpy_loop_apply [OF up_safe_disj, of p ?n q 0 m x] assms(3) n by (simp add: in_rng_def)
  have "in_rng p (length s) (p + of_nat i)" if "i < length s" for i
    using that assms(2) by (simp add: in_rng_def unat_of_nat)
  then show ?thesis
    using strlen_loop_correct [of m q 0 s] assms(1) cstr_nth [of m q s]
    by (simp add: strcpy_def strlen_def c)
qed

theorem strcpy_no_terminator_witness:
  "\<exists>m'. strcpy sample_str 0x300 0x100 = Some (0x300, m') \<and> m' 0x303 = sample_str 0x303"
proof -
  have d: "disj 0x300 (length [97, 44, 98 :: u8]) 0x100 (length [97, 44, 98 :: u8])" by (simp add: disj_def)
  from strcpy_no_terminator [OF sample_str_cstr(1) _ d]
  obtain m' where "strcpy sample_str 0x300 0x100 = Some (0x300, m')"
    "\<forall>x. \<not> in_rng 0x300 (length [97, 44, 98 :: u8]) x \<longrightarrow> m' x = sample_str x" by auto
  then show ?thesis by (auto simp: in_rng_def)
qed

section \<open>Tokens\<close>

lemma offset_eq:
  assumes "i < 4294967296" "j < 4294967296"
  shows "(p :: u32) + of_nat i = p + of_nat j \<longleftrightarrow> i = j"
proof -
  have "unat (of_nat i :: u32) = i" "unat (of_nat j :: u32) = j" using assms by (simp_all add: unat_of_nat)
  then show ?thesis by (metis add_left_cancel)
qed

text \<open>The string with a NUL written into it at offset \<open>k\<close> is two strings.\<close>

lemma cstr_cut:
  assumes "cstr m p s" "k < length s" "length s < 4294967295"
    and m': "\<And>j. j \<le> length s \<Longrightarrow> m' (p + of_nat j) = (if j = k then 0 else m (p + of_nat j))"
    and "i \<le> k"
  shows "cstr m' (p + of_nat i) (drop i (take k s))" "cstr m' (p + of_nat (Suc k)) (drop (Suc k) s)"
proof -
  have c: "m (p + of_nat j) = s ! j \<and> s ! j \<noteq> 0" if "j < length s" for j using assms(1) that by (simp add: cstr_nth)
  have z: "m (p + of_nat (length s)) = 0" using assms(1) by (simp add: cstr_nth)
  have sh: "p + of_nat a + of_nat b = p + of_nat (a + b)" for a b by simp
  show "cstr m' (p + of_nat i) (drop i (take k s))"
    unfolding cstr_nth sh
  proof (intro conjI allI impI)
    fix j assume "j < length (drop i (take k s))"
    then have "i + j < k" using assms(2) by simp
    then show "m' (p + of_nat (i + j)) = drop i (take k s) ! j" "drop i (take k s) ! j \<noteq> 0"
      using assms(2) c [of "i + j"] m' [of "i + j"] by (simp_all del: of_nat_add)
  next
    show "m' (p + of_nat (i + length (drop i (take k s)))) = 0"
      using assms(2,5) m' [of k] by (simp del: of_nat_add)
  qed
  show "cstr m' (p + of_nat (Suc k)) (drop (Suc k) s)"
    unfolding cstr_nth sh
  proof (intro conjI allI impI)
    fix j assume "j < length (drop (Suc k) s)"
    then show "m' (p + of_nat (Suc k + j)) = drop (Suc k) s ! j" "drop (Suc k) s ! j \<noteq> 0"
      using c [of "Suc k + j"] m' [of "Suc k + j"] by (simp_all del: of_nat_add of_nat_Suc)
  next
    have "Suc k + length (drop (Suc k) s) = length s" using assms(2) by simp
    then show "m' (p + of_nat (Suc k + length (drop (Suc k) s))) = 0"
      using assms(2) z m' [of "length s"] by simp
  qed
qed

text \<open>
  C19: \<open>strtok_r\<close> on a string, given directly or through the saved pointer: leading delimiters are skipped; if
  nothing is left the result is NULL; otherwise the result points to the next token, which is now a
  string of its own, the saved pointer points to the rest after the delimiter, and no byte outside the
  string and the saved pointer changes.
\<close>

theorem strtok_r_correct:
  assumes s: "cstr m p s" and d: "cstr m q d" and p: "p \<noteq> 0" "unat p + length s < 4294967295"
    and sv: "disj p (length s + 1) sv 4" and str: "str = p \<or> str = 0 \<and> load32 m sv = p"
  defines "r \<equiv> dropWhile (\<lambda>c. c \<in> set d) s"
  shows "if r = [] then strtok_r m str q sv = Some (0, store32 m sv (p + of_nat (length s)))
    else \<exists>m'. strtok_r m str q sv = Some (p + of_nat (length s - length r), m') \<and>
      cstr m' (p + of_nat (length s - length r)) (takeWhile (\<lambda>c. c \<notin> set d) r) \<and>
      cstr m' (load32 m' sv) (drop 1 (dropWhile (\<lambda>c. c \<notin> set d) r)) \<and>
      (\<forall>x. \<not> in_rng p (length s + 1) x \<longrightarrow> \<not> in_rng sv 4 x \<longrightarrow> m' x = m x)"
proof -
  let ?a = "length (takeWhile (\<lambda>c. c \<in> set d) s)" and ?t = "length (takeWhile (\<lambda>c. c \<notin> set d) r)"
  have len: "length s = ?a + length r" unfolding r_def by (metis length_append takeWhile_dropWhile_id)
  have dr: "r = drop ?a s" unfolding r_def by (rule dropWhile_eq_drop)
  have s1: "(if str = 0 then load32 m sv else str) = p" using str p(1) by auto
  have cr: "cstr m (p + of_nat ?a) r"
    using s cstr_append [of m p "takeWhile (\<lambda>c. c \<in> set d) s" r] by (simp add: r_def)
  have sp: "strspn m p q = Some (of_nat ?a)" using strspn_loop_correct [OF s d, of 0] by (simp add: strspn_def)
  show ?thesis
  proof (cases "r = []")
    case True
    then show ?thesis using cr len by (simp add: strtok_r_def s1 sp)
  next
    case False
    then have nz: "m (p + of_nat ?a) \<noteq> 0" using cr by (cases r) auto
    have off: "in_rng p (length s + 1) (p + of_nat j)" if "j \<le> length s" for j
      using that p(2) by (simp add: in_rng_def unat_of_nat)
    have keep: "store32 m1 sv v (p + of_nat j) = m1 (p + of_nat j)" if "j \<le> length s" for j v m1
      using disjD [OF sv off [OF that]] by (rule store32_outside)
    have la: "length s - length r = ?a" using len by simp
    show ?thesis
    proof (cases "\<exists>c \<in> set r. c \<in> set d")
      case no: False
      have tk: "takeWhile (\<lambda>c. c \<notin> set d) r = r" "dropWhile (\<lambda>c. c \<notin> set d) r = []"
        using no by (auto simp: takeWhile_eq_all_conv dropWhile_eq_Nil_conv)
      have st: "strtok_r m str q sv = Some (p + of_nat ?a, store32 m sv (p + of_nat (length s)))"
        using nz strpbrk_correct [OF cr d] no lfind_zero [OF cr] len by (simp add: strtok_r_def s1 sp ac_simps)
      let ?m = "store32 m sv (p + of_nat (length s))"
      have "cstr ?m (p + of_nat ?a) r = cstr m (p + of_nat ?a) r"
      proof (rule cstr_cong)
        fix i assume "i \<le> length r"
        then have "?a + i \<le> length s" using len by simp
        from keep [OF this] show "?m (p + of_nat ?a + of_nat i) = m (p + of_nat ?a + of_nat i)"
          by (simp add: add.assoc)
      qed
      moreover have "?m (p + of_nat (length s)) = 0" using keep [of "length s"] s by (simp add: cstr_nth)
      ultimately show ?thesis using False st cr la unfolding tk by (auto simp: store32_outside)
    next
      case yes: True
      have "takeWhile (\<lambda>c. c \<notin> set d) r \<noteq> r" using yes by (auto simp: takeWhile_eq_all_conv)
      then have tl: "?t < length r"
        by (metis length_takeWhile_le le_neq_implies_less takeWhile_eq_take take_all order_refl)
      let ?k = "?a + ?t"
      have kl: "?k < length s" using tl len by simp
      have pk: "p + of_nat ?k \<noteq> 0"
      proof -
        have "unat (p + of_nat ?k) = unat p + ?k" using p(2) kl unat_u32_add_le [of p "of_nat ?k"] by (simp add: unat_of_nat del: of_nat_add)
        then show ?thesis using p(1) by (metis add_is_0 unat_0 unat_eq_0)
      qed
      let ?m = "store32 (m(p + of_nat ?k := 0)) sv (p + of_nat ?k + 1)"
      have st: "strtok_r m str q sv = Some (p + of_nat ?a, ?m)"
        using nz strpbrk_correct [OF cr d] yes pk by (simp add: strtok_r_def s1 sp ac_simps)
      have m': "?m (p + of_nat j) = (if j = ?k then 0 else m (p + of_nat j))" if "j \<le> length s" for j
        using keep [OF that] offset_eq [of j ?k p] that p(2) kl by (simp del: of_nat_add)
      have ls: "length s < 4294967295" using p(2) by simp
      note cut = cstr_cut [of m p s ?k ?m ?a, OF s kl ls m']
      have e1: "drop ?a (take ?k s) = takeWhile (\<lambda>c. c \<notin> set d) r"
        by (simp add: dr drop_take) (metis takeWhile_eq_take)
      have e2: "drop (Suc ?k) s = drop 1 (dropWhile (\<lambda>c. c \<notin> set d) r)"
        by (simp add: dropWhile_eq_drop) (simp add: dr add.commute)
      have e3: "load32 ?m sv = p + of_nat (Suc ?k)" by simp
      have fr: "\<forall>x. \<not> in_rng p (length s + 1) x \<longrightarrow> \<not> in_rng sv 4 x \<longrightarrow> ?m x = m x"
        using off [of ?k] kl by (auto simp: store32_outside)
      have "cstr ?m (p + of_nat ?a) (takeWhile (\<lambda>c. c \<notin> set d) r)"
        using cut(1) unfolding e1 by simp
      moreover have "cstr ?m (load32 ?m sv) (drop 1 (dropWhile (\<lambda>c. c \<notin> set d) r))"
        unfolding e3 using cut(2) unfolding e2 by (simp del: of_nat_add of_nat_Suc)
      ultimately show ?thesis using False st la fr by (auto simp del: load32_store32)
    qed
  qed
qed

theorem strtok_r_correct_witness:
  "\<exists>m'. strtok_r sample_str 0x100 0x200 0x300 = Some (0x100, m') \<and> cstr m' 0x100 [97] \<and> cstr m' (load32 m' 0x300) [98]"
proof -
  have d: "disj 0x100 (length [97, 44, 98 :: u8] + 1) 0x300 4" by (simp add: disj_def)
  show ?thesis using strtok_r_correct [OF sample_str_cstr _ _ d, of "0x100"] by auto
qed

end
