(* ===== verification/Terminal.thy ===== *)
theory Terminal
  imports Portio Libc_Str
begin

text \<open>
  The text terminal, \<open>kernel/kernel/ui/tty.c\<close> and \<open>kernel/include/kernel/vga.h\<close>: its four globals, the
  memory its buffer lies in and the port bus of the cursor.  Its contract is a screen of 2000 entries with
  a cursor: \<open>screen_putchar\<close> says what a character does to a screen, and every operation of the terminal
  is a \<open>video_step\<close>: it does to the screen in memory what its specification says, keeps the terminal
  well-formed and writes nowhere else.
\<close>

section \<open>VGA\<close>

datatype vga_color = COLOR_BLACK | COLOR_BLUE | COLOR_GREEN | COLOR_CYAN | COLOR_RED | COLOR_MAGENTA
  | COLOR_BROWN | COLOR_LIGHT_GREY | COLOR_DARK_GREY | COLOR_LIGHT_BLUE | COLOR_LIGHT_GREEN
  | COLOR_LIGHT_CYAN | COLOR_LIGHT_RED | COLOR_LIGHT_MAGENTA | COLOR_LIGHT_BROWN | COLOR_WHITE

fun color_value :: "vga_color \<Rightarrow> u8" where
  "color_value COLOR_BLACK = 0"
| "color_value COLOR_BLUE = 1"
| "color_value COLOR_GREEN = 2"
| "color_value COLOR_CYAN = 3"
| "color_value COLOR_RED = 4"
| "color_value COLOR_MAGENTA = 5"
| "color_value COLOR_BROWN = 6"
| "color_value COLOR_LIGHT_GREY = 7"
| "color_value COLOR_DARK_GREY = 8"
| "color_value COLOR_LIGHT_BLUE = 9"
| "color_value COLOR_LIGHT_GREEN = 10"
| "color_value COLOR_LIGHT_CYAN = 11"
| "color_value COLOR_LIGHT_RED = 12"
| "color_value COLOR_LIGHT_MAGENTA = 13"
| "color_value COLOR_LIGHT_BROWN = 14"
| "color_value COLOR_WHITE = 15"

definition make_color :: "vga_color \<Rightarrow> vga_color \<Rightarrow> u8" where
  "make_color fg bg = color_value fg OR push_bit 4 (color_value bg)"

text \<open>\<open>char\<close> is signed on i386: widening it to 16 bits copies its sign bit.\<close>

definition make_vgaentry :: "u8 \<Rightarrow> u8 \<Rightarrow> u16" where
  "make_vgaentry c color = scast c OR push_bit 8 (ucast color)"

definition VGA_WIDTH :: u32 where "VGA_WIDTH = 80"
definition VGA_HEIGHT :: u32 where "VGA_HEIGHT = 25"
definition VGA_MEMORY :: u32 where "VGA_MEMORY = 0xB8000"

lemmas vga_dims = VGA_WIDTH_def VGA_HEIGHT_def VGA_MEMORY_def

section \<open>The terminal\<close>

record terminal =
  terminal_row :: u32
  terminal_column :: u32
  terminal_color :: u8
  terminal_buffer :: u32
  tmem :: mem
  tbus :: bus

text \<open>The assignment \<open>terminal_buffer[index] = entry\<close> to an array of 16-bit entries.\<close>

definition buffer_set :: "u32 \<Rightarrow> u16 \<Rightarrow> terminal \<Rightarrow> terminal" where
  "buffer_set index e t = t\<lparr>tmem := store16 (tmem t) (terminal_buffer t + 2 * index) e\<rparr>"

definition buffer_get :: "u32 \<Rightarrow> terminal \<Rightarrow> u16" where
  "buffer_get index t = load16 (tmem t) (terminal_buffer t + 2 * index)"

definition terminal_setcolor :: "u8 \<Rightarrow> terminal \<Rightarrow> terminal" where
  "terminal_setcolor color t = t\<lparr>terminal_color := color\<rparr>"

definition terminal_putentryat :: "u8 \<Rightarrow> u8 \<Rightarrow> u32 \<Rightarrow> u32 \<Rightarrow> terminal \<Rightarrow> terminal" where
  "terminal_putentryat c color x y t = (let index = y * VGA_WIDTH + x in buffer_set index (make_vgaentry c color) t)"

text \<open>The two loops of \<open>terminal_initialize\<close>.\<close>

function initialize_row :: "u32 \<Rightarrow> u32 \<Rightarrow> terminal \<Rightarrow> terminal" where
  "initialize_row y x t =
     (if x < VGA_WIDTH
      then let index = y * VGA_WIDTH + x in
        initialize_row y (x + 1) (buffer_set index (make_vgaentry 32 (terminal_color t)) t)
      else t)"
  by auto
termination by (relation "measure (\<lambda>(y, x, t). unat VGA_WIDTH - unat x)") (auto simp: loop_up_dec)

function initialize_rows :: "u32 \<Rightarrow> terminal \<Rightarrow> terminal" where
  "initialize_rows y t = (if y < VGA_HEIGHT then initialize_rows (y + 1) (initialize_row y 0 t) else t)"
  by auto
termination by (relation "measure (\<lambda>(y, t). unat VGA_HEIGHT - unat y)") (auto simp: loop_up_dec)

definition terminal_initialize :: "terminal \<Rightarrow> terminal" where
  "terminal_initialize t = initialize_rows 0 (t\<lparr>terminal_row := 0, terminal_column := 0,
     terminal_color := make_color COLOR_LIGHT_GREY COLOR_BLACK, terminal_buffer := VGA_MEMORY\<rparr>)"

text \<open>The loops of \<open>terminal_scroll\<close>: the rows move up, the last row is blanked.\<close>

function scroll_row :: "u32 \<Rightarrow> u32 \<Rightarrow> terminal \<Rightarrow> terminal" where
  "scroll_row y x t =
     (if x < VGA_WIDTH
      then scroll_row y (x + 1) (buffer_set ((y - 1) * VGA_WIDTH + x) (buffer_get (y * VGA_WIDTH + x) t) t)
      else t)"
  by auto
termination by (relation "measure (\<lambda>(y, x, t). unat VGA_WIDTH - unat x)") (auto simp: loop_up_dec)

function scroll_rows :: "u32 \<Rightarrow> terminal \<Rightarrow> terminal" where
  "scroll_rows y t = (if y < VGA_HEIGHT then scroll_rows (y + 1) (scroll_row y 0 t) else t)"
  by auto
termination by (relation "measure (\<lambda>(y, t). unat VGA_HEIGHT - unat y)") (auto simp: loop_up_dec)

function scroll_blank :: "u32 \<Rightarrow> terminal \<Rightarrow> terminal" where
  "scroll_blank x t =
     (if x < VGA_WIDTH
      then scroll_blank (x + 1) (buffer_set ((VGA_HEIGHT - 1) * VGA_WIDTH + x) (make_vgaentry 32 (terminal_color t)) t)
      else t)"
  by auto
termination by (relation "measure (\<lambda>(x, t). unat VGA_WIDTH - unat x)") (auto simp: loop_up_dec)

definition terminal_scroll :: "terminal \<Rightarrow> terminal" where
  "terminal_scroll t = scroll_blank 0 (scroll_rows 1 t)"

definition terminal_newline :: "terminal \<Rightarrow> terminal" where
  "terminal_newline t =
     (let t = t\<lparr>terminal_column := 0\<rparr> in
      if terminal_row t + 1 = VGA_HEIGHT then terminal_scroll t else t\<lparr>terminal_row := terminal_row t + 1\<rparr>)"

definition terminal_drawcursor :: "u32 \<Rightarrow> u32 \<Rightarrow> terminal \<Rightarrow> terminal" where
  "terminal_drawcursor row column t =
     (let cursorLocation = ucast (row * 80 + column) :: u16 in
      t\<lparr>tbus := outport8 0x3D5 (ucast cursorLocation) (outport8 0x3D4 15
          (outport8 0x3D5 (ucast (drop_bit 8 cursorLocation)) (outport8 0x3D4 14 (tbus t))))\<rparr>)"

text \<open>\<open>terminal_writestring(" ")\<close> in the branch of the backspace is \<open>terminal_putchar\<close> of the one blank.\<close>

function terminal_putchar :: "u8 \<Rightarrow> terminal \<Rightarrow> terminal" where
  "terminal_putchar c t =
     (if c = 10 then terminal_newline t
      else if c = 13 then t\<lparr>terminal_column := 0\<rparr>
      else if c = 8 then
        let t = t\<lparr>terminal_column := terminal_column t - 1\<rparr>;
            t = terminal_putchar 32 t;
            t = t\<lparr>terminal_column := terminal_column t - 1\<rparr>
        in terminal_drawcursor (terminal_row t) (terminal_column t) t
      else
        let t = (if terminal_column t = VGA_WIDTH then terminal_newline t else t);
            t = terminal_putentryat c (terminal_color t) (terminal_column t) (terminal_row t) t;
            t = t\<lparr>terminal_column := terminal_column t + 1\<rparr>
        in terminal_drawcursor (terminal_row t) (terminal_column t) t)"
  by auto
termination by (relation "measure (\<lambda>(c, t). if c = 8 then 1 else 0)") auto

function terminal_write_loop :: "u32 \<Rightarrow> u32 \<Rightarrow> u32 \<Rightarrow> terminal \<Rightarrow> terminal" where
  "terminal_write_loop data sz i t =
     (if i < sz then terminal_write_loop data sz (i + 1) (terminal_putchar (tmem t (data + i)) t) else t)"
  by auto
termination by (relation "measure (\<lambda>(d, sz, i, t). unat sz - unat i)") (auto simp: loop_up_dec)

definition terminal_write :: "u32 \<Rightarrow> u32 \<Rightarrow> terminal \<Rightarrow> terminal" where
  "terminal_write data sz t = terminal_write_loop data sz 0 t"

definition terminal_writestring :: "u32 \<Rightarrow> terminal \<Rightarrow> terminal option" where
  "terminal_writestring data t = do { n \<leftarrow> strlen (tmem t) data; Some (terminal_write data n t) }"

text \<open>C's logical negation; \<open>!row == -1\<close> compares its result, 0 or 1, with -1.\<close>

definition not_c :: "u32 \<Rightarrow> u32" where "not_c x = (if x = 0 then 1 else 0)"

definition terminal_cursorpos :: "u32 \<Rightarrow> u32 \<Rightarrow> terminal \<Rightarrow> terminal" where
  "terminal_cursorpos row column t =
     (let t = (if not_c row = - 1 then t\<lparr>terminal_row := row\<rparr> else t)
      in if not_c column = - 1 then t\<lparr>terminal_column := column\<rparr> else t)"

declare initialize_row.simps [simp del] initialize_rows.simps [simp del] scroll_row.simps [simp del]
  scroll_rows.simps [simp del] scroll_blank.simps [simp del] terminal_putchar.simps [simp del]
  terminal_write_loop.simps [simp del]

section \<open>Entries of the buffer\<close>

definition vga_ok :: "terminal \<Rightarrow> bool" where
  "vga_ok t \<longleftrightarrow> terminal_buffer t = VGA_MEMORY"

definition cells :: "terminal \<Rightarrow> u16 list" where
  "cells t = map (\<lambda>i. buffer_get (of_nat i) t) [0..<2000]"

lemma length_cells [simp]: "length (cells t) = 2000"
  by (simp add: cells_def)

lemma vga_addr: "i < 2000 \<Longrightarrow> unat (VGA_MEMORY + 2 * of_nat i) = 0xB8000 + 2 * i"
proof -
  assume i: "i < 2000"
  have "VGA_MEMORY + 2 * of_nat i = (of_nat (0xB8000 + 2 * i) :: u32)" by (simp add: VGA_MEMORY_def)
  then show ?thesis using i by (simp add: unat_of_nat del: of_nat_add of_nat_mult)
qed

lemma vga_disj:
  assumes "i < 2000" "j < 2000" "i \<noteq> j"
  shows "disj (VGA_MEMORY + 2 * of_nat i) 2 (VGA_MEMORY + 2 * of_nat j) 2"
proof (cases "i < j")
  case True
  then show ?thesis using assms by (intro disj_lin) (simp_all add: vga_addr)
next
  case False
  then show ?thesis using assms by (intro disj_sym [OF disj_lin]) (simp_all add: vga_addr)
qed

lemma entry_in:
  assumes "i < 2000" "in_rng (VGA_MEMORY + 2 * of_nat i) 2 x"
  shows "in_rng VGA_MEMORY 4000 x"
proof (rule in_rng_shift [OF assms(2)])
  have "2 * of_nat i = (of_nat (2 * i) :: u32)" by simp
  then show "unat (2 * of_nat i :: u32) + 2 \<le> 4000" using assms(1) by (simp add: unat_of_nat del: of_nat_mult)
qed simp

lemma cells_buffer_set:
  assumes "vga_ok t" "j < 2000"
  shows "cells (buffer_set (of_nat j) e t) = (cells t)[j := e]"
proof (rule nth_equalityI)
  fix i assume "i < length (cells (buffer_set (of_nat j) e t))"
  then have i: "i < 2000" by simp
  have "load16 (store16 (tmem t) (VGA_MEMORY + 2 * of_nat j) e) (VGA_MEMORY + 2 * of_nat i)
     = (if i = j then e else load16 (tmem t) (VGA_MEMORY + 2 * of_nat i))"
    using disjD [OF vga_disj [OF i assms(2)]] by (auto intro!: load16_cong store16_outside)
  then show "cells (buffer_set (of_nat j) e t) ! i = (cells t)[j := e] ! i"
    using assms i by (simp add: cells_def buffer_set_def buffer_get_def vga_ok_def nth_list_update)
qed simp

lemma cells_nth: "i < 2000 \<Longrightarrow> buffer_get (of_nat i) t = cells t ! i"
  by (simp add: cells_def)

lemma cells_cong [simp]:
  "cells (t\<lparr>terminal_row := r\<rparr>) = cells t" "cells (t\<lparr>terminal_column := c\<rparr>) = cells t"
  "cells (t\<lparr>tbus := b\<rparr>) = cells t" "cells (t\<lparr>terminal_color := k\<rparr>) = cells t"
  by (simp_all add: cells_def buffer_get_def)

text \<open>Nothing but video memory differs.\<close>

definition only_video :: "terminal \<Rightarrow> terminal \<Rightarrow> bool" where
  "only_video t t' \<longleftrightarrow> (\<exists>m. t' = t\<lparr>tmem := m\<rparr> \<and> (\<forall>x. \<not> in_rng VGA_MEMORY 4000 x \<longrightarrow> m x = tmem t x))"

lemma only_video_refl [simp]: "only_video t t"
  by (auto simp: only_video_def intro!: exI [of _ "tmem t"])

lemma only_video_trans [trans]: "only_video t t' \<Longrightarrow> only_video t' t'' \<Longrightarrow> only_video t t''"
  by (auto simp: only_video_def)

lemma only_videoD: "only_video t t' \<Longrightarrow> terminal_row t' = terminal_row t \<and> terminal_column t' = terminal_column t
  \<and> terminal_color t' = terminal_color t \<and> terminal_buffer t' = terminal_buffer t \<and> tbus t' = tbus t"
  by (auto simp: only_video_def)

lemma only_video_set: "vga_ok t \<Longrightarrow> i < 2000 \<Longrightarrow> only_video t (buffer_set (of_nat i) e t)"
  unfolding only_video_def
  by (rule exI [of _ "tmem (buffer_set (of_nat i) e t)"])
     (use entry_in [of i] in \<open>auto simp: buffer_set_def vga_ok_def intro!: store16_outside\<close>)

lemma vga_ok_only_video: "vga_ok t \<Longrightarrow> only_video t t' \<Longrightarrow> vga_ok t'"
  by (auto simp: vga_ok_def dest: only_videoD)

section \<open>Scrolling\<close>

text \<open>The screen while the copy has reached entry \<open>k\<close>.\<close>

definition shifted :: "nat \<Rightarrow> u16 list \<Rightarrow> u16 list" where
  "shifted k cs = map (\<lambda>j. if j + 80 < k then cs ! (j + 80) else cs ! j) [0..<2000]"

lemma shifted_step:
  "80 \<le> k \<Longrightarrow> k < 2000 \<Longrightarrow> (shifted k cs)[k - 80 := shifted k cs ! k] = shifted (Suc k) cs"
  by (auto simp: shifted_def nth_list_update intro!: nth_equalityI)

lemma shifted_start: "length cs = 2000 \<Longrightarrow> shifted 80 cs = cs"
  by (auto simp: shifted_def intro!: nth_equalityI)

lemma shifted_end: "length cs = 2000 \<Longrightarrow> shifted 2000 cs = drop 80 cs @ drop 1920 cs"
  by (auto simp: shifted_def nth_append add.commute intro!: nth_equalityI)

lemma u32_lt_80: "x < 80 \<Longrightarrow> (of_nat x :: u32) < VGA_WIDTH" and u32_ge_80: "\<not> (80 :: u32) < VGA_WIDTH"
  by (simp_all add: word_less_nat_alt unat_of_nat VGA_WIDTH_def)

lemma u32_lt_25: "y < 25 \<Longrightarrow> (of_nat y :: u32) < VGA_HEIGHT"
  by (simp add: word_less_nat_alt unat_of_nat VGA_HEIGHT_def)

lemma scroll_row_cells:
  assumes "1 \<le> y" "y < 25" "x \<le> 80" "vga_ok t" "cells t = shifted (80 * y + x) cs"
  shows "cells (scroll_row (of_nat y) (of_nat x) t) = shifted (80 * Suc y) cs \<and>
    only_video t (scroll_row (of_nat y) (of_nat x) t)"
  using assms(3-)
proof (induction "80 - x" arbitrary: x t)
  case 0
  then show ?case by (simp add: scroll_row.simps u32_ge_80 add.commute)
next
  case (Suc n)
  let ?k = "80 * y + x"
  let ?t = "buffer_set (of_nat (?k - 80)) (buffer_get (of_nat ?k) t) t"
  have i: "(of_nat y - 1) * VGA_WIDTH + of_nat x = of_nat (?k - 80)" "of_nat y * VGA_WIDTH + of_nat x = (of_nat ?k :: u32)"
    using assms(1) by (simp_all add: VGA_WIDTH_def of_nat_diff algebra_simps)
  have "cells ?t = shifted (80 * y + Suc x) cs"
    using shifted_step [of ?k cs] assms(1,2) Suc.prems Suc.hyps(2) 
    by (simp add: cells_buffer_set cells_nth del: of_nat_add of_nat_diff of_nat_mult)
  moreover have ov: "only_video t ?t" using assms(1,2) Suc.prems Suc.hyps(2) by (intro only_video_set) auto
  ultimately have "cells (scroll_row (of_nat y) (of_nat (Suc x)) ?t) = shifted (80 * Suc y) cs \<and>
    only_video ?t (scroll_row (of_nat y) (of_nat (Suc x)) ?t)"
    using Suc.hyps(2) vga_ok_only_video [OF Suc.prems(2)] by (intro Suc.hyps(1)) auto
  moreover have "scroll_row (of_nat y) (of_nat x) t = scroll_row (of_nat y) (of_nat (Suc x)) ?t"
    using Suc.hyps(2) i by (subst scroll_row.simps) (simp add: u32_lt_80 add.commute)
  ultimately show ?case using ov only_video_trans by auto
qed

lemma scroll_rows_cells:
  assumes "1 \<le> y" "y \<le> 25" "vga_ok t" "cells t = shifted (80 * y) cs"
  shows "cells (scroll_rows (of_nat y) t) = shifted 2000 cs \<and> only_video t (scroll_rows (of_nat y) t)"
  using assms
proof (induction "25 - y" arbitrary: y t)
  case 0
  then show ?case by (simp add: scroll_rows.simps VGA_HEIGHT_def)
next
  case (Suc n)
  let ?t = "scroll_row (of_nat y) 0 t"
  have r: "cells ?t = shifted (80 * Suc y) cs" "only_video t ?t"
    using scroll_row_cells [of y 0 t cs] Suc.prems Suc.hyps(2) by auto
  have "cells (scroll_rows (of_nat (Suc y)) ?t) = shifted 2000 cs \<and> only_video ?t (scroll_rows (of_nat (Suc y)) ?t)"
    using Suc.hyps(2) Suc.prems vga_ok_only_video [OF Suc.prems(3) r(2)] r(1) by (intro Suc.hyps(1)) simp_all
  moreover have "scroll_rows (of_nat y) t = scroll_rows (of_nat (Suc y)) ?t"
    using Suc.hyps(2) by (subst scroll_rows.simps) (simp add: u32_lt_25 add.commute)
  ultimately show ?case using r only_video_trans by auto
qed

lemma take_update_last: "k < length cs \<Longrightarrow> take (Suc k) (cs[k := b]) = take k cs @ [b]"
  by (simp add: take_Suc_conv_app_nth)

lemma scroll_blank_cells:
  assumes "x \<le> 80" "vga_ok t"
  shows "cells (scroll_blank (of_nat x) t) = take (1920 + x) (cells t) @ replicate (80 - x) (make_vgaentry 32 (terminal_color t))
    \<and> only_video t (scroll_blank (of_nat x) t)"
  using assms
proof (induction "80 - x" arbitrary: x t)
  case 0
  then show ?case by (simp add: scroll_blank.simps u32_ge_80)
next
  case (Suc n)
  let ?t = "buffer_set (of_nat (1920 + x)) (make_vgaentry 32 (terminal_color t)) t"
  have i: "(VGA_HEIGHT - 1) * VGA_WIDTH + of_nat x = of_nat (1920 + x)" by (simp add: vga_dims)
  have ov: "only_video t ?t" using Suc by (intro only_video_set) auto
  have "cells (scroll_blank (of_nat (Suc x)) ?t) = take (1920 + Suc x) (cells ?t) @ replicate (80 - Suc x) (make_vgaentry 32 (terminal_color ?t))
    \<and> only_video ?t (scroll_blank (of_nat (Suc x)) ?t)"
    using Suc vga_ok_only_video [OF _ ov] by (intro Suc.hyps(1)) auto
  moreover have "scroll_blank (of_nat x) t = scroll_blank (of_nat (Suc x)) ?t"
    using Suc.hyps(2) i by (subst scroll_blank.simps) (simp add: u32_lt_80 add.commute)
  moreover have "take (1920 + Suc x) (cells ?t) @ replicate (80 - Suc x) (make_vgaentry 32 (terminal_color t))
    = take (1920 + x) (cells t) @ replicate (80 - x) (make_vgaentry 32 (terminal_color t))"
  proof -
    have n: "80 - x = Suc n" "80 - Suc x = n" using Suc.hyps(2) by simp_all
    have k: "1920 + x < 2000" using Suc.hyps(2) by simp
    show ?thesis
      unfolding n using k Suc.prems take_update_last [of "1920 + x" "cells t"]
      by (simp only: cells_buffer_set add_Suc_right) (simp del: take_Suc)
  qed
  ultimately show ?case using ov only_video_trans only_videoD [OF ov] by auto
qed

lemma terminal_scroll_cells:
  assumes "vga_ok t"
  shows "cells (terminal_scroll t) = drop 80 (cells t) @ replicate 80 (make_vgaentry 32 (terminal_color t))"
    "only_video t (terminal_scroll t)"
proof -
  let ?t = "scroll_rows 1 t"
  have r: "cells ?t = shifted 2000 (cells t)" "only_video t ?t"
    using scroll_rows_cells [of 1 t "cells t"] assms by (auto simp: shifted_start)
  have "cells (terminal_scroll t) = take 1920 (cells ?t) @ replicate 80 (make_vgaentry 32 (terminal_color ?t))
    \<and> only_video ?t (terminal_scroll t)"
    using scroll_blank_cells [of 0 ?t] vga_ok_only_video [OF assms r(2)] by (simp add: terminal_scroll_def)
  then show "cells (terminal_scroll t) = drop 80 (cells t) @ replicate 80 (make_vgaentry 32 (terminal_color t))"
    "only_video t (terminal_scroll t)"
    using r only_videoD [OF r(2)] only_video_trans by (auto simp: shifted_end)
qed

section \<open>The screen\<close>

record screen =
  srow :: nat
  scol :: nat
  scells :: "u16 list"

definition screen_of :: "terminal \<Rightarrow> screen" where
  "screen_of t = \<lparr>srow = unat (terminal_row t), scol = unat (terminal_column t), scells = cells t\<rparr>"

definition screen_newline :: "u8 \<Rightarrow> screen \<Rightarrow> screen" where
  "screen_newline color s =
     (if srow s = 24 then s\<lparr>scol := 0, scells := drop 80 (scells s) @ replicate 80 (make_vgaentry 32 color)\<rparr>
      else s\<lparr>scol := 0, srow := srow s + 1\<rparr>)"

definition screen_entry :: "u8 \<Rightarrow> u8 \<Rightarrow> screen \<Rightarrow> screen" where
  "screen_entry color c s =
     s\<lparr>scells := (scells s)[80 * srow s + scol s := make_vgaentry c color], scol := scol s + 1\<rparr>"

definition screen_putchar :: "u8 \<Rightarrow> u8 \<Rightarrow> screen \<Rightarrow> screen" where
  "screen_putchar color c s =
     (if c = 10 then screen_newline color s
      else if c = 13 then s\<lparr>scol := 0\<rparr>
      else if c = 8 then s\<lparr>scol := scol s - 1, scells := (scells s)[80 * srow s + (scol s - 1) := make_vgaentry 32 color]\<rparr>
      else screen_entry color c (if scol s = 80 then screen_newline color s else s))"

definition terminal_ok :: "terminal \<Rightarrow> bool" where
  "terminal_ok t \<longleftrightarrow> terminal_buffer t = VGA_MEMORY \<and> unat (terminal_row t) < 25 \<and> unat (terminal_column t) \<le> 80"

text \<open>The operation did what the screen operation says, and touched no memory but the screen's.\<close>

definition video_step :: "(screen \<Rightarrow> screen) \<Rightarrow> terminal \<Rightarrow> terminal \<Rightarrow> bool" where
  "video_step f t t' \<longleftrightarrow> terminal_ok t' \<and> screen_of t' = f (screen_of t) \<and> terminal_color t' = terminal_color t
     \<and> (\<forall>x. \<not> in_rng VGA_MEMORY 4000 x \<longrightarrow> tmem t' x = tmem t x)"

lemma video_step_comp: "video_step f t t' \<Longrightarrow> video_step g t' t'' \<Longrightarrow> video_step (g \<circ> f) t t''"
  by (simp add: video_step_def)

lemma terminal_newline_step:
  assumes "terminal_ok t"
  shows "video_step (screen_newline (terminal_color t)) t (terminal_newline t)"
proof -
  let ?t = "t\<lparr>terminal_column := 0\<rparr>"
  have v: "vga_ok ?t" using assms by (simp add: terminal_ok_def vga_ok_def)
  have r: "terminal_row t + 1 = VGA_HEIGHT \<longleftrightarrow> unat (terminal_row t) = 24"
    using eq_diff_eq [of "terminal_row t" 25 1] by (simp add: VGA_HEIGHT_def) (simp add: word_unat_eq_iff)
  show ?thesis
  proof (cases "unat (terminal_row t) = 24")
    case True
    from terminal_scroll_cells [OF v] only_videoD [OF terminal_scroll_cells(2) [OF v]]
    show ?thesis using True assms r
      by (auto simp: terminal_newline_def video_step_def terminal_ok_def screen_of_def screen_newline_def only_video_def)
  next
    case False
    then have "unat (terminal_row t + 1) = unat (terminal_row t) + 1"
      using assms by (simp add: terminal_ok_def unat_u32_add_le)
    then show ?thesis using False assms r
      by (auto simp: terminal_newline_def video_step_def terminal_ok_def screen_of_def screen_newline_def)
  qed
qed

lemma drawcursor_same [simp]:
  "terminal_row (terminal_drawcursor r c t) = terminal_row t"
  "terminal_column (terminal_drawcursor r c t) = terminal_column t"
  "terminal_color (terminal_drawcursor r c t) = terminal_color t"
  "terminal_buffer (terminal_drawcursor r c t) = terminal_buffer t"
  "tmem (terminal_drawcursor r c t) = tmem t"
  "cells (terminal_drawcursor r c t) = cells t"
  by (simp_all add: terminal_drawcursor_def Let_def)

text \<open>The common end of a printable character: the entry, the column, the cursor.\<close>

lemma put_entry_step:
  assumes "terminal_ok t" "unat (terminal_column t) < 80"
  shows "video_step (screen_entry (terminal_color t) c) t
    (let t = terminal_putentryat c (terminal_color t) (terminal_column t) (terminal_row t) t;
         t = t\<lparr>terminal_column := terminal_column t + 1\<rparr>
     in terminal_drawcursor (terminal_row t) (terminal_column t) t)"
proof -
  let ?k = "80 * unat (terminal_row t) + unat (terminal_column t)"
  have k: "?k < 2000" using assms by (simp add: terminal_ok_def)
  have i: "terminal_row t * VGA_WIDTH + terminal_column t = of_nat ?k"
    by (simp add: VGA_WIDTH_def)
  have v: "vga_ok t" using assms by (simp add: terminal_ok_def vga_ok_def)
  have c: "unat (terminal_column t + 1) = unat (terminal_column t) + 1"
    using assms(2) by (simp add: unat_u32_add_le)
  let ?e = "make_vgaentry c (terminal_color t)"
  from only_video_set [OF v k, of ?e] only_videoD [OF only_video_set [OF v k, of ?e]] cells_buffer_set [OF v k, of ?e]
  show ?thesis using assms c unfolding terminal_putentryat_def i Let_def
    by (auto simp: video_step_def terminal_ok_def screen_of_def screen_entry_def only_video_def
        simp del: of_nat_add of_nat_mult)
qed

lemma putchar_plain_step:
  assumes ok: "terminal_ok t" and c: "c \<noteq> 10" "c \<noteq> 13" "c \<noteq> 8"
  shows "video_step (screen_putchar (terminal_color t) c) t (terminal_putchar c t)"
proof (cases "terminal_column t = VGA_WIDTH")
  case True
  let ?t = "terminal_newline t"
  have n: "video_step (screen_newline (terminal_color t)) t ?t" by (rule terminal_newline_step [OF ok])
  then have "terminal_ok ?t" "scol (screen_of ?t) = 0" "terminal_color ?t = terminal_color t"
    by (auto simp: video_step_def screen_newline_def)
  then have "video_step (screen_entry (terminal_color t) c) ?t (terminal_putchar c t)"
    using put_entry_step [of ?t c] c True by (simp add: terminal_putchar.simps [of c t] Let_def screen_of_def)
  from video_step_comp [OF n this] True c show ?thesis
    by (simp add: video_step_def screen_of_def VGA_WIDTH_def screen_putchar_def)
next
  case False
  then have "unat (terminal_column t) \<noteq> 80" by (simp add: VGA_WIDTH_def word_unat_eq_iff)
  then show ?thesis using put_entry_step [OF ok, of c] ok c False
    by (simp add: terminal_putchar.simps [of c t] Let_def video_step_def screen_of_def terminal_ok_def screen_putchar_def)
qed

lemma putchar_backspace_step:
  assumes ok: "terminal_ok t" and col: "terminal_column t \<noteq> 0"
  shows "video_step (screen_putchar (terminal_color t) 8) t (terminal_putchar 8 t)"
proof -
  let ?t = "t\<lparr>terminal_column := terminal_column t - 1\<rparr>"
  have u: "unat (terminal_column t - 1) = unat (terminal_column t) - 1" "unat (terminal_column t) \<noteq> 0"
    using col by (simp_all add: unat_minus_one unat_eq_0)
  then have ok': "terminal_ok ?t" "scol (screen_of ?t) < 80"
    using ok by (auto simp: terminal_ok_def screen_of_def)
  from putchar_plain_step [OF ok'(1), of 32] ok'(2)
  have st: "video_step (screen_entry (terminal_color t) 32) ?t (terminal_putchar 32 ?t)"
    by (simp add: video_step_def screen_putchar_def)
  then have "unat (terminal_column (terminal_putchar 32 ?t)) = unat (terminal_column t - 1) + 1"
    by (simp add: video_step_def screen_of_def screen_entry_def)
  then have "unat (terminal_column (terminal_putchar 32 ?t) - 1) = unat (terminal_column t) - 1"
    using u by (simp add: unat_minus_one unat_eq_0 [symmetric])
  with st u ok show ?thesis
    by (auto simp: terminal_putchar.simps [of 8] Let_def video_step_def screen_putchar_def screen_entry_def
        terminal_ok_def screen_of_def)
qed

lemma terminal_putchar_step:
  assumes "terminal_ok t" "c = 8 \<longrightarrow> terminal_column t \<noteq> 0"
  shows "video_step (screen_putchar (terminal_color t) c) t (terminal_putchar c t)"
proof -
  consider "c = 10" | "c = 13" | "c = 8" | "c \<noteq> 10" "c \<noteq> 13" "c \<noteq> 8" by blast
  then show ?thesis
  proof cases
    case 1
    then show ?thesis using terminal_newline_step [OF assms(1)]
      by (simp add: terminal_putchar.simps [of 10] video_step_def screen_putchar_def)
  next
    case 2
    then show ?thesis using assms(1)
      by (auto simp: terminal_putchar.simps [of 13] video_step_def screen_putchar_def terminal_ok_def screen_of_def)
  next
    case 3
    then show ?thesis using putchar_backspace_step assms by simp
  next
    case 4
    then show ?thesis using putchar_plain_step assms(1) by blast
  qed
qed

lemma video_step_fold:
  assumes "terminal_ok t" "8 \<notin> set cs"
  shows "video_step (fold (screen_putchar (terminal_color t)) cs) t (fold terminal_putchar cs t)"
  using assms
proof (induction cs arbitrary: t)
  case Nil
  then show ?case by (simp add: video_step_def)
next
  case (Cons c cs)
  have s: "video_step (screen_putchar (terminal_color t) c) t (terminal_putchar c t)"
    using Cons.prems by (intro terminal_putchar_step) auto
  then have "terminal_ok (terminal_putchar c t)" "terminal_color (terminal_putchar c t) = terminal_color t"
    by (auto simp: video_step_def)
  then have "video_step (fold (screen_putchar (terminal_color t)) cs) (terminal_putchar c t) (fold terminal_putchar cs (terminal_putchar c t))"
    using Cons.IH [of "terminal_putchar c t"] Cons.prems by simp
  from video_step_comp [OF s this] show ?case by (simp add: comp_def)
qed

text \<open>A string outside video memory is not changed while it is written.\<close>

lemma terminal_write_loop_fold:
  assumes "terminal_ok t" "\<And>j. j < n \<Longrightarrow> tmem t (data + of_nat (i + j)) \<noteq> 8 \<and> \<not> in_rng VGA_MEMORY 4000 (data + of_nat (i + j))"
    "i + n < 4294967296"
  shows "terminal_write_loop data (of_nat (i + n)) (of_nat i) t =
    fold terminal_putchar (map (\<lambda>j. tmem t (data + of_nat j)) [i..<i + n]) t"
  using assms
proof (induction n arbitrary: i t)
  case 0
  then show ?case by (simp add: terminal_write_loop.simps)
next
  case (Suc n)
  let ?c = "tmem t (data + of_nat i)" 
  let ?t = "terminal_putchar ?c t"
  have s: "video_step (screen_putchar (terminal_color t) ?c) t ?t"
    using Suc.prems(1) Suc.prems(2) [of 0] by (intro terminal_putchar_step) simp_all
  then have same: "\<forall>x. \<not> in_rng VGA_MEMORY 4000 x \<longrightarrow> tmem ?t x = tmem t x" and ok: "terminal_ok ?t"
    by (simp_all add: video_step_def)
  have keep: "tmem ?t (data + of_nat (Suc i + j)) = tmem t (data + of_nat (Suc i + j)) \<and>
      tmem t (data + of_nat (Suc i + j)) \<noteq> 8 \<and> \<not> in_rng VGA_MEMORY 4000 (data + of_nat (Suc i + j))" if "j < n" for j
    using Suc.prems(2) [of "Suc j"] same that by (simp del: of_nat_add of_nat_Suc)
  have lt: "(of_nat i :: u32) < of_nat (i + Suc n)"
    using Suc.prems(3) by (simp add: word_less_nat_alt unat_of_nat del: of_nat_add of_nat_Suc)
  have "terminal_write_loop data (of_nat (i + Suc n)) (of_nat i) t = terminal_write_loop data (of_nat (Suc i + n)) (of_nat (Suc i)) ?t"
    using lt by (subst terminal_write_loop.simps) (simp add: add.commute)
  also have "\<dots> = fold terminal_putchar (map (\<lambda>j. tmem ?t (data + of_nat j)) [Suc i..<Suc i + n]) ?t"
    using Suc.prems(3) keep ok by (intro Suc.IH) (auto simp del: of_nat_add of_nat_Suc)
  also have "map (\<lambda>j. tmem ?t (data + of_nat j)) [Suc i..<Suc i + n] = map (\<lambda>j. tmem t (data + of_nat j)) [Suc i..<Suc i + n]"
  proof (rule map_cong [OF refl])
    fix k assume "k \<in> set [Suc i..<Suc i + n]"
    then have "k = Suc i + (k - Suc i)" "k - Suc i < n" by auto
    then show "tmem ?t (data + of_nat k) = tmem t (data + of_nat k)" using keep [of "k - Suc i"] by metis
  qed
  finally show ?case
    using upt_conv_Cons [of i "i + Suc n"] by (simp del: of_nat_add of_nat_Suc upt_Suc)
qed


lemma initialize_row_cells:
  assumes "y < 25" "x \<le> 80" "vga_ok t" "terminal_color t = k" "take (80 * y + x) (cells t) = replicate (80 * y + x) (make_vgaentry 32 k)"
  shows "take (80 * Suc y) (cells (initialize_row (of_nat y) (of_nat x) t)) = replicate (80 * Suc y) (make_vgaentry 32 k)
    \<and> only_video t (initialize_row (of_nat y) (of_nat x) t)"
  using assms(2-)
proof (induction "80 - x" arbitrary: x t)
  case 0
  then show ?case by (simp add: initialize_row.simps u32_ge_80 add.commute)
next
  case (Suc n)
  let ?k = "80 * y + x"
  let ?t = "buffer_set (of_nat ?k) (make_vgaentry 32 k) t"
  have k: "?k < 2000" "x < 80" using assms(1) Suc.hyps(2) by simp_all
  have ov: "only_video t ?t" using k Suc.prems by (intro only_video_set) auto
  have "take (Suc ?k) (cells ?t) = replicate (Suc ?k) (make_vgaentry 32 k)"
    using k Suc.prems take_update_last [of ?k "cells t"] replicate_append_same [of ?k "make_vgaentry 32 k"]
    by (simp add: cells_buffer_set del: of_nat_add of_nat_mult replicate_Suc take_Suc) simp
  then have "take (80 * Suc y) (cells (initialize_row (of_nat y) (of_nat (Suc x)) ?t)) = replicate (80 * Suc y) (make_vgaentry 32 k)
    \<and> only_video ?t (initialize_row (of_nat y) (of_nat (Suc x)) ?t)"
    using Suc.prems Suc.hyps(2) vga_ok_only_video [OF _ ov] only_videoD [OF ov] by (intro Suc.hyps(1)) auto
  moreover have "initialize_row (of_nat y) (of_nat x) t = initialize_row (of_nat y) (of_nat (Suc x)) ?t"
    using k Suc.prems(3) u32_lt_80 [of x] by (subst initialize_row.simps) (simp add: add.commute VGA_WIDTH_def mult.commute)
  ultimately show ?case using ov only_video_trans by auto
qed

lemma initialize_rows_cells:
  assumes "y \<le> 25" "vga_ok t" "terminal_color t = k" "take (80 * y) (cells t) = replicate (80 * y) (make_vgaentry 32 k)"
  shows "cells (initialize_rows (of_nat y) t) = replicate 2000 (make_vgaentry 32 k) \<and> only_video t (initialize_rows (of_nat y) t)"
  using assms
proof (induction "25 - y" arbitrary: y t)
  case 0
  then show ?case by (simp add: initialize_rows.simps VGA_HEIGHT_def)
next
  case (Suc n)
  let ?t = "initialize_row (of_nat y) 0 t"
  have r: "take (80 * Suc y) (cells ?t) = replicate (80 * Suc y) (make_vgaentry 32 k)" "only_video t ?t"
    using initialize_row_cells [of y 0 t k] Suc.prems Suc.hyps(2) by auto
  have "cells (initialize_rows (of_nat (Suc y)) ?t) = replicate 2000 (make_vgaentry 32 k) \<and> only_video ?t (initialize_rows (of_nat (Suc y)) ?t)"
    using Suc.hyps(2) Suc.prems vga_ok_only_video [OF Suc.prems(2) r(2)] r(1) only_videoD [OF r(2)]
    by (intro Suc.hyps(1)) simp_all
  moreover have "initialize_rows (of_nat y) t = initialize_rows (of_nat (Suc y)) ?t"
    using Suc.hyps(2) by (subst initialize_rows.simps) (simp add: u32_lt_25 add.commute)
  ultimately show ?case using r only_video_trans by auto
qed

text \<open>
  \<open>terminal_initialize\<close> from any state gives a terminal whose cursor is at the top left of a screen of
  2000 blanks, light grey on black, and changes no memory but the 4000 bytes of the screen.
\<close>

theorem terminal_initialize_clears:
  "terminal_ok (terminal_initialize t) \<and>
   screen_of (terminal_initialize t) = \<lparr>srow = 0, scol = 0, scells = replicate 2000 0x0720\<rparr> \<and>
   terminal_color (terminal_initialize t) = 7 \<and>
   (\<forall>x. \<not> in_rng VGA_MEMORY 4000 x \<longrightarrow> tmem (terminal_initialize t) x = tmem t x)"
proof -
  let ?t = "t\<lparr>terminal_row := 0, terminal_column := 0, terminal_color := 7, terminal_buffer := VGA_MEMORY\<rparr>"
  have e: "make_vgaentry 32 7 = 0x0720" by (simp add: make_vgaentry_def)
  have i: "terminal_initialize t = initialize_rows (of_nat 0) ?t"
    by (simp add: terminal_initialize_def make_color_def)
  have "cells (initialize_rows (of_nat 0) ?t) = replicate 2000 0x0720 \<and> only_video ?t (initialize_rows (of_nat 0) ?t)"
    using initialize_rows_cells [of 0 ?t 7] e by (simp add: vga_ok_def)
  then have c: "cells (terminal_initialize t) = replicate 2000 0x0720" and o: "only_video ?t (terminal_initialize t)"
    by (simp_all only: i)
  show ?thesis using c o only_videoD [OF o]
    by (auto simp: terminal_ok_def screen_of_def only_video_def)
qed

definition sample_terminal :: terminal where
  "sample_terminal = \<lparr>terminal_row = 24, terminal_column = 80, terminal_color = 7, terminal_buffer = VGA_MEMORY,
     tmem = (\<lambda>_. 0)(0x100 := 72, 0x101 := 10), tbus = \<lparr>device = (\<lambda>_ _. 0), trace = []\<rparr>\<rparr>"

theorem terminal_initialize_clears_witness:
  "terminal_ok (terminal_initialize sample_terminal) \<and>
   scells (screen_of (terminal_initialize sample_terminal)) = replicate 2000 0x0720 \<and>
   \<not> in_rng VGA_MEMORY 4000 0x100 \<and> tmem (terminal_initialize sample_terminal) 0x100 = 72"
proof -
  have "\<not> in_rng VGA_MEMORY 4000 0x100" by (simp add: in_rng_def VGA_MEMORY_def)
  then show ?thesis using terminal_initialize_clears [of sample_terminal] by (simp add: sample_terminal_def)
qed

lemma sample_terminal_ok: "terminal_ok sample_terminal"
  by (simp add: sample_terminal_def terminal_ok_def)



text \<open>
  \<open>terminal_write\<close> of a string outside video memory and without backspaces puts its characters on the
  screen one after the other.
\<close>

theorem terminal_write_refines:
  assumes "terminal_ok t"
    and "\<forall>j < unat sz. tmem t (data + of_nat j) \<noteq> 8 \<and> \<not> in_rng VGA_MEMORY 4000 (data + of_nat j)"
  shows "terminal_ok (terminal_write data sz t) \<and>
    screen_of (terminal_write data sz t) =
      fold (screen_putchar (terminal_color t)) (map (\<lambda>j. tmem t (data + of_nat j)) [0..<unat sz]) (screen_of t) \<and>
    (\<forall>x. \<not> in_rng VGA_MEMORY 4000 x \<longrightarrow> tmem (terminal_write data sz t) x = tmem t x)"
proof -
  let ?cs = "map (\<lambda>j. tmem t (data + of_nat j)) [0..<unat sz]"
  have "terminal_write data sz t = fold terminal_putchar ?cs t"
    using terminal_write_loop_fold [OF assms(1), of "unat sz" data 0] assms(2) unat_u32_lt [of sz]
    by (simp add: terminal_write_def)
  moreover have "8 \<notin> set ?cs" using assms(2) by (auto simp: image_iff)
  ultimately show ?thesis using video_step_fold [OF assms(1), of ?cs] by (simp add: video_step_def)
qed

theorem terminal_write_refines_witness:
  "screen_of (terminal_write 0x100 2 sample_terminal) =
     screen_putchar 7 10 (screen_putchar 7 72 (screen_of sample_terminal))"
proof -
  have "[0..<2] = [0, 1 :: nat]" by (simp add: upt_rec)
  then show ?thesis using terminal_write_refines [OF sample_terminal_ok, of 2 "0x100"]
    by (simp add: sample_terminal_def less_2_cases_iff in_rng_def VGA_MEMORY_def)
qed

text \<open>
  a backspace in column 0 of the first row writes in front of the screen, at \<open>0xB7FFE\<close>, and leaves the
  column at $2^{32} - 1$.
\<close>

theorem backspace_column_zero:
  assumes "terminal_buffer t = VGA_MEMORY" and "terminal_row t = 0" and "terminal_column t = 0"
  shows "terminal_column (terminal_putchar 8 t) = 0xFFFFFFFF \<and>
    tmem (terminal_putchar 8 t) = store16 (tmem t) 0xB7FFE (make_vgaentry 32 (terminal_color t))"
  using assms by (simp add: terminal_putchar.simps Let_def terminal_putentryat_def buffer_set_def vga_dims)

theorem backspace_column_zero_witness:
  "terminal_column (terminal_putchar 8 (sample_terminal\<lparr>terminal_row := 0, terminal_column := 0\<rparr>)) = 0xFFFFFFFF"
  using backspace_column_zero [of "sample_terminal\<lparr>terminal_row := 0, terminal_column := 0\<rparr>"]
  by (simp add: sample_terminal_def)

text \<open>
  \<open>make_vgaentry\<close> puts the character in the low byte; the high byte is the colour for the characters
  below \<open>0x80\<close>, and \<open>0xFF\<close>, white on white and blinking, whatever the colour, for all others.
\<close>

theorem make_vgaentry_bytes:
  "(ucast (make_vgaentry c color) :: u8) = c \<and>
   (ucast (drop_bit 8 (make_vgaentry c color)) :: u8) = (if c < 0x80 then color else 0xFF)"
proof -
  have lt: "c < 0x80 \<longleftrightarrow> \<not> bit c 7"
  proof -
    have "bit c 7 \<longleftrightarrow> odd (unat c div 128)" using bit_iff_odd [of "unat c" 7] by (simp add: bit_unsigned_iff)
    moreover have "unat c < 256" using unsigned_less [where ?'a = nat, of c] by simp
    moreover have "c < 0x80 \<longleftrightarrow> unat c < 128" by (simp add: word_less_nat_alt)
    moreover have "unat c div 128 = 1" if "\<not> unat c < 128" "unat c < 256" using that by (intro div_nat_eqI) auto
    ultimately show ?thesis by (cases "unat c < 128") auto
  qed
  have ff: "(0xFF :: u8) = - 1" by simp
  show ?thesis unfolding ff
    by (auto simp: lt make_vgaentry_def bit_or_iff bit_push_bit_iff bit_ucast_iff bit_drop_bit_eq bit_signed_iff intro!: bit_word_eqI)
qed

lemma terminal_cursorpos_ignored: "terminal_cursorpos row column t = t"
  by (simp add: terminal_cursorpos_def not_c_def)

section \<open>Reachable terminals\<close>

text \<open>
  The terminals a client reaches from \<open>terminal_initialize\<close> by the operations of \<open>tty.c\<close>, when it backspaces only behind column 0, writes
  text without backspaces that is not on the screen, and puts entries inside the screen. \<open>m\<close> is the memory off the screen.
\<close>

inductive terminal_reach :: "mem \<Rightarrow> terminal \<Rightarrow> bool" for m where
  init: "\<forall>x. \<not> in_rng VGA_MEMORY 4000 x \<longrightarrow> tmem t x = m x \<Longrightarrow> terminal_reach m (terminal_initialize t)"
| putchar: "terminal_reach m t \<Longrightarrow> c = 8 \<longrightarrow> terminal_column t \<noteq> 0 \<Longrightarrow> terminal_reach m (terminal_putchar c t)"
| chars: "terminal_reach m t \<Longrightarrow> \<forall>j < unat sz. m (data + of_nat j) \<noteq> 8 \<and> \<not> in_rng VGA_MEMORY 4000 (data + of_nat j) \<Longrightarrow>
    terminal_reach m (terminal_write data sz t)"
| color: "terminal_reach m t \<Longrightarrow> terminal_reach m (terminal_setcolor c t)"
| entry: "terminal_reach m t \<Longrightarrow> x < 80 \<Longrightarrow> y < 25 \<Longrightarrow> terminal_reach m (terminal_putentryat c k (of_nat x) (of_nat y) t)"
| position: "terminal_reach m t \<Longrightarrow> terminal_reach m (terminal_cursorpos row column t)"
| cursor: "terminal_reach m t \<Longrightarrow> terminal_reach m (terminal_drawcursor row column t)"

lemma terminal_reach_ok: "terminal_reach m t \<Longrightarrow> terminal_ok t \<and> (\<forall>x. \<not> in_rng VGA_MEMORY 4000 x \<longrightarrow> tmem t x = m x)"
proof (induction rule: terminal_reach.induct)
  case (init t)
  then show ?case using terminal_initialize_clears [of t] by simp
next
  case (putchar t c)
  then show ?case using terminal_putchar_step [of t c] by (simp add: video_step_def)
next
  case (chars t sz data)
  then show ?case using terminal_write_refines [of t sz data] by simp
next
  case (color t c)
  then show ?case by (simp add: terminal_ok_def terminal_setcolor_def)
next
  case (entry t x y c k)
  let ?i = "y * 80 + x"
  have i: "?i < 2000" "terminal_putentryat c k (of_nat x) (of_nat y) t = buffer_set (of_nat ?i) (make_vgaentry c k) t"
    using entry.hyps by (simp_all add: terminal_putentryat_def VGA_WIDTH_def)
  have "only_video t (buffer_set (of_nat ?i) (make_vgaentry c k) t)"
    using entry.IH i(1) by (intro only_video_set) (simp_all add: vga_ok_def terminal_ok_def)
  then show ?case using entry.IH unfolding i(2) by (auto simp: only_video_def terminal_ok_def)
next
  case (position t row column)
  then show ?case by (simp add: terminal_cursorpos_ignored)
next
  case (cursor t row column)
  then show ?case by (simp add: terminal_drawcursor_def Let_def terminal_ok_def)
qed



end
