(* ===== verification/Printf.thy ===== *)
theory Printf
  imports Terminal
begin

text \<open>
  Formatted output, \<open>libc/stdio/printf.c\<close>, \<open>putchar.c\<close> and \<open>puts.c\<close>.  The arguments are the words the
  caller pushed, the format and the strings are read from memory, and the result is the return value with
  the characters handed to \<open>putchar\<close>.  A format is specified by its pieces and \<open>prints\<close> says what they
  print; \<open>radix\<close> is the positional notation \<open>convert_integer\<close> is measured against.  The value is \<open>None\<close>
  when a string has no end, an argument is missing or a write would leave its array.
\<close>

section \<open>Integers to text\<close>

partial_function (option) convert_count :: "u64 \<Rightarrow> u64 \<Rightarrow> u32 \<Rightarrow> u32 option" where
  "convert_count base copy result =
     (if base \<le> copy then if base = 0 then None else convert_count base (copy div base) (result + 1) else Some result)"

function convert_digits :: "u8 list \<Rightarrow> u64 \<Rightarrow> u64 \<Rightarrow> u8 list \<Rightarrow> u32 \<Rightarrow> u8 list option" where
  "convert_digits destination val base digits i =
     (if i \<noteq> 0 then
        if base \<noteq> 0 \<and> unat (val mod base) < length digits \<and> unat (i - 1) < length destination
        then convert_digits (destination[unat (i - 1) := digits ! unat (val mod base)]) (val div base) base digits (i - 1)
        else None
      else Some destination)"
  by auto
termination by (relation "measure (\<lambda>(d, v, b, s, i). unat i)") (auto simp: loop_down_dec)

definition convert_integer :: "u8 list \<Rightarrow> u64 \<Rightarrow> u64 \<Rightarrow> u8 list \<Rightarrow> (u32 \<times> u8 list) option" where
  "convert_integer destination val base digits = do {
     result \<leftarrow> convert_count base val 1;
     destination \<leftarrow> convert_digits destination val base digits result;
     Some (result, destination)
   }"

section \<open>The formatted print\<close>

datatype printf_length = LENGTH_SHORT_SHORT | LENGTH_SHORT | LENGTH_DEFAULT | LENGTH_LONG | LENGTH_LONG_LONG
  | LENGTH_LONG_DOUBLE | LENGTH_INTMAX_T | LENGTH_SIZE_T | LENGTH_PTRDIFF_T

definition length_modifiers :: "(u8 list \<times> printf_length) list" where
  "length_modifiers = [([104, 104], LENGTH_SHORT_SHORT), ([104], LENGTH_SHORT), ([], LENGTH_DEFAULT), ([108], LENGTH_LONG),
     ([108, 108], LENGTH_LONG_LONG), ([76], LENGTH_LONG_DOUBLE), ([106], LENGTH_INTMAX_T), ([122], LENGTH_SIZE_T),
     ([116], LENGTH_PTRDIFF_T)]"

text \<open>Do the bytes from \<open>format\<close> on differ from \<open>name\<close>?\<close>

fun different :: "mem \<Rightarrow> u32 \<Rightarrow> u8 list \<Rightarrow> bool" where
  "different m format [] = False"
| "different m format (c # name) = (m format \<noteq> c \<or> different m (format + 1) name)"

fun scan_modifiers :: "mem \<Rightarrow> u32 \<Rightarrow> (u8 list \<times> printf_length) list \<Rightarrow> printf_length \<Rightarrow> nat \<Rightarrow> printf_length \<times> nat" where
  "scan_modifiers m format [] len length_length = (len, length_length)"
| "scan_modifiers m format ((name, l) # ms) len length_length =
     (if length name < length_length then scan_modifiers m format ms len length_length
      else if different m format name then scan_modifiers m format ms len length_length
      else scan_modifiers m format ms l (length name))"

text \<open>The arguments are the 32-bit words the caller pushed; a \<open>long long\<close> takes two.\<close>

fun va_word :: "u32 list \<Rightarrow> (u32 \<times> u32 list) option" where
  "va_word [] = None"
| "va_word (w # args) = Some (w, args)"

fun va_wide :: "u32 list \<Rightarrow> (u64 \<times> u32 list) option" where
  "va_wide (lo # hi # args) = Some (ucast lo OR push_bit 32 (ucast hi), args)"
| "va_wide _ = None"

text \<open>
  \<open>Some None\<close> stands for the jump to \<open>incomprehensible_conversion\<close>, \<open>None\<close> for an argument that was not
  passed.
\<close>

definition signed_arg :: "printf_length \<Rightarrow> u32 list \<Rightarrow> (u64 \<times> u32 list) option option" where
  "signed_arg len args =
     (if len = LENGTH_SHORT_SHORT \<or> len = LENGTH_SHORT \<or> len = LENGTH_DEFAULT \<or> len = LENGTH_LONG \<or> len = LENGTH_PTRDIFF_T
      then map_option (\<lambda>(w, r). Some (scast w, r)) (va_word args)
      else if len = LENGTH_LONG_LONG \<or> len = LENGTH_INTMAX_T then map_option Some (va_wide args)
      else Some None)"

definition unsigned_arg :: "printf_length \<Rightarrow> u32 list \<Rightarrow> (u64 \<times> u32 list) option option" where
  "unsigned_arg len args =
     (if len = LENGTH_SHORT_SHORT \<or> len = LENGTH_SHORT \<or> len = LENGTH_DEFAULT \<or> len = LENGTH_LONG \<or> len = LENGTH_SIZE_T
      then map_option (\<lambda>(w, r). Some (ucast w, r)) (va_word args)
      else if len = LENGTH_LONG_LONG \<or> len = LENGTH_INTMAX_T then map_option Some (va_wide args)
      else if len = LENGTH_PTRDIFF_T then map_option (\<lambda>(w, r). Some (scast w, r)) (va_word args)
      else Some None)"

definition lower_digits :: "u8 list" where
  "lower_digits = [48, 49, 50, 51, 52, 53, 54, 55, 56, 57, 97, 98, 99, 100, 101, 102]"

definition upper_digits :: "u8 list" where
  "upper_digits = [48, 49, 50, 51, 52, 53, 54, 55, 56, 57, 65, 66, 67, 68, 69, 70]"

definition print_integer :: "u8 \<Rightarrow> bool \<Rightarrow> u64 \<Rightarrow> u8 list option" where
  "print_integer conversion negative_value val =
     (let digits = (if conversion = 88 then upper_digits else lower_digits);
          base = (if conversion = 120 \<or> conversion = 88 then 16 else if conversion = 111 then 8 else 10)
      in do {
        (output_length, output) \<leftarrow> convert_integer (replicate 24 0) val base digits;
        Some ((if negative_value then [45] else []) @ take (unat output_length) output)
      })"

definition integer_conversion :: "u8 \<Rightarrow> bool" where
  "integer_conversion c \<longleftrightarrow> c \<in> {100, 105, 111, 117, 120, 88, 112}"

text \<open>The part of the loop after \<open>%\<close>: the new format, the remaining arguments and what is printed.\<close>

definition printf_conversion :: "mem \<Rightarrow> u32 \<Rightarrow> u32 list \<Rightarrow> (u32 \<times> u32 list \<times> u8 list) option option" where
  "printf_conversion m format0 args =
     (let (len, length_length) = scan_modifiers m format0 length_modifiers LENGTH_DEFAULT 0;
          format = format0 + of_nat length_length; conversion = m format
      in if integer_conversion conversion then
           if conversion = 105 \<or> conversion = 100 then do {
             r \<leftarrow> signed_arg len args;
             (case r of None \<Rightarrow> Some None | Some (signed_value, args) \<Rightarrow>
               let negative_value = sint signed_value < 0;
                   val = (if negative_value then - signed_value else signed_value)
               in do { output \<leftarrow> print_integer conversion negative_value val;
                       Some (Some (format + 1, args, output)) })
           }
           else do {
             r \<leftarrow> unsigned_arg len args;
             (case r of None \<Rightarrow> Some None | Some (val, args) \<Rightarrow>
               do { output \<leftarrow> print_integer conversion False val; Some (Some (format + 1, args, output)) })
           }
         else if conversion = 99 then do {
           (w, args) \<leftarrow> va_word args;
           Some (Some (format + 1, args, [ucast w]))
         }
         else if conversion = 115 then do {
           (s, args) \<leftarrow> va_word args;
           n \<leftarrow> strlen m s;
           Some (Some (format + 1, args, map (\<lambda>i. m (s + of_nat i)) [0..<unat n]))
         }
         else Some None)"

partial_function (option) amount_loop :: "mem \<Rightarrow> u32 \<Rightarrow> u32 \<Rightarrow> u32 option" where
  "amount_loop m format amount =
     (if m (format + amount) \<noteq> 0 \<and> m (format + amount) \<noteq> 37 then amount_loop m format (amount + 1) else Some amount)"

text \<open>
  One turn of the loop from each of its three ways to \<open>print_c\<close> and from a conversion: the new \<open>format\<close>,
  arguments and \<open>rejected_bad_specifier\<close>, what is added to \<open>written\<close> and what is printed.
\<close>

definition print_c :: "mem \<Rightarrow> u32 \<Rightarrow> u32 list \<Rightarrow> bool \<Rightarrow> (u32 \<times> u32 list \<times> bool \<times> u32 \<times> u8 list) option" where
  "print_c m format args rejected = do {
     amount \<leftarrow> amount_loop m format 1;
     Some (format + amount, args, rejected, amount, map (\<lambda>i. m (format + of_nat i)) [0..<unat amount])
   }"

definition printf_turn :: "mem \<Rightarrow> u32 \<Rightarrow> u32 list \<Rightarrow> bool \<Rightarrow> (u32 \<times> u32 list \<times> bool \<times> u32 \<times> u8 list) option" where
  "printf_turn m format args rejected =
     (if m format \<noteq> 37 then print_c m format args rejected
      else if m (format + 1) = 37 then print_c m (format + 1) args rejected
      else if rejected then print_c m format args True
      else do {
        r \<leftarrow> printf_conversion m (format + 1) args;
        (case r of None \<Rightarrow> print_c m format args True
         | Some (format', args', output) \<Rightarrow> Some (format', args', rejected, 0, output))
      })"

partial_function (option) printf_loop :: "mem \<Rightarrow> u32 \<Rightarrow> u32 list \<Rightarrow> bool \<Rightarrow> u32 \<Rightarrow> u8 list \<Rightarrow> (u32 \<times> u8 list) option" where
  "printf_loop m format args rejected written output =
     (if m format \<noteq> 0
      then do {
        (format', args', rejected', amount, new) \<leftarrow> printf_turn m format args rejected;
        printf_loop m format' args' rejected' (written + amount) (output @ new)
      }
      else Some (written, output))"

definition printf :: "mem \<Rightarrow> u32 \<Rightarrow> u32 list \<Rightarrow> (u32 \<times> u8 list) option" where
  "printf m format args = printf_loop m format args False 0 []"

text \<open>
  \<open>putchar\<close> hands its character to the terminal.  \<open>kprintf\<close> is \<open>printf\<close> with the characters it passes to
  \<open>putchar\<close> on the terminal; \<open>puts\<close> is \<open>printf\<close> with the format \<open>"%s\n"\<close>, which lies at \<open>fmt\<close>.
\<close>

definition putchar :: "u32 \<Rightarrow> terminal \<Rightarrow> u32 \<times> terminal" where
  "putchar ic t = (ic, terminal_putchar (ucast ic) t)"

definition print :: "u8 list \<Rightarrow> terminal \<Rightarrow> terminal" where
  "print data t = fold (\<lambda>c t. snd (putchar (ucast c) t)) data t"

definition kprintf :: "u32 \<Rightarrow> u32 list \<Rightarrow> terminal \<Rightarrow> (u32 \<times> terminal) option" where
  "kprintf format args t = do { (written, output) \<leftarrow> printf (tmem t) format args; Some (written, print output t) }"

definition puts :: "u32 \<Rightarrow> u32 \<Rightarrow> terminal \<Rightarrow> (u32 \<times> terminal) option" where
  "puts fmt string t = kprintf fmt [string] t"

declare convert_count.simps [code] amount_loop.simps [code] printf_loop.simps [code]
declare convert_digits.simps [simp del]

section \<open>Positional notation\<close>

fun radix :: "nat \<Rightarrow> nat \<Rightarrow> nat list" where
  "radix b n = (if n < b \<or> b < 2 then [n] else radix b (n div b) @ [n mod b])"

declare radix.simps [simp del]

definition radix_value :: "nat \<Rightarrow> nat list \<Rightarrow> nat" where
  "radix_value b ds = foldl (\<lambda>a d. a * b + d) 0 ds"

lemma radix_value_radix: "radix_value b (radix b n) = n"
proof (induction b n rule: radix.induct)
  case (1 b n)
  then show ?case by (subst radix.simps) (auto simp: radix_value_def)
qed

lemma radix_length: "2 \<le> b \<Longrightarrow> n < b ^ Suc k \<Longrightarrow> length (radix b n) \<le> Suc k"
proof (induction k arbitrary: n)
  case 0
  then show ?case by (simp add: radix.simps)
next
  case (Suc k)
  then have "n div b < b ^ Suc k" by (simp add: less_mult_imp_div_less mult.commute)
  with Suc show ?case by (subst radix.simps) auto
qed

lemma radix_nonempty: "0 < length (radix b n)"
  by (subst radix.simps) simp

lemma radix_digits: "2 \<le> b \<Longrightarrow> \<forall>d \<in> set (radix b n). d < b"
proof (induction b n rule: radix.induct)
  case (1 b n)
  then show ?case by (subst radix.simps) auto
qed

lemma convert_count_radix:
  assumes "2 \<le> unat base"
  shows "convert_count base copy result = Some (result + of_nat (length (radix (unat base) (unat copy)) - 1))"
proof (induction "unat copy" arbitrary: copy result rule: less_induct)
  case less
  have b0: "base \<noteq> 0" using assms by auto
  have len: "length (radix (unat base) k) = Suc (length (radix (unat base) k) - 1)" for k using radix_nonempty [of "unat base" k] by simp
  show ?case
  proof (cases "base \<le> copy")
    case True
    then have le: "unat base \<le> unat copy" by (simp add: word_le_nat_alt)
    have d: "unat (copy div base) = unat copy div unat base" by (simp add: unat_div)
    have "unat (copy div base) < unat copy" using assms le unfolding d by (intro div_less_dividend) auto
    then have "convert_count base copy result = Some (result + 1 + of_nat (length (radix (unat base) (unat copy div unat base)) - 1))"
      using True b0 less by (subst convert_count.simps) (simp add: d)
    moreover have "length (radix (unat base) (unat copy)) - 1 = Suc (length (radix (unat base) (unat copy div unat base)) - 1)"
      using le assms len [of "unat copy div unat base"] by (subst radix.simps) simp
    ultimately show ?thesis by (simp add: ac_simps)
  next
    case False
    then have "unat copy < unat base" by (simp add: word_le_nat_alt)
    then show ?thesis using False by (subst convert_count.simps, subst radix.simps) simp
  qed
qed

lemma convert_digits_radix:
  assumes "2 \<le> unat base" "unat base \<le> length digits" "length (radix (unat base) (unat val)) \<le> length destination"
    "length destination < 4294967296"
  shows "\<exists>d. convert_digits destination val base digits (of_nat (length (radix (unat base) (unat val)))) = Some d \<and>
    length d = length destination \<and>
    take (length (radix (unat base) (unat val))) d = map (\<lambda>i. digits ! i) (radix (unat base) (unat val)) \<and>
    drop (length (radix (unat base) (unat val))) d = drop (length (radix (unat base) (unat val))) destination"
  using assms(3,4)
proof (induction "unat val" arbitrary: val destination rule: less_induct)
  case less
  let ?b = "unat base" and ?v = "unat val"
  have b0: "base \<noteq> 0" using assms(1) by auto
  have m: "unat (val mod base) = ?v mod ?b" by (simp add: unat_mod)
  have dig: "?v mod ?b < length digits" 
  proof -
    have "?v mod ?b < ?b" using assms(1) by simp
    then show ?thesis using assms(2) by simp
  qed
  show ?case
  proof (cases "?v < ?b")
    case True
    then have r: "radix ?b ?v = [?v]" by (simp add: radix.simps)
    have "destination \<noteq> []" using less.prems(1) r by auto
    then have "convert_digits destination val base digits 1 = Some (destination[0 := digits ! ?v])"
      using True r dig b0 m
      by (subst convert_digits.simps, subst convert_digits.simps) simp
    then show ?thesis using r less.prems(1) by (cases destination) auto
  next
    case False
    let ?n = "length (radix ?b (?v div ?b))"
    let ?d = "destination[?n := digits ! (?v mod ?b)]"
    have q: "unat (val div base) = ?v div ?b" by (simp add: unat_div)
    have r: "radix ?b ?v = radix ?b (?v div ?b) @ [?v mod ?b]" using False assms(1) by (subst radix.simps) simp
    have n: "?n < length destination" using less.prems(1) r by simp
    have "unat (of_nat (Suc ?n) :: u32) = Suc ?n"
      using n less.prems(2) by (simp add: unat_of_nat del: of_nat_Suc)
    then have nz: "of_nat (Suc ?n) \<noteq> (0 :: u32)" by (metis nat.distinct(1) unat_0)
    have u: "unat (of_nat (Suc ?n) - 1 :: u32) = ?n" using n less.prems(2) by (simp add: unat_of_nat)
    have "unat (val div base) < ?v" using False assms(1) unfolding q by (intro div_less_dividend) auto
    from less.hyps [OF this, of ?d] obtain d where d: "convert_digits ?d (val div base) base digits (of_nat ?n) = Some d"
      "length d = length destination" "take ?n d = map (\<lambda>i. digits ! i) (radix ?b (?v div ?b))" "drop ?n d = drop ?n ?d"
      using n less.prems(2) q by auto
    have e: "convert_digits destination val base digits (of_nat (Suc ?n)) = Some d"
      using d(1) u nz b0 dig m n by (subst convert_digits.simps) simp
    have "d ! ?n = digits ! (?v mod ?b)" using d(2,4) n
      by (metis append_take_drop_id hd_drop_conv_nth length_list_update nth_list_update_eq)
    moreover have "drop (Suc ?n) d = drop (Suc ?n) destination"
      using arg_cong [OF d(4), of "drop 1"] by simp
    ultimately show ?thesis using e d n r by (auto simp: take_Suc_conv_app_nth)
  qed
qed

lemma convert_integer_radix:
  assumes "8 \<le> unat base" "unat base \<le> length digits" "length destination = 24"
  shows "length (radix (unat base) (unat val)) \<le> 22 \<and> (\<exists>d. convert_integer destination val base digits =
      Some (of_nat (length (radix (unat base) (unat val))), d) \<and> length d = 24 \<and>
      take (length (radix (unat base) (unat val))) d = map (\<lambda>i. digits ! i) (radix (unat base) (unat val)))"
proof -
  let ?r = "radix (unat base) (unat val)"
  have "unat val < 2 ^ 64" using unsigned_less [where ?'a = nat, of val] by simp
  also have "\<dots> \<le> (8 :: nat) ^ 22" by simp
  also have "\<dots> \<le> unat base ^ Suc 21" using assms(1) power_mono [of 8 "unat base" 22] by simp
  finally have len: "length ?r \<le> 22" using radix_length [of "unat base" "unat val" 21] assms(1) by simp
  have b: "2 \<le> unat base" using assms(1) by simp
  have "1 + of_nat (length ?r - 1) = (of_nat (length ?r) :: u32)"
    using radix_nonempty [of "unat base" "unat val"] by (metis Suc_diff_1 of_nat_Suc)
  with convert_count_radix [OF b, of val 1] convert_digits_radix [OF b assms(2), of val destination] len assms(3)
  show ?thesis by (auto simp: convert_integer_def)
qed

text \<open>
  C23: \<open>convert_integer\<close> of any 64-bit value, for every base from 8 to the number of digit characters, ends,
  stays within the 24 bytes \<open>printf\<close> reserves for it and stores the digits of the value: reading them
  back gives the value.
\<close>

theorem convert_integer_roundtrip:
  assumes "8 \<le> unat base" and "unat base \<le> length digits" and "length destination = 24"
  shows "\<exists>n d ds. convert_integer destination val base digits = Some (of_nat n, d) \<and> n \<le> 22 \<and> length d = 24 \<and>
    take n d = map (\<lambda>i. digits ! i) ds \<and> (\<forall>i \<in> set ds. i < unat base) \<and> radix_value (unat base) ds = unat val"
proof -
  have "2 \<le> unat base" using assms(1) by simp
  then show ?thesis using convert_integer_radix [OF assms, of val] radix_digits radix_value_radix by blast
qed

theorem convert_integer_roundtrip_witness:
  "\<exists>n d ds. convert_integer (replicate 24 0) 255 16 lower_digits = Some (of_nat n, d) \<and>
    take n d = map (\<lambda>i. lower_digits ! i) ds \<and> radix_value 16 ds = 255"
  using convert_integer_roundtrip [of 16 lower_digits "replicate 24 0" 255]
  by (simp add: lower_digits_def) blast

section \<open>Formats as pieces\<close>

definition base_of :: "u8 \<Rightarrow> nat" where
  "base_of c = (if c = 120 \<or> c = 88 then 16 else if c = 111 then 8 else 10)"

definition integer_text :: "u8 \<Rightarrow> int \<Rightarrow> u8 list" where
  "integer_text c v = (if v < 0 then [45] else []) @
     map (\<lambda>i. (if c = 88 then upper_digits else lower_digits) ! i) (radix (base_of c) (nat \<bar>v\<bar>))"

lemma print_integer_radix:
  "print_integer c neg val = Some ((if neg then [45] else []) @
     map (\<lambda>i. (if c = 88 then upper_digits else lower_digits) ! i) (radix (base_of c) (unat val)))"
proof -
  define base :: u64 where "base = (if c = 120 \<or> c = 88 then 16 else if c = 111 then 8 else 10)"
  define digits where "digits = (if c = 88 then upper_digits else lower_digits)"
  have b: "unat base = base_of c" "8 \<le> base_of c" "base_of c \<le> length digits"
    by (auto simp: base_def base_of_def digits_def upper_digits_def lower_digits_def)
  let ?r = "radix (base_of c) (unat val)"
  obtain d where "convert_integer (replicate 24 0) val base digits = Some (of_nat (length ?r), d)"
    "take (length ?r) d = map (\<lambda>i. digits ! i) ?r" "length ?r \<le> 22"
    using convert_integer_radix [of base digits "replicate 24 0" val] b by auto
  then show ?thesis unfolding print_integer_def Let_def base_def [symmetric] digits_def [symmetric]
    by (simp add: unat_of_nat)
qed

lemma unat_abs_sint: "unat (if sint v < 0 then - v else v) = nat \<bar>sint (v :: u64)\<bar>"
proof -
  have r: "- (2 ^ 63) \<le> sint v" "sint v < 2 ^ 63" using sint_range_size [of v] by (simp_all add: size_word_def)
  have "(if sint v < 0 then - v else v) = word_of_int \<bar>sint v\<bar>" by simp
  then have "uint (if sint v < 0 then - v else v) = \<bar>sint v\<bar>"
    using r by (simp add: uint_word_of_int del: of_int_abs)
  then show ?thesis by (metis unat_eq_nat_uint)
qed

lemma print_signed: "print_integer c (sint v < 0) (if sint v < 0 then - v else v) = Some (integer_text c (sint v))"
  unfolding print_integer_radix unat_abs_sint integer_text_def by simp

lemma print_unsigned: "print_integer c False v = Some (integer_text c (uint v))"
  by (simp add: print_integer_radix integer_text_def)

datatype piece = Lit "u8 list" | Conv printf_length u8

fun modifier_name :: "printf_length \<Rightarrow> u8 list" where
  "modifier_name LENGTH_SHORT_SHORT = [104, 104]"
| "modifier_name LENGTH_SHORT = [104]"
| "modifier_name LENGTH_DEFAULT = []"
| "modifier_name LENGTH_LONG = [108]"
| "modifier_name LENGTH_LONG_LONG = [108, 108]"
| "modifier_name LENGTH_LONG_DOUBLE = [76]"
| "modifier_name LENGTH_INTMAX_T = [106]"
| "modifier_name LENGTH_SIZE_T = [122]"
| "modifier_name LENGTH_PTRDIFF_T = [116]"

fun piece_bytes :: "piece \<Rightarrow> u8 list" where
  "piece_bytes (Lit []) = []"
| "piece_bytes (Lit (c # cs)) = (if c = 37 then [37, 37] else [c]) @ cs"
| "piece_bytes (Conv l c) = 37 # modifier_name l @ [c]"

definition format_bytes :: "piece list \<Rightarrow> u8 list" where
  "format_bytes ps = concat (map piece_bytes ps)"

fun pieces_ok :: "piece list \<Rightarrow> bool" where
  "pieces_ok [] = True"
| "pieces_ok (Lit s # ps) \<longleftrightarrow> s \<noteq> [] \<and> 37 \<notin> set (tl s) \<and>
     (case ps of Lit (c # _) # _ \<Rightarrow> c = 37 | _ \<Rightarrow> True) \<and> pieces_ok ps"
| "pieces_ok (Conv l c # ps) \<longleftrightarrow> pieces_ok ps"

text \<open>
  \<open>prints m ps args out n\<close>: with these arguments the pieces print \<open>out\<close>, \<open>n\<close> characters of it from
  literal pieces.
\<close>

inductive prints :: "mem \<Rightarrow> piece list \<Rightarrow> u32 list \<Rightarrow> u8 list \<Rightarrow> nat \<Rightarrow> bool" for m where
  nil: "prints m [] args [] 0"
| lit: "prints m ps args out n \<Longrightarrow> prints m (Lit s # ps) args (s @ out) (length s + n)"
| signed: "c \<in> {100, 105} \<Longrightarrow> signed_arg l args = Some (Some (v, args')) \<Longrightarrow> prints m ps args' out n \<Longrightarrow>
    prints m (Conv l c # ps) args (integer_text c (sint v) @ out) n"
| unsigned: "c \<in> {111, 117, 120, 88, 112} \<Longrightarrow> unsigned_arg l args = Some (Some (v, args')) \<Longrightarrow> prints m ps args' out n \<Longrightarrow>
    prints m (Conv l c # ps) args (integer_text c (uint v) @ out) n"
| char: "prints m ps args out n \<Longrightarrow> prints m (Conv l 99 # ps) (w # args) (ucast w # out) n"
| string: "cstr m p s \<Longrightarrow> prints m ps args out n \<Longrightarrow> prints m (Conv l 115 # ps) (p # args) (s @ out) n"

lemma cstr_length:
  assumes "cstr m p s"
  shows "length s < 4294967296"
proof (rule ccontr)
  assume l: "\<not> ?thesis"
  let ?i = "length s - 4294967296"
  have "of_nat (length s) = (of_nat ?i :: u32)"
    using l of_nat_add [where ?'a = u32, of ?i 4294967296] by simp
  moreover have "?i < length s" using l by simp
  then have "m (p + of_nat ?i) \<noteq> 0" "m (p + of_nat (length s)) = 0" using cstr_nth [of m p s] assms by metis+
  ultimately show False by simp
qed

lemma amount_loop_correct:
  "cstr m (f + i) (s @ t) \<Longrightarrow> 37 \<notin> set s \<Longrightarrow> t = [] \<or> hd t = 37 \<Longrightarrow>
   amount_loop m f i = Some (i + of_nat (length s))"
proof (induction s arbitrary: i)
  case Nil
  then show ?case by (subst amount_loop.simps) (cases t, auto)
next
  case (Cons c s)
  then show ?case by (subst amount_loop.simps) (simp add: ac_simps)
qed

lemma print_c_correct:
  assumes "cstr m f (s @ t)" "s \<noteq> []" "37 \<notin> set (tl s)" "t = [] \<or> hd t = 37"
  shows "print_c m f args rejected = Some (f + of_nat (length s), args, rejected, of_nat (length s), s)"
proof -
  obtain c cs where s: "s = c # cs" using assms(2) by (cases s) auto
  have a: "amount_loop m f 1 = Some (of_nat (length s))"
    using amount_loop_correct [of m f 1 cs t] assms s by simp
  have l: "unat (of_nat (length s) :: u32) = length s" using cstr_length [OF assms(1)] by (simp add: unat_of_nat)
  have "map (\<lambda>i. m (f + of_nat i)) [0..<length s] = s"
    using assms(1) by (intro nth_equalityI) (auto simp: cstr_append)
  then show ?thesis using a l by (simp add: print_c_def)
qed

lemma scan_modifiers_correct:
  assumes "cstr m f (modifier_name l @ c # t)" "c \<notin> {104, 108, 76, 106, 122, 116}"
  shows "scan_modifiers m f length_modifiers LENGTH_DEFAULT 0 = (l, length (modifier_name l)) \<and>
    m (f + of_nat (length (modifier_name l))) = c"
  using assms by (cases l) (auto simp: length_modifiers_def add.assoc)

text \<open>A conversion ends and prints the text of its argument.\<close>

lemma conversion_signed:
  assumes "cstr m f (modifier_name l @ c # t)" "c \<in> {100, 105}" "signed_arg l args = Some (Some (v, args'))"
  shows "printf_conversion m f args = Some (Some (f + of_nat (length (modifier_name l)) + 1, args', integer_text c (sint v)))"
proof -
  have "c \<notin> {104, 108, 76, 106, 122, 116}" "integer_conversion c" "c = 105 \<or> c = 100"
    using assms(2) by (auto simp: integer_conversion_def)
  with scan_modifiers_correct [OF assms(1)] assms(3) print_signed [of c v] show ?thesis
    by (simp add: printf_conversion_def Let_def split del: if_split)
qed

lemma conversion_unsigned:
  assumes "cstr m f (modifier_name l @ c # t)" "c \<in> {111, 117, 120, 88, 112}" "unsigned_arg l args = Some (Some (v, args'))"
  shows "printf_conversion m f args = Some (Some (f + of_nat (length (modifier_name l)) + 1, args', integer_text c (uint v)))"
proof -
  have "c \<notin> {104, 108, 76, 106, 122, 116}" "integer_conversion c" "\<not> (c = 105 \<or> c = 100)"
    using assms(2) by (auto simp: integer_conversion_def)
  with scan_modifiers_correct [OF assms(1)] assms(3) print_unsigned [of c v] show ?thesis
    by (simp add: printf_conversion_def Let_def)
qed

lemma conversion_char:
  assumes "cstr m f (modifier_name l @ 99 # t)"
  shows "printf_conversion m f (w # args) = Some (Some (f + of_nat (length (modifier_name l)) + 1, args, [ucast w]))"
  using scan_modifiers_correct [OF assms]
  by (simp add: printf_conversion_def Let_def integer_conversion_def)

lemma conversion_string:
  assumes "cstr m f (modifier_name l @ 115 # t)" "cstr m p s"
  shows "printf_conversion m f (p # args) = Some (Some (f + of_nat (length (modifier_name l)) + 1, args, s))"
proof -
  have "unat (of_nat (length s) :: u32) = length s" using cstr_length [OF assms(2)] by (simp add: unat_of_nat)
  moreover have "map (\<lambda>i. m (p + of_nat i)) [0..<length s] = s"
    using assms(2) by (intro nth_equalityI) (auto simp: cstr_nth)
  ultimately show ?thesis using scan_modifiers_correct [OF assms(1)] strlen_correct [OF assms(2)]
    by (simp add: printf_conversion_def Let_def integer_conversion_def)
qed

lemma format_bytes_head: "pieces_ok ps \<Longrightarrow> (case ps of Lit (c # _) # _ \<Rightarrow> c = 37 | _ \<Rightarrow> True) \<Longrightarrow>
  format_bytes ps = [] \<or> hd (format_bytes ps) = 37"
  by (cases ps rule: pieces_ok.cases) (auto simp: format_bytes_def split: list.splits)


text \<open>One turn of the loop handles one piece.\<close>

lemma printf_loop_lit:
  assumes "cstr m f (format_bytes (Lit s # ps))" "pieces_ok (Lit s # ps)"
  shows "\<exists>f'. cstr m f' (format_bytes ps) \<and>
    printf_loop m f args False w out = printf_loop m f' args False (w + of_nat (length s)) (out @ s)"
proof -
  let ?t = "format_bytes ps"
  obtain c cs where s: "s = c # cs" using assms(2) by (cases s) auto
  have t: "?t = [] \<or> hd ?t = 37" using assms(2) by (intro format_bytes_head) auto
  define g where "g = (if c = 37 then f + 1 else f)"
  have g: "cstr m g (s @ ?t)" and nz: "m f \<noteq> 0"
    using assms(1) s by (auto simp: g_def format_bytes_def split: if_splits)
  have turn: "printf_turn m f args False = Some (g + of_nat (length s), args, False, of_nat (length s), s)"
    using print_c_correct [OF g _ _ t, of args False] assms(1,2) s
    by (auto simp: printf_turn_def g_def format_bytes_def)
  have "cstr m (g + of_nat (length s)) ?t" using g by (simp add: cstr_append)
  moreover have "printf_loop m f args False w out =
      printf_loop m (g + of_nat (length s)) args False (w + of_nat (length s)) (out @ s)"
    using nz turn by (subst printf_loop.simps) simp
  ultimately show ?thesis by blast
qed

lemma printf_loop_conv:
  assumes "cstr m f (format_bytes (Conv l c # ps))" "c \<noteq> 37"
    and "printf_conversion m (f + 1) args = Some (Some (f + 1 + of_nat (length (modifier_name l)) + 1, args', new))"
  shows "\<exists>f'. cstr m f' (format_bytes ps) \<and> printf_loop m f args False w out = printf_loop m f' args' False w (out @ new)"
proof -
  let ?f = "f + 1 + of_nat (length (modifier_name l)) + 1"
  have b: "m f = 37" "cstr m (f + 1) ((modifier_name l @ [c]) @ format_bytes ps)"
    using assms(1) by (simp_all add: format_bytes_def)
  have "m (f + 1) \<noteq> 37" using b(2) assms(2) by (cases l) auto
  moreover have "cstr m ?f (format_bytes ps)" using b(2) unfolding cstr_append by (simp add: ac_simps)
  moreover have "printf_loop m f args False w out = printf_loop m ?f args' False w (out @ new)"
    using b(1) assms(3) \<open>m (f + 1) \<noteq> 37\<close> by (subst printf_loop.simps) (simp add: printf_turn_def)
  ultimately show ?thesis by blast
qed

lemma printf_loop_correct:
  assumes "prints m ps args out n" "pieces_ok ps" "cstr m f (format_bytes ps)"
  shows "printf_loop m f args False w o0 = Some (w + of_nat n, o0 @ out)"
  using assms
proof (induction arbitrary: f w o0 rule: prints.induct)
  case (nil args)
  then show ?case by (subst printf_loop.simps) (simp add: format_bytes_def)
next
  case (lit ps args out n s)
  from printf_loop_lit [OF lit.prems(2,1), of args w o0] lit show ?case by (auto simp: add.assoc)
next
  case (signed c l args v args' ps out n)
  have "cstr m (f + 1) (modifier_name l @ c # format_bytes ps)" using signed.prems by (simp add: format_bytes_def)
  from printf_loop_conv [OF signed.prems(2) _ conversion_signed [OF this signed.hyps(1,2)], where w = w and out = o0] signed
  show ?case by auto
next
  case (unsigned c l args v args' ps out n)
  have "cstr m (f + 1) (modifier_name l @ c # format_bytes ps)" using unsigned.prems by (simp add: format_bytes_def)
  from printf_loop_conv [OF unsigned.prems(2) _ conversion_unsigned [OF this unsigned.hyps(1,2)], where w = w and out = o0] unsigned
  show ?case by auto
next
  case (char ps args out n l w')
  have "cstr m (f + 1) (modifier_name l @ 99 # format_bytes ps)" using char.prems by (simp add: format_bytes_def)
  from printf_loop_conv [OF char.prems(2) _ conversion_char [OF this, of w' args], where w = w and out = o0] char show ?case by auto
next
  case (string p s ps args out n l)
  have "cstr m (f + 1) (modifier_name l @ 115 # format_bytes ps)" using string.prems by (simp add: format_bytes_def)
  from printf_loop_conv [OF string.prems(2) _ conversion_string [OF this string.hyps(1), of args], where w = w and out = o0] string show ?case by auto
qed

text \<open>
  C22: \<open>printf\<close> of a format built from literal text (with \<open>%%\<close> for a percent sign) and conversions, each with
  any length modifier it supports, ends, prints the literal pieces and the text of the arguments in order,
  and returns the number of characters of the literal pieces only.
\<close>

theorem printf_correct:
  assumes "cstr m f (format_bytes ps)" and "pieces_ok ps" and "prints m ps args out n"
  shows "printf m f args = Some (of_nat n, out)"
  using printf_loop_correct [OF assms(3,2,1), of 0 "[]"] by (simp add: printf_def)

definition sample_format :: mem where
  "sample_format = (\<lambda>_. 0)(0x100 := 120, 0x101 := 61, 0x102 := 37, 0x103 := 100, 0x104 := 37, 0x105 := 115, 0x200 := 111, 0x201 := 107)"

theorem printf_correct_witness:
  "printf sample_format 0x100 [- 7, 0x200] = Some (2, [120, 61, 45, 55, 111, 107])"
proof -
  have f: "cstr sample_format 0x100 (format_bytes [Lit [120, 61], Conv LENGTH_DEFAULT 100, Conv LENGTH_DEFAULT 115])"
    by (simp add: sample_format_def format_bytes_def)
  have "cstr sample_format 0x200 [111, 107]" by (simp add: sample_format_def)
  then have "prints sample_format [Conv LENGTH_DEFAULT 115] [0x200] [111, 107] 0"
    using prints.string [OF _ prints.nil] by fastforce
  then have "prints sample_format [Conv LENGTH_DEFAULT 100, Conv LENGTH_DEFAULT 115] [- 7, 0x200]
    (integer_text 100 (sint (- 7 :: u64)) @ [111, 107]) 0"
    by (intro prints.signed) (auto simp: signed_arg_def)
  from prints.lit [OF this, of "[120, 61]"] printf_correct [OF f]
  show ?thesis by (simp add: integer_text_def base_of_def radix.simps lower_digits_def)
qed


lemma print_fold: "print data t = fold terminal_putchar data t"
proof -
  have "ucast (ucast c :: u32) = c" for c :: u8 by (rule bit_word_eqI) (auto simp: bit_ucast_iff)
  then have "(\<lambda>c t. snd (putchar (ucast c) t)) = terminal_putchar" by (simp add: fun_eq_iff putchar_def)
  then show ?thesis by (simp add: print_def)
qed

text \<open>
  \<open>puts\<close> of a string without backspaces shows the string and a line feed on the screen, touches no memory
  but the screen, and returns 1 whatever the length of the string.
\<close>

theorem puts_on_screen:
  assumes "terminal_ok t" and "cstr (tmem t) fmt [37, 115, 10]" and "cstr (tmem t) p s" and "8 \<notin> set s"
  shows "\<exists>t'. puts fmt p t = Some (1, t') \<and> terminal_ok t' \<and>
    screen_of t' = fold (screen_putchar (terminal_color t)) (s @ [10]) (screen_of t) \<and>
    (\<forall>x. \<not> in_rng VGA_MEMORY 4000 x \<longrightarrow> tmem t' x = tmem t x)"
proof -
  let ?ps = "[Conv LENGTH_DEFAULT 115, Lit [10]]"
  have "prints (tmem t) ?ps [p] (s @ [10] @ []) (length [10 :: u8] + 0)"
    by (intro prints.intros assms(3))
  then have "printf (tmem t) fmt [p] = Some (1, s @ [10])"
    using printf_loop_correct [of "tmem t" ?ps "[p]" _ _ fmt 0 "[]"] assms(2) by (simp add: printf_def format_bytes_def)
  then show ?thesis using video_step_fold [OF assms(1), of "s @ [10]"] assms(4)
    by (simp add: puts_def kprintf_def print_fold video_step_def)
qed

theorem puts_on_screen_witness:
  "\<exists>t'. puts 0x100 0x200 (sample_terminal\<lparr>tmem := (\<lambda>_. 0)(0x100 := 37, 0x101 := 115, 0x102 := 10, 0x200 := 65)\<rparr>) = Some (1, t')"
  using puts_on_screen [of "sample_terminal\<lparr>tmem := (\<lambda>_. 0)(0x100 := 37, 0x101 := 115, 0x102 := 10, 0x200 := 65)\<rparr>" "0x100" "0x200" "[65]"]
  by (auto simp: sample_terminal_def terminal_ok_def)

end
