(* ===== verification/Printf_Text.thy ===== *)
theory Printf_Text
  imports Printf
begin

text \<open>
  What \<open>printf\<close> prints, as a function of the format and the arguments: \<open>expand\<close> computes the text for formats whose conversions are
  \<open>%d\<close>, \<open>%i\<close>, \<open>%x\<close> and \<open>%s\<close>, the ones the start of the kernel uses.
\<close>

section \<open>Expansion of a format\<close>

definition chars :: "string \<Rightarrow> u8 list" where "chars s = map of_char s"

text \<open>An argument: a number, or the address of a string with what the string holds.\<close>

datatype parg = Num u32 | Str u32 "u8 list"

fun parg_word :: "parg \<Rightarrow> u32" where
  "parg_word (Num v) = v"
| "parg_word (Str p s) = p"

fun parg_text :: "u8 \<Rightarrow> parg \<Rightarrow> u8 list" where
  "parg_text d (Num v) = integer_text d (if d = 120 then uint v else sint v)"
| "parg_text d (Str p s) = s"

fun parg_fits :: "u8 \<Rightarrow> parg \<Rightarrow> bool" where
  "parg_fits d (Num v) \<longleftrightarrow> d = 100 \<or> d = 105 \<or> d = 120"
| "parg_fits d (Str p s) \<longleftrightarrow> d = 115"

fun parg_ok :: "mem \<Rightarrow> parg \<Rightarrow> bool" where
  "parg_ok m (Num v) = True"
| "parg_ok m (Str p s) \<longleftrightarrow> cstr m p s \<and> 8 \<notin> set s"

fun expand :: "u8 list \<Rightarrow> parg list \<Rightarrow> u8 list" where
  "expand [] args = []"
| "expand [c] args = [c]"
| "expand (c # d # f) args = (if c \<noteq> 37 then c # expand (d # f) args
     else case args of [] \<Rightarrow> [] | a # as \<Rightarrow> parg_text d a @ expand f as)"

fun fits :: "u8 list \<Rightarrow> parg list \<Rightarrow> bool" where
  "fits [] args \<longleftrightarrow> args = []"
| "fits [c] args \<longleftrightarrow> c \<noteq> 37 \<and> args = []"
| "fits (c # d # f) args \<longleftrightarrow> (if c \<noteq> 37 then fits (d # f) args
     else case args of [] \<Rightarrow> False | a # as \<Rightarrow> parg_fits d a \<and> fits f as)"

inductive_cases prints_LitE: "prints m (Lit s # ps) args out n"

lemma prints_lit_cons:
  assumes "pieces_ok ps" "\<forall>s ps'. ps = Lit s # ps' \<longrightarrow> hd s \<noteq> 37" "prints m ps args out n" "c \<noteq> 37"
  obtains qs n' where "format_bytes qs = c # format_bytes ps" "pieces_ok qs" "\<forall>s ps'. qs = Lit s # ps' \<longrightarrow> hd s \<noteq> 37"
    "prints m qs args (c # out) n'"
proof (cases "\<exists>s ps'. ps = Lit s # ps'")
  case True
  then obtain s ps' where ps: "ps = Lit s # ps'" by blast
  then obtain d ds where s: "s = d # ds" using assms(1) by (cases s) auto
  have d: "d \<noteq> 37" using assms(2) ps s by auto
  obtain out' k where o: "prints m ps' args out' k" "out = s @ out'" using assms(3) unfolding ps by (auto elim: prints_LitE)
  show thesis
  proof (rule that [of "Lit (c # s) # ps'"])
    show "prints m (Lit (c # s) # ps') args (c # out) (length (c # s) + k)" using prints.lit [OF o(1), of "c # s"] o(2) by simp
  qed (use assms(1,4) ps s d in \<open>simp_all add: format_bytes_def\<close>)
next
  case False
  show thesis
  proof (rule that [of "Lit [c] # ps"])
    show "prints m (Lit [c] # ps) args (c # out) (length [c] + n)" using prints.lit [OF assms(3), of "[c]"] by simp
  qed (use assms(1,4) False in \<open>auto simp: format_bytes_def split: list.splits piece.splits\<close>)
qed

lemma prints_num:
  assumes "parg_fits d (Num v)" "prints m ps args out n"
  shows "prints m (Conv LENGTH_DEFAULT d # ps) (v # args) (parg_text d (Num v) @ out) n"
proof (cases "d = 120")
  case True
  have "unsigned_arg LENGTH_DEFAULT (v # args) = Some (Some (ucast v, args))" by (simp add: unsigned_arg_def)
  from prints.unsigned [OF _ this assms(2), of d] True show ?thesis by (simp add: uint_up_ucast is_up)
next
  case False
  have s: "signed_arg LENGTH_DEFAULT (v # args) = Some (Some (scast v, args))" by (simp add: signed_arg_def)
  have "sint (scast v :: u64) = sint v" by (simp add: sint_up_scast is_up)
  with prints.signed [OF _ s assms(2), of d] assms(1) False show ?thesis by auto
qed

lemma prints_expand:
  assumes "fits f args" "\<forall>a \<in> set args. parg_ok m a"
  shows "\<exists>ps n. format_bytes ps = f \<and> pieces_ok ps \<and> (\<forall>s ps'. ps = Lit s # ps' \<longrightarrow> hd s \<noteq> 37) \<and>
    prints m ps (map parg_word args) (expand f args) n"
  using assms
proof (induction f args rule: expand.induct)
  case (1 args)
  then show ?case by (auto intro!: exI [of _ "[]"] prints.nil simp: format_bytes_def)
next
  case (2 c args)
  then show ?case using prints.lit [OF prints.nil, of m "[c]" "[]"] by (auto intro!: exI [of _ "[Lit [c]]"] simp: format_bytes_def)
next
  case (3 c d f args)
  show ?case
  proof (cases "c = 37")
    case False
    then obtain ps n where ps: "format_bytes ps = d # f" "pieces_ok ps" "\<forall>s ps'. ps = Lit s # ps' \<longrightarrow> hd s \<noteq> 37"
      "prints m ps (map parg_word args) (expand (d # f) args) n" using 3 by auto
    obtain qs k where "format_bytes qs = c # format_bytes ps" "pieces_ok qs" "\<forall>s ps'. qs = Lit s # ps' \<longrightarrow> hd s \<noteq> 37"
      "prints m qs (map parg_word args) (c # expand (d # f) args) k" using prints_lit_cons [OF ps(2,3,4) False] by metis
    then show ?thesis using ps(1) False by (intro exI [of _ qs] exI [of _ k]) simp
  next
    case True
    then obtain a as where a: "args = a # as" "parg_fits d a" "fits f as" using "3.prems"(1) by (auto split: list.splits)
    then obtain ps n where ps: "format_bytes ps = f" "pieces_ok ps" "prints m ps (map parg_word as) (expand f as) n"
      using 3(2) [OF _ a(1)] True "3.prems"(2) by auto
    have "prints m (Conv LENGTH_DEFAULT d # ps) (map parg_word args) (expand (c # d # f) args) n"
    proof (cases a)
      case (Num v)
      then show ?thesis using prints_num [of d v m ps "map parg_word as"] a ps(3) True by simp
    next
      case (Str p s)
      then show ?thesis using prints.string [OF _ ps(3), of p s LENGTH_DEFAULT] a "3.prems"(2) True by simp
    qed
    then show ?thesis using ps True by (intro exI [of _ "Conv LENGTH_DEFAULT d # ps"] exI [of _ n]) (simp add: format_bytes_def)
  qed
qed

lemma integer_text_no_backspace: "8 \<notin> set (integer_text d v)"
proof -
  have b: "2 \<le> base_of d" by (simp add: base_of_def)
  have "lower_digits ! i \<noteq> 8 \<and> upper_digits ! i \<noteq> 8" if "i < 16" for i
    using that nth_mem [of i lower_digits] nth_mem [of i upper_digits] by (fastforce simp: lower_digits_def upper_digits_def)
  moreover have "\<forall>i \<in> set (radix (base_of d) n). i < 16" for n using radix_digits [OF b, of n] by (auto simp: base_of_def split: if_splits)
  ultimately show ?thesis by (auto simp: integer_text_def)
qed

lemma expand_no_backspace: "8 \<notin> set f \<Longrightarrow> \<forall>a \<in> set args. parg_ok m a \<Longrightarrow> 8 \<notin> set (expand f args)"
proof (induction f args rule: expand.induct)
  case (3 c d f args)
  have "8 \<notin> set (parg_text d a)" if "a \<in> set args" for a
    using "3.prems"(2) that integer_text_no_backspace by (cases a) auto
  then show ?case using 3 by (auto split: list.splits)
qed simp_all

text \<open>A format that fits its arguments puts its expansion on the screen.\<close>

lemma kprintf_expand:
  assumes "terminal_ok t" "cstr (tmem t) f fmt" "8 \<notin> set fmt" "fits fmt args" "\<forall>a \<in> set args. parg_ok (tmem t) a"
  obtains n t' where "kprintf f (map parg_word args) t = Some (n, t')"
    "video_step (fold (screen_putchar (terminal_color t)) (expand fmt args)) t t'"
proof -
  obtain ps n where ps: "format_bytes ps = fmt" "pieces_ok ps" "prints (tmem t) ps (map parg_word args) (expand fmt args) n"
    using prints_expand [OF assms(4,5)] by auto
  then have "printf (tmem t) f (map parg_word args) = Some (of_nat n, expand fmt args)"
    using printf_loop_correct [OF ps(3,2), of f 0 "[]"] assms(2) by (simp add: printf_def)
  then show thesis using that [of "of_nat n" "fold terminal_putchar (expand fmt args) t"]
      video_step_fold [OF assms(1) expand_no_backspace [OF assms(3,5)]] by (simp add: kprintf_def print_fold)
qed

section \<open>Strings off the screen\<close>

definition off_screen :: "u32 \<Rightarrow> nat \<Rightarrow> bool" where
  "off_screen a n \<longleftrightarrow> (\<forall>i < n. \<not> in_rng VGA_MEMORY 4000 (a + of_nat i))"

definition string_at :: "mem \<Rightarrow> u32 \<Rightarrow> u8 list \<Rightarrow> bool" where
  "string_at m a s \<longleftrightarrow> cstr m a s \<and> off_screen a (length s + 1) \<and> 8 \<notin> set s"

text \<open>A line: a format and its arguments.\<close>

type_synonym line = "string \<times> parg list"

definition lines_text :: "line list \<Rightarrow> u8 list" where
  "lines_text ls = concat (map (\<lambda>(format, args). expand (chars format) args) ls)"

lemma off_screen_cong: "off_screen a n \<Longrightarrow> i < n \<Longrightarrow> \<forall>x. \<not> in_rng VGA_MEMORY 4000 x \<longrightarrow> m x = M x \<Longrightarrow> m (a + of_nat i) = M (a + of_nat i)"
  by (simp add: off_screen_def)

lemma off_screen_part: "off_screen a n \<Longrightarrow> k + j \<le> n \<Longrightarrow> off_screen (a + of_nat k) j"
  unfolding off_screen_def by (metis add.assoc less_le_trans nat_add_left_cancel_less of_nat_add)

lemma load32_off_screen: "off_screen a 4 \<Longrightarrow> \<forall>x. \<not> in_rng VGA_MEMORY 4000 x \<longrightarrow> m x = M x \<Longrightarrow> load32 m a = load32 M a"
  using off_screen_cong [of a 4 0 m M] off_screen_cong [of a 4 1 m M] off_screen_cong [of a 4 2 m M] off_screen_cong [of a 4 3 m M]
  by (simp add: load32_def)

lemma cstr_off_screen: "off_screen a (length s + 1) \<Longrightarrow> \<forall>x. \<not> in_rng VGA_MEMORY 4000 x \<longrightarrow> m x = M x \<Longrightarrow> cstr m a s = cstr M a s"
  by (intro cstr_cong off_screen_cong) auto

lemma off_screen_low: "unat a + n \<le> 0xB8000 \<Longrightarrow> off_screen a n"
proof -
  assume a: "unat a + n \<le> 0xB8000"
  have "\<not> in_rng VGA_MEMORY 4000 (a + of_nat i)" if "i < n" for i
  proof -
    have "unat (a + of_nat i) = unat a + i" using a that by (subst unat_add_lem [THEN iffD1]) (simp_all add: unat_of_nat_u32)
    then have "a + of_nat i < VGA_MEMORY" using a that by (simp add: word_less_nat_alt VGA_MEMORY_def)
    then have "unat (a + of_nat i - VGA_MEMORY) = unat (a + of_nat i) + 4294967296 - unat (VGA_MEMORY)"
      by (simp add: unat_sub_if_size word_size word_less_nat_alt)
    then show ?thesis by (simp add: in_rng_def VGA_MEMORY_def)
  qed
  then show ?thesis by (simp add: off_screen_def)
qed

text \<open>Literals \<open>L\<close> 64 bytes apart from address 0 on.\<close>

definition sample_lit :: "string list \<Rightarrow> string \<Rightarrow> u32" where
  "sample_lit L f = of_nat (64 * length (takeWhile (\<lambda>g. g \<noteq> f) L))"

definition literal_byte :: "string list \<Rightarrow> nat \<Rightarrow> u8" where
  "literal_byte L a = (if a div 64 < length L \<and> a mod 64 < length (L ! (a div 64)) then chars (L ! (a div 64)) ! (a mod 64) else 0)"

definition short_literals :: "string list \<Rightarrow> bool" where
  "short_literals L \<longleftrightarrow> length L \<le> 64 \<and> list_all (\<lambda>f. length f < 64 \<and> 0 \<notin> set (chars f) \<and> 8 \<notin> set (chars f)) L"

lemma literal_byte_beyond: "short_literals L \<Longrightarrow> 4096 \<le> a \<Longrightarrow> literal_byte L a = 0"
  using div_le_mono [of 4096 a 64] by (simp add: literal_byte_def short_literals_def)

lemma sample_slot:
  assumes "short_literals L" "f \<in> set L"
  shows "length (takeWhile (\<lambda>g. g \<noteq> f) L) < length L" "length (takeWhile (\<lambda>g. g \<noteq> f) L) < 64"
    "L ! length (takeWhile (\<lambda>g. g \<noteq> f) L) = f" "length f < 64"
proof -
  have "dropWhile (\<lambda>g. g \<noteq> f) L \<noteq> []" using assms(2) by simp
  then show l: "length (takeWhile (\<lambda>g. g \<noteq> f) L) < length L"
    using takeWhile_dropWhile_id [of "\<lambda>g. g \<noteq> f" L] by (metis append.right_neutral length_append length_greater_0_conv less_add_same_cancel1)
  then show "length (takeWhile (\<lambda>g. g \<noteq> f) L) < 64" "L ! length (takeWhile (\<lambda>g. g \<noteq> f) L) = f" "length f < 64"
    using nth_length_takeWhile [of "\<lambda>g. g \<noteq> f" L] assms by (auto simp: short_literals_def list_all_iff)
qed

lemma sample_lit_low:
  assumes "short_literals L" "f \<in> set L" "i \<le> length f"
  shows "unat (sample_lit L f + of_nat i) < 4096"
proof -
  let ?i = "length (takeWhile (\<lambda>g. g \<noteq> f) L)"
  have "64 * ?i + i < 4096" using sample_slot [OF assms(1,2)] assms(3) by simp
  then show ?thesis using unat_of_nat_u32 [of "64 * ?i + i"] by (simp add: sample_lit_def)
qed

lemma sample_string_at:
  assumes L: "short_literals L" and f: "f \<in> set L" and M: "\<And>a. a < 4096 \<Longrightarrow> M (of_nat a) = literal_byte L a"
  shows "string_at M (sample_lit L f) (chars f)"
proof -
  let ?i = "length (takeWhile (\<lambda>g. g \<noteq> f) L)"
  note i = sample_slot(1-3) [OF L f]
  have f: "length f < 64" "0 \<notin> set (chars f)" "8 \<notin> set (chars f)" using L f by (simp_all add: list_all_iff short_literals_def)
  have m: "M (sample_lit L f + of_nat j) = (if j < length f then chars f ! j else 0)" if j: "j < 64" for j
  proof -
    have "64 * ?i + j < 4096" using i(2) j by simp
    then have u: "unat (of_nat (64 * ?i + j) :: u32) = 64 * ?i + j" by (intro unat_of_nat_u32) simp
    then have "literal_byte L (unat (of_nat (64 * ?i + j) :: u32)) = (if j < length f then chars f ! j else 0)"
      using j i by (simp add: literal_byte_def)
    then show ?thesis using M [OF \<open>64 * ?i + j < 4096\<close>] u by (simp add: sample_lit_def)
  qed
  have l: "length (chars f) = length f" by (simp add: chars_def)
  have "chars f ! j \<noteq> 0" if "j < length f" for j using f(2) that nth_mem [of j "chars f"] l by metis
  then have "cstr M (sample_lit L f) (chars f)" unfolding cstr_nth l using m f(1) by simp
  moreover have "off_screen (sample_lit L f) (length (chars f) + 1)"
  proof (rule off_screen_low)
    have "unat (sample_lit L f) = 64 * ?i" unfolding sample_lit_def using i(2) by (intro unat_of_nat_u32) simp
    then show "unat (sample_lit L f) + (length (chars f) + 1) \<le> 0xB8000" using i(2) f(1) l by simp
  qed
  ultimately show ?thesis using f(3) by (simp add: string_at_def)
qed

end
