(* ===== verification/Bitmap.thy ===== *)
theory Bitmap
  imports Libc_Mem
begin

text \<open>
  The bitmaps of \<^verbatim>\<open>kernel/kernel/array.c\<close> that keep the free frames and the free heap pages: a structure
  of two words in memory and one 32-bit entry per slot. The search of a run of free entries follows
  the two loops of the code, including the entry just past the end that it looks at.
\<close>

section \<open>The structure in memory\<close>

text \<open>\<open>bitmap_t\<close>: the pointer to the entries at offset 0, their number at offset 4.\<close>

definition bitmap_entries :: "mem \<Rightarrow> u32 \<Rightarrow> u32" where "bitmap_entries m b = load32 m b"
definition bitmap_size :: "mem \<Rightarrow> u32 \<Rightarrow> u32" where "bitmap_size m b = load32 m (b + 4)"

definition bitmap_entry :: "mem \<Rightarrow> u32 \<Rightarrow> u32 \<Rightarrow> u32" where
  "bitmap_entry m b i = load32 m (bitmap_entries m b + 4 * i)"

section \<open>The operations\<close>

definition bitmap_entrie_set :: "u32 \<Rightarrow> u32 \<Rightarrow> u32 \<Rightarrow> mem \<Rightarrow> u32 \<times> mem" where
  "bitmap_entrie_set index value bitmap m =
     (value, store32 m (bitmap_entries m bitmap + 4 * index) value)"

definition bitmap_entrie_check :: "u32 \<Rightarrow> u32 \<Rightarrow> mem \<Rightarrow> int" where
  "bitmap_entrie_check index bitmap m = sint (bitmap_entry m bitmap index)"

text \<open>The inner loop of \<open>bitmap_entrie_find\<close>: does it return \<open>i\<close>?\<close>

function find_run :: "mem \<Rightarrow> u32 \<Rightarrow> u32 \<Rightarrow> u32 \<Rightarrow> u32 \<Rightarrow> u32 \<Rightarrow> bool" where
  "find_run m b value sz i x =
     (if bitmap_entry m b (i + x) = value
      then if x + 1 \<ge> sz then True else find_run m b value sz i (x + 1)
      else False)"
  by pat_completeness auto
termination
  by (relation "measure (\<lambda>(m, b, value, sz, i, x). unat sz - unat (x + 1))")
    (simp_all add: not_le loop_up_dec2)

declare find_run.simps [simp del]

partial_function (option) find_from :: "mem \<Rightarrow> u32 \<Rightarrow> u32 \<Rightarrow> u32 \<Rightarrow> u32 \<Rightarrow> u32 option" where
  "find_from m b value sz i =
     (if i \<le> bitmap_size m b then
        if bitmap_entry m b i = value \<and> find_run m b value sz i 0 then Some i
        else find_from m b value sz (i + 1)
      else Some (- 1))"

declare find_from.simps [code]

definition bitmap_entrie_find :: "u32 \<Rightarrow> u32 \<Rightarrow> u32 \<Rightarrow> mem \<Rightarrow> u32 option" where
  "bitmap_entrie_find sz value bitmap m = find_from m bitmap value sz 0"

function bitmap_map_loop :: "mem \<Rightarrow> u32 \<Rightarrow> u32 \<Rightarrow> u32 \<Rightarrow> u32 \<Rightarrow> mem" where
  "bitmap_map_loop m b value i end =
     (if i < end then bitmap_map_loop (snd (bitmap_entrie_set i value b m)) b value (i + 1) end else m)"
  by pat_completeness auto
termination
  by (relation "measure (\<lambda>(m, b, value, i, end). unat end - unat i)") (simp_all add: loop_up_dec)

declare bitmap_map_loop.simps [simp del]

definition bitmap_map :: "u32 \<Rightarrow> u32 \<Rightarrow> u32 \<Rightarrow> u32 \<Rightarrow> mem \<Rightarrow> mem" where
  "bitmap_map start end value bitmap m =
     (if end > bitmap_size m bitmap then m else bitmap_map_loop m bitmap value start end)"

section \<open>Well-formed bitmaps\<close>

text \<open>
  The entries do not wrap around and the structure lies outside them: then writing an entry changes
  that entry only.
\<close>

definition bitmap_ok :: "mem \<Rightarrow> u32 \<Rightarrow> bool" where
  "bitmap_ok m b \<longleftrightarrow> unat (bitmap_entries m b) + 4 * unat (bitmap_size m b) \<le> 4294967296 \<and>
     disj (bitmap_entries m b) (4 * unat (bitmap_size m b)) b 8"

lemma entry_addr:
  fixes e i :: u32
  assumes "unat e + 4 * n \<le> 4294967296" "unat i < n"
  shows "unat (e + 4 * i) = unat e + 4 * unat i"
proof -
  have "unat (4 * i) = 4 * unat i" using assms by (simp add: unat_word_ariths)
  then show ?thesis using assms unat_u32_add_le [of e "4 * i"] by simp
qed

lemma entry_rng: "unat i < n \<Longrightarrow> 4 * n \<le> 4294967296 \<Longrightarrow> in_rng (e + 4 * i) 4 x \<Longrightarrow> in_rng e (4 * n) x"
  by (rule in_rng_shift [of e "4 * i" 4]) (auto simp: unat_word_ariths)

lemma bitmap_entrie_set_outside:
  assumes "bitmap_ok m b" "i < bitmap_size m b" "\<not> in_rng (bitmap_entries m b) (4 * unat (bitmap_size m b)) x"
  shows "snd (bitmap_entrie_set i v b m) x = m x"
proof -
  have "\<not> in_rng (bitmap_entries m b + 4 * i) 4 x"
    using entry_rng assms by (auto simp: bitmap_ok_def word_less_nat_alt)
  then show ?thesis by (simp add: bitmap_entrie_set_def store32_outside)
qed

lemma bitmap_struct:
  assumes "bitmap_ok m b" "\<And>x. \<not> in_rng (bitmap_entries m b) (4 * unat (bitmap_size m b)) x \<Longrightarrow> m' x = m x"
  shows "bitmap_entries m' b = bitmap_entries m b" "bitmap_size m' b = bitmap_size m b" "bitmap_ok m' b"
proof -
  have o: "m' x = m x" if "in_rng b 8 x" for x
    using assms disjD [OF disj_sym] that unfolding bitmap_ok_def by blast
  show e: "bitmap_entries m' b = bitmap_entries m b"
    unfolding bitmap_entries_def by (rule load32_cong) (use o in_rng_sub in force)
  have "in_rng b 8 x" if "in_rng (b + 4) 4 x" for x using in_rng_shift [OF that, of 8] by simp
  then show s: "bitmap_size m' b = bitmap_size m b"
    unfolding bitmap_size_def by (intro load32_cong) (use o in auto)
  show "bitmap_ok m' b" using assms(1) unfolding bitmap_ok_def e s .
qed

lemma bitmap_entrie_set_entry:
  assumes "bitmap_ok m b" "i < bitmap_size m b" "j < bitmap_size m b"
  shows "bitmap_entry (snd (bitmap_entrie_set i v b m)) b j = (if j = i then v else bitmap_entry m b j)"
proof -
  let ?e = "bitmap_entries m b"
  have b: "unat ?e + 4 * unat (bitmap_size m b) \<le> 4294967296" using assms(1) by (simp add: bitmap_ok_def)
  have ij: "unat i < unat (bitmap_size m b)" "unat j < unat (bitmap_size m b)"
    using assms by (simp_all add: word_less_nat_alt)
  note a = entry_addr [OF b ij(1)] entry_addr [OF b ij(2)]
  have e: "bitmap_entries (snd (bitmap_entrie_set i v b m)) b = ?e"
    by (rule bitmap_struct [OF assms(1)]) (rule bitmap_entrie_set_outside [OF assms(1,2)])
  have "disj (?e + 4 * i) 4 (?e + 4 * j) 4" if "j \<noteq> i"
  proof -
    have "unat i \<noteq> unat j" using that by (simp add: word_unat_eq_iff)
    then consider "unat i < unat j" | "unat j < unat i" by linarith
    then show ?thesis
    proof cases
      case 1 then show ?thesis using a b ij by (intro disj_lin) auto
    next
      case 2 then show ?thesis using a b ij by (intro disj_sym [OF disj_lin]) auto
    qed
  qed
  then show ?thesis
    by (auto simp: bitmap_entry_def e) (simp_all add: bitmap_entrie_set_def load32_store32_disj)
qed

section \<open>Marking a range\<close>

lemma bitmap_map_loop_correct:
  assumes "bitmap_ok m b" "unat e \<le> unat (bitmap_size m b)"
  shows "bitmap_ok (bitmap_map_loop m b v i e) b \<and>
     bitmap_entries (bitmap_map_loop m b v i e) b = bitmap_entries m b \<and>
     bitmap_size (bitmap_map_loop m b v i e) b = bitmap_size m b \<and>
     (\<forall>j < bitmap_size m b. bitmap_entry (bitmap_map_loop m b v i e) b j =
        (if i \<le> j \<and> j < e then v else bitmap_entry m b j)) \<and>
     (\<forall>x. \<not> in_rng (bitmap_entries m b) (4 * unat (bitmap_size m b)) x \<longrightarrow> bitmap_map_loop m b v i e x = m x)"
  using assms
proof (induction m b v i e rule: bitmap_map_loop.induct)
  case (1 m b v i e)
  show ?case
  proof (cases "i < e")
    case False
    then show ?thesis using 1(2) by (subst (1 2 3 4 5) bitmap_map_loop.simps) auto
  next
    case True
    let ?m = "snd (bitmap_entrie_set i v b m)"
    have i: "i < bitmap_size m b" using True 1(3) by (simp add: word_less_nat_alt)
    note st = bitmap_struct [OF 1(2) bitmap_entrie_set_outside [OF 1(2) i]]
    have st: "bitmap_entries ?m b = bitmap_entries m b" "bitmap_size ?m b = bitmap_size m b" "bitmap_ok ?m b"
      by (rule st; assumption)+
    have eq: "bitmap_map_loop m b v i e = bitmap_map_loop ?m b v (i + 1) e"
      using True by (subst bitmap_map_loop.simps) simp
    note ih = 1(1) [OF True st(3)]
    have "(i + 1 \<le> j \<and> j < e \<or> j = i) \<longleftrightarrow> i \<le> j \<and> j < e" for j
      using True unat_Suc_u32 [OF True] by (auto simp: word_le_nat_alt word_less_nat_alt word_unat_eq_iff)
    then show ?thesis
      using ih 1(3) unfolding eq st(1,2)
      using bitmap_entrie_set_entry [OF 1(2) i] bitmap_entrie_set_outside [OF 1(2) i] by auto
  qed
qed

text \<open>The loop writes no entry from \<open>end\<close> on.\<close>

lemma bitmap_map_loop_below:
  assumes "bitmap_ok m b" "unat e \<le> unat (bitmap_size m b)" "\<not> in_rng (bitmap_entries m b) (4 * unat e) x"
  shows "bitmap_map_loop m b v i e x = m x"
  using assms
proof (induction m b v i e rule: bitmap_map_loop.induct)
  case (1 m b v i e)
  show ?case
  proof (cases "i < e")
    case False
    then show ?thesis by (subst bitmap_map_loop.simps) simp
  next
    case True
    let ?m = "snd (bitmap_entrie_set i v b m)"
    have i: "i < bitmap_size m b" using True 1(3) by (simp add: word_less_nat_alt)
    note out = bitmap_entrie_set_outside [OF 1(2) i]
    note st = bitmap_struct [OF 1(2) out]
    have st: "bitmap_entries ?m b = bitmap_entries m b" "bitmap_size ?m b = bitmap_size m b" "bitmap_ok ?m b"
      by (rule st; assumption)+
    have "4 * unat e \<le> 4294967296" using 1(2,3) by (simp add: bitmap_ok_def)
    then have "\<not> in_rng (bitmap_entries m b + 4 * i) 4 x"
      using entry_rng [of i "unat e"] True 1(4) by (auto simp: word_less_nat_alt)
    then have "?m x = m x" by (simp add: bitmap_entrie_set_def store32_outside)
    moreover have "bitmap_map_loop m b v i e = bitmap_map_loop ?m b v (i + 1) e"
      using True by (subst bitmap_map_loop.simps) simp
    ultimately show ?thesis using 1(1) [OF True st(3)] 1(3,4) st(1,2) by simp
  qed
qed

section \<open>Searching a run\<close>

definition run_at :: "mem \<Rightarrow> u32 \<Rightarrow> u32 \<Rightarrow> u32 \<Rightarrow> u32 \<Rightarrow> bool" where
  "run_at m b v n i \<longleftrightarrow> (\<forall>k. k < max 1 (unat n) \<longrightarrow> bitmap_entry m b (i + of_nat k) = v)"

lemma find_run_iff:
  "x \<noteq> - 1 \<Longrightarrow> find_run m b v n i x \<longleftrightarrow>
     (\<forall>k. unat x \<le> k \<and> k < max (unat x + 1) (unat n) \<longrightarrow> bitmap_entry m b (i + of_nat k) = v)"
proof (induction m b v n i x rule: find_run.induct)
  case (1 m b v n i x)
  have u: "unat (x + 1) = unat x + 1"
    using 1(2) by (rule unat_Suc_max)
  have first: "unat x \<le> k \<and> k < max (unat x + 1) (unat n) \<longleftrightarrow>
      k = unat x \<or> unat x + 1 \<le> k \<and> k < unat n" for k by auto
  show ?case
  proof (cases "bitmap_entry m b (i + x) = v \<and> x + 1 < n")
    case True
    have "x + 1 \<noteq> - 1" using True by (auto dest: less_not_max)
    then have "find_run m b v n i (x + 1) \<longleftrightarrow>
      (\<forall>k. unat x + 1 \<le> k \<and> k < unat n \<longrightarrow> bitmap_entry m b (i + of_nat k) = v)"
      using 1(1) True u by (auto simp: not_le word_less_nat_alt max_def)
    moreover have "find_run m b v n i x = find_run m b v n i (x + 1)"
      using True leD [of n "x + 1"] by (subst find_run.simps) auto
    ultimately show ?thesis unfolding first using True by auto
  next
    case False
    then have "find_run m b v n i x \<longleftrightarrow> bitmap_entry m b (i + x) = v"
      by (subst find_run.simps) auto
    moreover have "unat n \<le> unat x + 1" if "bitmap_entry m b (i + x) = v"
      using False that u by (simp add: word_less_nat_alt)
    ultimately show ?thesis unfolding first by auto
  qed
qed

lemma find_run_0: "find_run m b v n i 0 \<longleftrightarrow> run_at m b v n i"
  by (simp add: find_run_iff run_at_def max.commute)

lemma run_at_first: "run_at m b v n i \<Longrightarrow> bitmap_entry m b i = v"
  unfolding run_at_def by (drule spec [of _ 0]) simp

lemma find_from_correct:
  assumes "bitmap_size m b \<noteq> - 1"
  shows "\<exists>r. find_from m b v n i = Some r \<and>
     (if r = - 1 then \<forall>j. i \<le> j \<and> j \<le> bitmap_size m b \<longrightarrow> \<not> run_at m b v n j
      else i \<le> r \<and> r \<le> bitmap_size m b \<and> run_at m b v n r \<and> (\<forall>j. i \<le> j \<and> j < r \<longrightarrow> \<not> run_at m b v n j))"
proof (induction "unat (bitmap_size m b) + 1 - unat i" arbitrary: i rule: less_induct)
  case less
  show ?case
  proof (cases "i \<le> bitmap_size m b")
    case False
    then show ?thesis by (subst find_from.simps) auto
  next
    case le: True
    have "i \<noteq> - 1" using le assms by (rule le_not_max)
    show ?thesis
    proof (cases "run_at m b v n i")
      case True
      then have "find_from m b v n i = Some i"
        using le run_at_first [OF True] by (subst find_from.simps) (simp add: find_run_0)
      then show ?thesis using True le \<open>i \<noteq> - 1\<close> by auto
    next
      case False
      have st: "find_from m b v n i = find_from m b v n (i + 1)"
        using le False by (subst find_from.simps) (simp add: find_run_0)
      have u: "i < bitmap_size m b + 1" "unat (i + 1) = unat i + 1"
      proof -
        have "unat (bitmap_size m b + 1) = unat (bitmap_size m b) + 1"
          using assms by (rule unat_Suc_max)
        then show "i < bitmap_size m b + 1" using le by (simp add: word_less_nat_alt word_le_nat_alt)
        then show "unat (i + 1) = unat i + 1" using unat_Suc_u32 by simp
      qed
      have dec: "unat (bitmap_size m b) + 1 - unat (i + 1) < unat (bitmap_size m b) + 1 - unat i"
        using u le by (simp add: word_le_nat_alt)
      have step: "i \<le> j \<longleftrightarrow> j = i \<or> i + 1 \<le> j" for j
        using u(2) by (auto simp: word_le_nat_alt word_unat_eq_iff)
      from less [OF dec] show ?thesis
        unfolding st using False step by (metis (no_types, lifting))
    qed
  qed
qed

section \<open>Properties\<close>

text \<open>A bitmap of four entries at \<open>0x200\<close>, the structure at \<open>0x100\<close>, entries 0 and 1 in use.\<close>

definition sample_bitmap :: mem where
  "sample_bitmap = (\<lambda>_. 0)(0x101 := 2, 0x104 := 4, 0x200 := 1, 0x204 := 1)"

lemma sample_bitmap_ok: "bitmap_ok sample_bitmap 0x100" "bitmap_size sample_bitmap 0x100 = 4"
  "bitmap_entries sample_bitmap 0x100 = 0x200"
  by (simp_all add: bitmap_ok_def bitmap_entries_def bitmap_size_def sample_bitmap_def load32_def disj_def)

text \<open>
  \<open>bitmap_map\<close> gives exactly the entries from \<open>start\<close> up to \<open>end\<close> the value, keeps every other entry
  and every byte outside the entries, and does nothing at all when \<open>end\<close> lies beyond the size.
\<close>

theorem bitmap_map_correct:
  assumes "bitmap_ok m b"
  shows "bitmap_ok (bitmap_map s e v b m) b \<and>
    (\<forall>j < bitmap_size m b. bitmap_entry (bitmap_map s e v b m) b j =
       (if e \<le> bitmap_size m b \<and> s \<le> j \<and> j < e then v else bitmap_entry m b j)) \<and>
    (\<forall>x. \<not> in_rng (bitmap_entries m b) (4 * unat (bitmap_size m b)) x \<longrightarrow> bitmap_map s e v b m x = m x)"
proof (cases "e \<le> bitmap_size m b")
  case True
  then show ?thesis
    using bitmap_map_loop_correct [OF assms, of e v s] leD [OF True] by (simp add: bitmap_map_def word_le_nat_alt)
next
  case False
  then have "bitmap_map s e v b m = m" by (simp add: bitmap_map_def not_le)
  then show ?thesis using assms False by simp
qed

theorem bitmap_map_correct_witness:
  "bitmap_ok sample_bitmap 0x100 \<and> (2 :: u32) < bitmap_size sample_bitmap 0x100 \<and>
   bitmap_entry (bitmap_map 2 4 1 0x100 sample_bitmap) 0x100 2 = 1"
  using bitmap_map_correct [OF sample_bitmap_ok(1), of 2 4 1] by (simp add: sample_bitmap_ok)

text \<open>
  C17: \<open>bitmap_entrie_find\<close> ends unless the size is the largest 32-bit number. Its answer is the first
  index, up to and including the size, from which on the wanted number of entries (at least one) have
  the value; it answers \<open>-1\<close> exactly when there is no such index.
\<close>

theorem bitmap_entrie_find_correct:
  assumes "bitmap_size m b \<noteq> - 1"
  shows "\<exists>r. bitmap_entrie_find n v b m = Some r \<and>
     (if r = - 1 then \<forall>j \<le> bitmap_size m b. \<not> run_at m b v n j
      else r \<le> bitmap_size m b \<and> run_at m b v n r \<and> (\<forall>j < r. \<not> run_at m b v n j))"
  using find_from_correct [OF assms, of v n 0] unfolding bitmap_entrie_find_def
  by (simp only: word_zero_le True_implies_equals simp_thms)

theorem bitmap_entrie_find_correct_witness:
  "bitmap_size sample_bitmap 0x100 \<noteq> - 1 \<and> (\<exists>r. bitmap_entrie_find 1 0 0x100 sample_bitmap = Some r)"
  using bitmap_entrie_find_correct [of sample_bitmap "0x100" 1 0] by (auto simp: sample_bitmap_ok)

text \<open>
  the search runs past the end: when every entry is in use and the word after the last entry is 0,
  the answer is the size itself, an index that belongs to no entry.
\<close>

theorem bitmap_entrie_find_past_end:
  assumes "bitmap_size m b \<noteq> - 1" and "\<forall>j < bitmap_size m b. bitmap_entry m b j = 1"
    and "bitmap_entry m b (bitmap_size m b) = 0"
  shows "bitmap_entrie_find 1 0 b m = Some (bitmap_size m b)"
proof -
  have r: "run_at m b 0 1 j \<longleftrightarrow> bitmap_entry m b j = 0" for j by (simp add: run_at_def)
  show ?thesis
    using find_from_correct [OF assms(1), of 0 1 0] assms unfolding r bitmap_entrie_find_def
    by (metis (no_types, lifting) order_le_less order_refl word_zero_le zero_neq_one)
qed

theorem bitmap_entrie_find_past_end_witness:
  "bitmap_entrie_find 1 0 0x100 (bitmap_map 0 4 1 0x100 sample_bitmap) = Some 4"
proof -
  let ?m = "bitmap_map 0 4 1 0x100 sample_bitmap"
  have m: "bitmap_map_loop sample_bitmap 0x100 1 0 4 = ?m" by (simp add: bitmap_map_def sample_bitmap_ok)
  note c = bitmap_map_loop_correct [OF sample_bitmap_ok(1), of 4 1 0, unfolded m sample_bitmap_ok, simplified]
  have "load32 ?m 0x210 = load32 sample_bitmap 0x210"
  proof (rule load32_cong)
    fix x :: u32 assume "in_rng 0x210 4 x"
    moreover have "disj 0x210 4 0x200 (16 :: nat)" by (simp add: disj_def)
    ultimately show "?m x = sample_bitmap x" using disjD c by blast
  qed
  then have "bitmap_entry ?m 0x100 4 = 0" using c by (simp add: bitmap_entry_def sample_bitmap_def load32_def)
  then show ?thesis using bitmap_entrie_find_past_end [of ?m "0x100"] c by simp
qed

end
