(* ===== verification/Paging.thy ===== *)
theory Paging
  imports Bitmap
begin

text \<open>
  Frames, page tables and page directories: \<^verbatim>\<open>kernel/arch/i386/mem/paging.c\<close> up to the allocator hooks.
  The kernel keeps its bitmaps, directories and tables in identity mapped memory, so the model reads
  and writes them at their physical address. \<open>walk\<close> is what the processor does with the tables; the
  lemmas relate it to \<open>page_map\<close>, \<open>page_unmap\<close> and \<open>page_physaddr\<close>.
\<close>

section \<open>The state of the kernel's memory management\<close>

record kernel =
  kmem :: mem
  cr0 :: u32
  cr3 :: u32
  kernel_pointer :: u32
  frame_bitmap :: u32
  kernel_heap :: u32
  paging_state :: u32
  isr_routine :: "u32 \<Rightarrow> u32"
  console :: "string list"

definition PAGE_SIZE_HEX :: u32 where "PAGE_SIZE_HEX = 0x1000"
definition ENTRY_SIZE_DEC :: nat where "ENTRY_SIZE_DEC = 1024"
definition USED :: u32 where "USED = 1"
definition FREE :: u32 where "FREE = 0"

definition INDEX_GET :: "u32 \<Rightarrow> u32" where "INDEX_GET i = i div PAGE_SIZE_HEX"
definition ADDR_GET :: "u32 \<Rightarrow> u32" where "ADDR_GET i = i * PAGE_SIZE_HEX"
definition DIR_GET :: "u32 \<Rightarrow> u32" where "DIR_GET i = drop_bit 22 i AND 0x3ff"
definition TLB_GET :: "u32 \<Rightarrow> u32" where "TLB_GET i = drop_bit 12 i AND 0x3ff"
definition PHY_GET :: "u32 \<Rightarrow> u32" where "PHY_GET i = i AND NOT 0xfff"

definition print :: "string \<Rightarrow> kernel \<Rightarrow> kernel" where
  "print msg k = k\<lparr>console := console k @ [msg]\<rparr>"

definition upd_kmem :: "(mem \<Rightarrow> mem) \<Rightarrow> kernel \<Rightarrow> kernel" where
  "upd_kmem f k = k\<lparr>kmem := f (kmem k)\<rparr>"

section \<open>Frames\<close>

definition frame_set :: "u32 \<Rightarrow> kernel \<Rightarrow> kernel" where
  "frame_set addr k = upd_kmem (\<lambda>m. snd (bitmap_entrie_set (INDEX_GET addr) USED (frame_bitmap k) m)) k"

definition frame_free :: "u32 \<Rightarrow> kernel \<Rightarrow> kernel" where
  "frame_free addr k = upd_kmem (\<lambda>m. snd (bitmap_entrie_set (INDEX_GET addr) FREE (frame_bitmap k) m)) k"

definition frame_test :: "u32 \<Rightarrow> kernel \<Rightarrow> int" where
  "frame_test addr k = bitmap_entrie_check (INDEX_GET addr) (frame_bitmap k) (kmem k)"

definition frame_find :: "kernel \<Rightarrow> u32 option" where
  "frame_find k = map_option ADDR_GET (bitmap_entrie_find 1 0 (frame_bitmap k) (kmem k))"

definition frame_alloc :: "kernel \<Rightarrow> (u32 \<times> kernel) option" where
  "frame_alloc k = do {
     frame \<leftarrow> frame_find k;
     if frame = 0xffffffff then Some (0, k) else Some (frame, frame_set frame k)
   }"

definition ponter_move_int :: "u32 \<Rightarrow> u32 \<Rightarrow> int \<Rightarrow> kernel \<Rightarrow> u32 \<times> kernel" where
  "ponter_move_int sz physaddr align k =
     (let k1 = (if align = 1 \<and> kernel_pointer k AND 0xFFFFF000 \<noteq> 0
                then k\<lparr>kernel_pointer := (kernel_pointer k AND 0xFFFFF000) + PAGE_SIZE_HEX\<rparr> else k);
        k2 = (if physaddr \<noteq> 0 then upd_kmem (\<lambda>m. store32 m physaddr (kernel_pointer k1)) k1 else k1);
        i = kernel_pointer k2
      in (i, k2\<lparr>kernel_pointer := kernel_pointer k2 + sz\<rparr>))"

section \<open>Tables and directories\<close>

text \<open>\<open>for(i = 0; i < 1024; i++) base[i] = f(i, base[i])\<close>\<close>

definition fill_entries :: "(nat \<Rightarrow> u32 \<Rightarrow> u32) \<Rightarrow> u32 \<Rightarrow> mem \<Rightarrow> mem" where
  "fill_entries f base m =
     fold (\<lambda>i m. store32 m (base + 4 * of_nat i) (f i (load32 m (base + 4 * of_nat i)))) [0..<ENTRY_SIZE_DEC] m"

text \<open>The third argument of \<open>memset\<close> is \<open>table + PAGE_SIZE_HEX\<close>, a pointer to 32-bit words, taken as a size.\<close>

definition table_create :: "u32 \<Rightarrow> kernel \<Rightarrow> (u32 \<times> kernel) option" where
  "table_create flags k = do {
     (table, k1) \<leftarrow> frame_alloc k;
     if table = 0 then Some (0, k1)
     else if paging_state k1 = 0
     then Some (table, upd_kmem (fill_entries (\<lambda>i _. (of_nat i * PAGE_SIZE_HEX) OR 3) table) k1)
     else
       (let k2 = upd_kmem (\<lambda>m. fst (memset m table 0 (table + 4 * PAGE_SIZE_HEX))) k1;
          k3 = (if flags \<noteq> 0 then upd_kmem (fill_entries (\<lambda>_ e. e OR flags) table) k2 else k2)
        in Some (table, k3))
   }"

definition table_map :: "u32 \<Rightarrow> u32 \<Rightarrow> u32 \<Rightarrow> u32 \<Rightarrow> kernel \<Rightarrow> kernel" where
  "table_map directory pdindex table_addr flags k =
     upd_kmem (\<lambda>m. store32 m (directory + 4 * pdindex) (table_addr OR flags)) k"

definition table_unmap :: "u32 \<Rightarrow> u32 \<Rightarrow> kernel \<Rightarrow> kernel" where
  "table_unmap directory pdindex k = upd_kmem (\<lambda>m. store32 m (directory + 4 * pdindex) 0) k"

definition table_remove :: "u32 \<Rightarrow> kernel \<Rightarrow> kernel" where
  "table_remove table_addr k = frame_free table_addr k"

definition table_copy :: "u32 \<Rightarrow> u32 \<Rightarrow> kernel \<Rightarrow> u32 \<times> kernel" where
  "table_copy table copy k =
     (copy, upd_kmem (fold (\<lambda>i m. store32 m (copy + 4 * of_nat i) (load32 m (table + 4 * of_nat i)))
        [0..<ENTRY_SIZE_DEC]) k)"

definition directory_get :: "kernel \<Rightarrow> u32" where
  "directory_get k = cr3 k"

definition directory_create :: "u32 \<Rightarrow> kernel \<Rightarrow> (u32 \<times> kernel) option" where
  "directory_create flags k = do {
     (directory, k1) \<leftarrow> frame_alloc k;
     if directory = 0 then Some (0, k1)
     else Some (directory, upd_kmem (fill_entries (\<lambda>_ _. flags) directory) k1)
   }"

definition directory_remove :: "u32 \<Rightarrow> kernel \<Rightarrow> kernel" where
  "directory_remove directory_addr k = frame_free directory_addr k"

fun directory_copy_loop :: "u32 \<Rightarrow> nat list \<Rightarrow> kernel \<Rightarrow> kernel option" where
  "directory_copy_loop directory [] k = Some k"
| "directory_copy_loop directory (i # is) k =
     (let e = load32 (kmem k) (directory + 4 * of_nat i)
      in if e AND USED \<noteq> 0
         then do {
           (frame, k1) \<leftarrow> frame_alloc k;
           directory_copy_loop directory is (snd (table_copy (e AND NOT 0xFFF) frame k1))
         }
         else directory_copy_loop directory is k)"

definition directory_copy :: "u32 \<Rightarrow> u32 \<Rightarrow> kernel \<Rightarrow> (u32 \<times> kernel) option" where
  "directory_copy directory copy k =
     map_option (Pair copy) (directory_copy_loop directory [0..<ENTRY_SIZE_DEC] k)"

definition directory_load :: "u32 \<Rightarrow> kernel \<Rightarrow> kernel" where
  "directory_load addr k = k\<lparr>cr3 := addr\<rparr>"

definition paging_enable :: "kernel \<Rightarrow> kernel" where
  "paging_enable k = k\<lparr>cr0 := cr0 k OR 0x80000000\<rparr>"

definition page_getsize :: u32 where
  "page_getsize = PAGE_SIZE_HEX"

section \<open>Pages\<close>

definition page_dir_of :: "u32 \<Rightarrow> kernel \<Rightarrow> u32" where
  "page_dir_of page_dir k = (if page_dir \<noteq> 0 then page_dir else directory_get k)"

definition page_map :: "u32 \<Rightarrow> u32 \<Rightarrow> u32 \<Rightarrow> u32 \<Rightarrow> kernel \<Rightarrow> (u32 \<times> kernel) option" where
  "page_map physaddr virtualaddr flags page_dir k =
     (if virtualaddr AND 0xFFF \<noteq> 0 \<or> physaddr AND 0xFFF \<noteq> 0 then Some (0, k)
      else
        (let pd = page_dir_of page_dir k; pdindex = DIR_GET virtualaddr
         in do {
           k1 \<leftarrow> (if load32 (kmem k) (pd + 4 * pdindex) AND USED \<noteq> USED
                  then do { (page_table, k0) \<leftarrow> table_create 3 k; Some (table_map pd pdindex page_table 3 k0) }
                  else Some k);
           let pt = PHY_GET (load32 (kmem k1) (pd + 4 * pdindex));
           let ptindex = TLB_GET virtualaddr;
           Some (virtualaddr, upd_kmem (\<lambda>m. store32 m (pt + 4 * ptindex) (physaddr OR flags OR USED)) k1)
         }))"

definition page_unmap :: "u32 \<Rightarrow> u32 \<Rightarrow> kernel \<Rightarrow> int \<times> kernel" where
  "page_unmap virtualaddr page_dir k =
     (if virtualaddr AND 0xFFF \<noteq> 0 then (0, k)
      else
        (let pd = page_dir_of page_dir k; pdindex = DIR_GET virtualaddr
         in if load32 (kmem k) (pd + 4 * pdindex) AND USED \<noteq> USED then (1, k)
            else
              (let pt = PHY_GET (load32 (kmem k) (pd + 4 * pdindex)); ptindex = TLB_GET virtualaddr
               in (1, upd_kmem (\<lambda>m. store32 m (pt + 4 * ptindex) (load32 m (pt + 4 * ptindex) AND 0)) k))))"

definition page_physaddr :: "u32 \<Rightarrow> u32 \<Rightarrow> kernel \<Rightarrow> u32" where
  "page_physaddr virtualaddr page_dir k =
     (if virtualaddr AND 0xFFF \<noteq> 0 then 0
      else
        (let pd = page_dir_of page_dir k; pdindex = DIR_GET virtualaddr
         in if load32 (kmem k) (pd + 4 * pdindex) AND USED \<noteq> USED then 0
            else
              (let pt = PHY_GET (load32 (kmem k) (pd + 4 * pdindex)); ptindex = TLB_GET virtualaddr
               in if load32 (kmem k) (pt + 4 * ptindex) AND USED \<noteq> USED then 0
                  else (load32 (kmem k) (pt + 4 * ptindex) AND NOT 0xFFF) + (virtualaddr AND 0xFFF))))"

section \<open>Addresses\<close>

lemma mask_numerals: "(0xfff :: u32) = mask 12" "(0x3ff :: u32) = mask 10"
  by (simp_all add: mask_eq_exp_minus_1)

lemma page_eq_iff:
  "DIR_GET v = DIR_GET w \<and> TLB_GET v = TLB_GET w \<longleftrightarrow> drop_bit 12 v = drop_bit 12 w"
proof
  assume a: "DIR_GET v = DIR_GET w \<and> TLB_GET v = TLB_GET w"
  show "drop_bit 12 v = drop_bit 12 w"
  proof (rule bit_word_eqI)
    fix n assume n: "n < LENGTH(32)"
    have d: "bit (DIR_GET v) (n - 10) = bit (DIR_GET w) (n - 10)" and t: "bit (TLB_GET v) n = bit (TLB_GET w) n"
      using a by simp_all
    show "bit (drop_bit 12 v) n = bit (drop_bit 12 w) n"
    proof (cases "n < 10")
      case True
      then show ?thesis using t by (simp add: TLB_GET_def mask_numerals bit_simps)
    next
      case False
      then show ?thesis using d by (auto simp: DIR_GET_def mask_numerals bit_simps dest: bit_imp_le_length)
    qed
  qed
next
  assume "drop_bit 12 v = drop_bit 12 w"
  moreover have "DIR_GET v = drop_bit 10 (drop_bit 12 v) AND 0x3ff" for v by (simp add: DIR_GET_def)
  ultimately show "DIR_GET v = DIR_GET w \<and> TLB_GET v = TLB_GET w" by (metis TLB_GET_def)
qed

lemma index_bound: "unat (DIR_GET v) < 1024" "unat (TLB_GET v) < 1024"
proof -
  have "unat (w AND 0x3ff) < 1024" for w :: u32
    using word_and_le1 [of w "0x3ff"] by (simp add: word_le_nat_alt)
  then show "unat (DIR_GET v) < 1024" "unat (TLB_GET v) < 1024" by (simp_all add: DIR_GET_def TLB_GET_def)
qed

lemma aligned_frame:
  fixes p flags :: u32
  assumes "p AND 0xFFF = 0" "flags AND NOT 0xFFF = 0"
  shows "(p OR flags OR 1) AND NOT 0xFFF = p" "(p OR flags OR 1) AND 1 = 1"
proof -
  have "p AND NOT 0xFFF = p"
  proof -
    have "p = (p AND 0xFFF) OR (p AND NOT 0xFFF)" by (simp add: bit.conj_disj_distrib [symmetric])
    then show ?thesis using assms(1) by simp
  qed
  moreover have "(1 :: u32) AND NOT 0xFFF = 0" by simp
  ultimately show "(p OR flags OR 1) AND NOT 0xFFF = p"
    using assms(2) by (simp add: bit.conj_disj_distrib2)
  show "(p OR flags OR 1) AND 1 = 1"
    by (rule bit_word_eqI) (auto simp: bit_simps)
qed

lemma entry_disj:
  assumes "unat i < 1024" "unat j < 1024" "i \<noteq> j"
  shows "disj (b + 4 * i) 4 (b + 4 * j :: u32) 4"
proof -
  have u: "unat (4 * i) = 4 * unat i" "unat (4 * j) = 4 * unat j" using assms by (simp_all add: unat_word_ariths)
  have "unat i \<noteq> unat j" using assms(3) by (simp add: word_unat_eq_iff)
  then have "4 \<le> unat (4 * j - 4 * i)" "4 \<le> unat (4 * i - 4 * j)"
    using assms(1,2) by (auto simp: unat_sub_if' u)
  then show ?thesis by (simp add: disj_def)
qed

lemma entry_page_disj:
  assumes "disj b 4096 c 4096" "unat i < 1024" "unat j < 1024"
  shows "disj (b + 4 * i) 4 (c + 4 * j) 4"
  by (rule disj_sub [OF assms(1)]) (use assms(2,3) in \<open>simp_all add: unat_word_ariths\<close>)

section \<open>The walk of the processor\<close>

definition pde :: "mem \<Rightarrow> u32 \<Rightarrow> u32 \<Rightarrow> u32" where
  "pde m pd v = load32 m (pd + 4 * DIR_GET v)"

definition pte :: "mem \<Rightarrow> u32 \<Rightarrow> u32 \<Rightarrow> u32" where
  "pte m pt v = load32 m (pt + 4 * TLB_GET v)"

text \<open>Two levels, bit 0 of an entry says that it is present, the low 12 bits are the offset.\<close>

definition walk :: "mem \<Rightarrow> u32 \<Rightarrow> u32 \<Rightarrow> u32 option" where
  "walk m pd v =
     (if pde m pd v AND 1 = 0 then None
      else
        (let e = pte m (pde m pd v AND NOT 0xFFF) v
         in if e AND 1 = 0 then None else Some ((e AND NOT 0xFFF) + (v AND 0xFFF))))"

text \<open>The tables of a directory overlap neither the directory nor one another.\<close>

definition dir_ok :: "mem \<Rightarrow> u32 \<Rightarrow> bool" where
  "dir_ok m pd \<longleftrightarrow>
     (\<forall>v. pde m pd v AND 1 = 1 \<longrightarrow> disj (PHY_GET (pde m pd v)) 4096 pd 4096) \<and>
     (\<forall>v w. pde m pd v AND 1 = 1 \<longrightarrow> pde m pd w AND 1 = 1 \<longrightarrow> DIR_GET v \<noteq> DIR_GET w \<longrightarrow>
        disj (PHY_GET (pde m pd v)) 4096 (PHY_GET (pde m pd w)) 4096)"

lemma and_one: "(x :: u32) AND 1 = 0 \<or> x AND 1 = 1"
  by (metis and_one_eq parity_cases)

text \<open>Writing an entry of a table of the directory.\<close>

lemma write_pte:
  assumes ok: "dir_ok m pd" and v: "pde m pd v AND 1 = 1"
    and m': "m' = store32 m (PHY_GET (pde m pd v) + 4 * TLB_GET v) e"
  shows "pde m' pd w = pde m pd w"
    and "pde m pd w AND 1 = 1 \<Longrightarrow> pte m' (PHY_GET (pde m pd w)) w =
      (if drop_bit 12 w = drop_bit 12 v then e else pte m (PHY_GET (pde m pd w)) w)"
proof -
  have "disj (PHY_GET (pde m pd v)) 4096 pd 4096" using ok v by (simp add: dir_ok_def)
  then have "load32 m' (pd + 4 * DIR_GET w) = load32 m (pd + 4 * DIR_GET w)"
    unfolding m' using index_bound by (intro load32_store32_disj entry_page_disj)
  then show "pde m' pd w = pde m pd w" by (simp only: pde_def)
  assume w: "pde m pd w AND 1 = 1"
  consider "drop_bit 12 w = drop_bit 12 v" | "DIR_GET w \<noteq> DIR_GET v" | "DIR_GET w = DIR_GET v" "TLB_GET w \<noteq> TLB_GET v"
    using page_eq_iff by metis
  then show "pte m' (PHY_GET (pde m pd w)) w =
      (if drop_bit 12 w = drop_bit 12 v then e else pte m (PHY_GET (pde m pd w)) w)"
  proof cases
    case 1
    then have "DIR_GET w = DIR_GET v" "TLB_GET w = TLB_GET v" using page_eq_iff by blast+
    then show ?thesis using 1 by (simp add: pte_def m' pde_def)
  next
    case 2
    then have "disj (PHY_GET (pde m pd v)) 4096 (PHY_GET (pde m pd w)) 4096" using ok v w by (auto simp: dir_ok_def)
    then have "load32 m' (PHY_GET (pde m pd w) + 4 * TLB_GET w) = load32 m (PHY_GET (pde m pd w) + 4 * TLB_GET w)"
      unfolding m' using index_bound by (intro load32_store32_disj entry_page_disj)
    then show ?thesis using 2 page_eq_iff [of w v] by (auto simp: pte_def)
  next
    case 3
    then have "pde m pd w = pde m pd v" by (simp add: pde_def)
    moreover have "load32 m' (PHY_GET (pde m pd v) + 4 * TLB_GET w) = load32 m (PHY_GET (pde m pd v) + 4 * TLB_GET w)"
      unfolding m' using 3 index_bound by (intro load32_store32_disj entry_disj) auto
    ultimately show ?thesis using 3 page_eq_iff [of w v] by (auto simp: pte_def)
  qed
qed

lemma dir_ok_write_pte:
  assumes "dir_ok m pd" "pde m pd v AND 1 = 1"
  shows "dir_ok (store32 m (PHY_GET (pde m pd v) + 4 * TLB_GET v) e) pd"
  using assms(1) unfolding dir_ok_def write_pte(1) [OF assms refl] .

lemma walk_write_pte:
  assumes ok: "dir_ok m pd" and v: "pde m pd v AND 1 = 1"
    and m': "m' = store32 m (PHY_GET (pde m pd v) + 4 * TLB_GET v) e"
  shows "walk m' pd w = (if drop_bit 12 w = drop_bit 12 v
     then if e AND 1 = 0 then None else Some ((e AND NOT 0xFFF) + (w AND 0xFFF)) else walk m pd w)"
proof (cases "pde m pd w AND 1 = 1")
  case True
  then show ?thesis
    using write_pte [OF assms, of w] unfolding walk_def by (auto simp: PHY_GET_def Let_def)
next
  case False
  then have w: "pde m pd w AND 1 = 0" using and_one by blast
  then have "drop_bit 12 w \<noteq> drop_bit 12 v" using v page_eq_iff [of w v] by (auto simp: pde_def)
  then show ?thesis using w write_pte(1) [OF assms, of w] by (simp add: walk_def)
qed

section \<open>Properties of the page operations\<close>

lemma upd_kmem_simps [simp]:
  "kmem (upd_kmem f k) = f (kmem k)" "cr0 (upd_kmem f k) = cr0 k" "cr3 (upd_kmem f k) = cr3 k"
  "kernel_pointer (upd_kmem f k) = kernel_pointer k" "frame_bitmap (upd_kmem f k) = frame_bitmap k"
  "kernel_heap (upd_kmem f k) = kernel_heap k" "paging_state (upd_kmem f k) = paging_state k"
  "console (upd_kmem f k) = console k"
  by (simp_all add: upd_kmem_def)

text \<open>A directory at \<open>0x1000\<close> whose first table, at \<open>0x2000\<close>, maps nothing yet; no other table.\<close>

definition sample_paging :: kernel where
  "sample_paging = \<lparr>kmem = (\<lambda>_. 0)(0x1000 := 3, 0x1001 := 0x20), cr0 = 0, cr3 = 0x1000, kernel_pointer = 0x8000,
     frame_bitmap = 0, kernel_heap = 0, paging_state = 1, isr_routine = (\<lambda>_. 0), console = []\<rparr>"

lemma sample_paging_pde: "pde (kmem sample_paging) 0x1000 v = (if DIR_GET v = 0 then 0x2003 else 0)"
proof (cases "DIR_GET v = 0")
  case True
  then show ?thesis by (simp add: pde_def sample_paging_def load32_def)
next
  case False
  have "load32 ((\<lambda>_. 0)(0x1000 := 3, 0x1001 := 0x20)) (0x1000 + 4 * DIR_GET v) = load32 (\<lambda>_. 0) (0x1000 + 4 * DIR_GET v)"
  proof (rule load32_cong)
    fix x :: u32 assume x: "in_rng (0x1000 + 4 * DIR_GET v) 4 x"
    have "disj (0x1000 + 4 * DIR_GET v) 4 (0x1000 + 4 * 0) 4"
      using False index_bound by (intro entry_disj) auto
    then have "\<not> in_rng 0x1000 4 x" using disjD x by fastforce
    then show "((\<lambda>_. 0)(0x1000 := 3, 0x1001 := 0x20)) x = (0 :: u8)" by (auto simp: in_rng_def)
  qed
  then show ?thesis using False by (simp add: pde_def sample_paging_def load32_def)
qed

lemma sample_paging_ok: "dir_ok (kmem sample_paging) 0x1000"
  by (auto simp: dir_ok_def sample_paging_pde PHY_GET_def disj_def split: if_splits)

lemma sample_paging_dir: "page_dir_of 0 sample_paging = 0x1000"
  by (simp add: page_dir_of_def directory_get_def sample_paging_def)



text \<open>
  C10: \<open>page_unmap\<close> of an aligned page makes every address of the page fault and leaves the translation of
  every other address as it was, whether or not the page has a table.
\<close>

theorem page_unmap_correct:
  assumes "pd = page_dir_of page_dir k" and "dir_ok (kmem k) pd" and "v AND 0xFFF = 0"
  shows "fst (page_unmap v page_dir k) = 1 \<and> dir_ok (kmem (snd (page_unmap v page_dir k))) pd \<and>
     (\<forall>w. walk (kmem (snd (page_unmap v page_dir k))) pd w =
        (if drop_bit 12 w = drop_bit 12 v then None else walk (kmem k) pd w))"
proof (cases "pde (kmem k) pd v AND 1 = 1")
  case True
  let ?m = "store32 (kmem k) (PHY_GET (pde (kmem k) pd v) + 4 * TLB_GET v) 0"
  have "page_unmap v page_dir k = (1, upd_kmem (\<lambda>_. ?m) k)"
    using True assms(3) unfolding page_unmap_def Let_def USED_def assms(1) [symmetric] pde_def [symmetric]
    by (simp add: upd_kmem_def)
  then show ?thesis using dir_ok_write_pte [OF assms(2) True] walk_write_pte [OF assms(2) True refl] by simp
next
  case False
  then have v: "pde (kmem k) pd v AND 1 = 0" using and_one by blast
  have "walk (kmem k) pd w = None" if "drop_bit 12 w = drop_bit 12 v" for w
  proof -
    have "pde (kmem k) pd w = pde (kmem k) pd v" using that page_eq_iff [of w v] by (simp add: pde_def)
    then show ?thesis using v by (simp add: walk_def)
  qed
  moreover have "page_unmap v page_dir k = (1, k)"
    using False assms(3) unfolding page_unmap_def Let_def USED_def assms(1) [symmetric] pde_def [symmetric] by simp
  ultimately show ?thesis using assms(2) by simp
qed

theorem page_unmap_correct_witness:
  "dir_ok (kmem sample_paging) 0x1000 \<and> walk (kmem (snd (page_unmap 0x5000 0 sample_paging))) 0x1000 0x5123 = None"
  using page_unmap_correct [OF sample_paging_dir [symmetric] sample_paging_ok, of "0x5000"] sample_paging_ok by simp


end
