(* ===== verification/Multiboot.thy ===== *)
theory Multiboot
  imports Printf_Text Paging
begin

text \<open>
  \<^verbatim>\<open>kernel/include/kernel/multiboot.h\<close>: the record the boot loader leaves, and \<open>multiboot_print\<close>, which shows it, finds the modules the
  boot loader loaded and moves the end of the kernel past them.  \<open>lit\<close> is the address at which the program keeps a string literal.
  The memory that is read is the one the screen lies in; of the memory manager only the end of the kernel is touched.
\<close>

section \<open>The record of the boot loader\<close>

record multiboot =
  mb_flags :: u32
  mb_mem_lower :: u32
  mb_mem_upper :: u32
  mb_boot_device :: u32
  mb_cmdline :: u32
  mb_mods_count :: u32
  mb_mods_addr :: u32
  mb_num :: u32
  mb_size :: u32
  mb_addr :: u32
  mb_shndx :: u32
  mb_mmap_length :: u32
  mb_mmap_addr :: u32
  mb_drives_length :: u32
  mb_drives_addr :: u32
  mb_config_table :: u32
  mb_boot_loader_name :: u32
  mb_apm_table :: u32
  mb_vbe_control_info :: u32
  mb_vbe_mode_info :: u32
  mb_vbe_mode :: u32
  mb_vbe_interface_seg :: u32
  mb_vbe_interface_off :: u32
  mb_vbe_interface_len :: u32

definition multiboot_at :: "mem \<Rightarrow> u32 \<Rightarrow> multiboot" where
  "multiboot_at m p = \<lparr>mb_flags = load32 m p, mb_mem_lower = load32 m (p + 4), mb_mem_upper = load32 m (p + 8),
     mb_boot_device = load32 m (p + 12), mb_cmdline = load32 m (p + 16), mb_mods_count = load32 m (p + 20),
     mb_mods_addr = load32 m (p + 24), mb_num = load32 m (p + 28), mb_size = load32 m (p + 32), mb_addr = load32 m (p + 36),
     mb_shndx = load32 m (p + 40), mb_mmap_length = load32 m (p + 44), mb_mmap_addr = load32 m (p + 48),
     mb_drives_length = load32 m (p + 52), mb_drives_addr = load32 m (p + 56), mb_config_table = load32 m (p + 60),
     mb_boot_loader_name = load32 m (p + 64), mb_apm_table = load32 m (p + 68), mb_vbe_control_info = load32 m (p + 72),
     mb_vbe_mode_info = load32 m (p + 76), mb_vbe_mode = load32 m (p + 80), mb_vbe_interface_seg = load32 m (p + 84),
     mb_vbe_interface_off = load32 m (p + 88), mb_vbe_interface_len = load32 m (p + 92)\<rparr>"

section \<open>Showing it\<close>

record boot_console =
  mb_screen :: terminal
  mb_kernel :: kernel
  module_start :: u32

abbreviation mb_memory :: "boot_console \<Rightarrow> mem" where "mb_memory s \<equiv> tmem (mb_screen s)"

definition mb_printf :: "(string \<Rightarrow> u32) \<Rightarrow> string \<Rightarrow> u32 list \<Rightarrow> boot_console \<Rightarrow> boot_console option" where
  "mb_printf lit format args s = do { (_, t) \<leftarrow> kprintf (lit format) args (mb_screen s); Some (s\<lparr>mb_screen := t\<rparr>) }"

text \<open>The calls of \<open>printf\<close> that show the members of the record, in the order of the code.\<close>

definition header_prints :: "(string \<times> (multiboot \<Rightarrow> u32)) list" where
  "header_prints =
    [(''Flags : 0x%x '', mb_flags), (''Mem Lo: 0x%x '', mb_mem_lower), (''Mem Hi: 0x%x '', mb_mem_upper),
     (''Boot d: 0x%x\<newline>'', mb_boot_device), (''cmdlin: 0x%x '', mb_cmdline), (''Mods : 0x%x '', mb_mods_count),
     (''Addr : 0x%x '', mb_mods_addr), (''Syms : 0x%x\<newline>'', mb_num), (''Syms : 0x%x '', mb_size), (''Syms : 0x%x '', mb_addr),
     (''Syms : 0x%x '', mb_shndx), (''MMap : 0x%x\<newline>'', mb_mmap_length), (''Addr : 0x%x '', mb_mmap_addr),
     (''Drives: 0x%x '', mb_drives_length), (''Addr : 0x%x '', mb_drives_addr), (''Config: 0x%x\<newline>'', mb_config_table),
     (''Loader: 0x%x '', mb_boot_loader_name), (''APM : 0x%x '', mb_apm_table), (''VBE Co: 0x%x '', mb_vbe_control_info),
     (''VBE Mo: 0x%x\<newline>'', mb_vbe_mode_info), (''VBE In: 0x%x '', mb_vbe_mode), (''VBE se: 0x%x '', mb_vbe_interface_seg),
     (''VBE of: 0x%x '', mb_vbe_interface_off), (''VBE le: 0x%x\<newline>'', mb_vbe_interface_len)]"

fun print_header :: "(string \<Rightarrow> u32) \<Rightarrow> u32 \<Rightarrow> (string \<times> (multiboot \<Rightarrow> u32)) list \<Rightarrow> boot_console \<Rightarrow> boot_console option" where
  "print_header lit p [] s = Some s"
| "print_header lit p ((format, member) # ps) s = do {
     s \<leftarrow> mb_printf lit format [member (multiboot_at (mb_memory s) p)] s;
     print_header lit p ps s
   }"

text \<open>The start of module \<open>i\<close> is read through a pointer to words, 32 bytes further for every module; its end 8 bytes further.\<close>

partial_function (option) module_loop :: "(string \<Rightarrow> u32) \<Rightarrow> u32 \<Rightarrow> u32 \<Rightarrow> boot_console \<Rightarrow> boot_console option" where
  "module_loop lit p i s =
     (let mb = multiboot_at (mb_memory s) p in
      if i < mb_mods_count mb then do {
        let start = load32 (mb_memory s) (mb_mods_addr mb + 4 * (8 * i));
        let module_end = load32 (mb_memory s) (mb_mods_addr mb + 8 * i + 4);
        let s = s\<lparr>module_start := start, mb_kernel := snd (ponter_move_int (module_end - start) 0 0 (mb_kernel s))\<rparr>;
        s \<leftarrow> mb_printf lit ''Module %d is at 0x%x:0x%x\<newline>'' [i + 1, start, module_end] s;
        module_loop lit p (i + 1) s
      }
      else Some s)"

declare module_loop.simps [code]

definition multiboot_print :: "(string \<Rightarrow> u32) \<Rightarrow> u32 \<Rightarrow> boot_console \<Rightarrow> boot_console option" where
  "multiboot_print lit p s = (let mb = (\<lambda>s. multiboot_at (mb_memory s) p) in do {
     s \<leftarrow> mb_printf lit ''MULTIBOOT header at 0x%x:\<newline>'' [p] s;
     s \<leftarrow> print_header lit p header_prints s;
     s \<leftarrow> (if bit (mb_flags (mb s)) 2 then mb_printf lit ''Started with: %s\<newline>'' [mb_cmdline (mb s)] s else Some s);
     s \<leftarrow> (if bit (mb_flags (mb s)) 9 then mb_printf lit ''Booted from: %s\<newline>'' [mb_boot_loader_name (mb s)] s else Some s);
     s \<leftarrow> (if bit (mb_flags (mb s)) 0 then do {
         s \<leftarrow> mb_printf lit ''%dkB lower memory\<newline>'' [mb_mem_lower (mb s)] s;
         s \<leftarrow> mb_printf lit ''%dkB higher memory '' [mb_mem_upper (mb s)] s;
         mb_printf lit ''(%dMB)\<newline>'' [mb_mem_upper (mb s) div 1024] s
       } else Some s);
     if bit (mb_flags (mb s)) 3 then do {
       s \<leftarrow> mb_printf lit ''Found %d module(s).\<newline>'' [mb_mods_count (mb s)] s;
       if 0 < mb_mods_count (mb s) then module_loop lit p 0 s else Some s
     } else Some s
   })"

section \<open>What it shows\<close>

definition multiboot_literals :: "string list" where
  "multiboot_literals = ''MULTIBOOT header at 0x%x:\<newline>'' # map fst header_prints @ [''Started with: %s\<newline>'', ''Booted from: %s\<newline>'',
     ''%dkB lower memory\<newline>'', ''%dkB higher memory '', ''(%dMB)\<newline>'', ''Found %d module(s).\<newline>'', ''Module %d is at 0x%x:0x%x\<newline>'']"

definition module_entry :: "mem \<Rightarrow> multiboot \<Rightarrow> nat \<Rightarrow> u32 \<times> u32" where
  "module_entry m mb i = (load32 m (mb_mods_addr mb + 32 * of_nat i), load32 m (mb_mods_addr mb + 8 * of_nat i + 4))"

definition module_line :: "mem \<Rightarrow> multiboot \<Rightarrow> nat \<Rightarrow> line" where
  "module_line m mb i = (let (start, module_end) = module_entry m mb i in
     (''Module %d is at 0x%x:0x%x\<newline>'', [Num (of_nat i + 1), Num start, Num module_end]))"

text \<open>The lines for a record at \<open>p\<close>, with the texts of the command line and of the name of the boot loader.\<close>

definition multiboot_lines :: "mem \<Rightarrow> u32 \<Rightarrow> u8 list \<Rightarrow> u8 list \<Rightarrow> line list" where
  "multiboot_lines m p cmdline loader = (let mb = multiboot_at m p in
     (''MULTIBOOT header at 0x%x:\<newline>'', [Num p]) # map (\<lambda>(format, member). (format, [Num (member mb)])) header_prints @
     (if bit (mb_flags mb) 2 then [(''Started with: %s\<newline>'', [Str (mb_cmdline mb) cmdline])] else []) @
     (if bit (mb_flags mb) 9 then [(''Booted from: %s\<newline>'', [Str (mb_boot_loader_name mb) loader])] else []) @
     (if bit (mb_flags mb) 0 then [(''%dkB lower memory\<newline>'', [Num (mb_mem_lower mb)]),
        (''%dkB higher memory '', [Num (mb_mem_upper mb)]), (''(%dMB)\<newline>'', [Num (mb_mem_upper mb div 1024)])] else []) @
     (if bit (mb_flags mb) 3 then (''Found %d module(s).\<newline>'', [Num (mb_mods_count mb)]) #
        map (module_line m mb) [0..<unat (mb_mods_count mb)] else []))"

text \<open>
  The literals are in memory, and no part of what is read lies on the screen.
\<close>

definition multiboot_ready :: "(string \<Rightarrow> u32) \<Rightarrow> u32 \<Rightarrow> u8 list \<Rightarrow> u8 list \<Rightarrow> mem \<Rightarrow> bool" where
  "multiboot_ready lit p cmdline loader m \<longleftrightarrow> (let mb = multiboot_at m p in
     list_all (\<lambda>f. string_at m (lit f) (chars f)) multiboot_literals \<and> off_screen p 96 \<and>
     (bit (mb_flags mb) 2 \<longrightarrow> string_at m (mb_cmdline mb) cmdline) \<and>
     (bit (mb_flags mb) 9 \<longrightarrow> string_at m (mb_boot_loader_name mb) loader) \<and>
     (bit (mb_flags mb) 3 \<longrightarrow> (\<forall>i < unat (mb_mods_count mb).
       off_screen (mb_mods_addr mb + 32 * of_nat i) 4 \<and> off_screen (mb_mods_addr mb + 8 * of_nat i + 4) 4)))"

section \<open>The lines reach the screen\<close>

lemma multiboot_off_screen:
  assumes "off_screen p 96" "\<forall>x. \<not> in_rng VGA_MEMORY 4000 x \<longrightarrow> m x = M x"
  shows "multiboot_at m p = multiboot_at M p"
proof -
  have "load32 m (p + of_nat k) = load32 M (p + of_nat k)" if "k + 4 \<le> 96" for k
    by (rule load32_off_screen [OF off_screen_part [OF assms(1) that] assms(2)])
  from this [of 0] this [of 4] this [of 8] this [of 12] this [of 16] this [of 20] this [of 24] this [of 28] this [of 32] this [of 36]
    this [of 40] this [of 44] this [of 48] this [of 52] this [of 56] this [of 60] this [of 64] this [of 68] this [of 72] this [of 76]
    this [of 80] this [of 84] this [of 88] this [of 92]
  show ?thesis by (simp add: multiboot_at_def)
qed

text \<open>The memory off the screen is \<open>M\<close>, the color is \<open>c\<close>.\<close>

definition mb_ok :: "mem \<Rightarrow> u8 \<Rightarrow> boot_console \<Rightarrow> bool" where
  "mb_ok M c s \<longleftrightarrow> terminal_ok (mb_screen s) \<and> terminal_color (mb_screen s) = c \<and> (\<forall>x. \<not> in_rng VGA_MEMORY 4000 x \<longrightarrow> mb_memory s x = M x)"

text \<open>\<open>s'\<close> has the lines on the screen.\<close>

definition shown :: "mem \<Rightarrow> u8 \<Rightarrow> line list \<Rightarrow> boot_console \<Rightarrow> boot_console \<Rightarrow> bool" where
  "shown M c ls s s' \<longleftrightarrow> mb_ok M c s' \<and> screen_of (mb_screen s') = fold (screen_putchar c) (lines_text ls) (screen_of (mb_screen s))"

lemma shown_nil: "mb_ok M c s \<Longrightarrow> shown M c [] s s"
  by (simp add: shown_def lines_text_def)

lemma shown_append: "shown M c ls s s' \<Longrightarrow> shown M c ls' s' s'' \<Longrightarrow> shown M c (ls @ ls') s s''"
  by (simp add: shown_def lines_text_def)

lemma shown_cons: "shown M c [l] s s' \<Longrightarrow> shown M c ls s' s'' \<Longrightarrow> shown M c (l # ls) s s''"
  using shown_append [of M c "[l]"] by simp

lemma shown_other: "mb_screen s = mb_screen s0 \<Longrightarrow> shown M c ls s s' \<Longrightarrow> shown M c ls s0 s'"
  by (simp add: shown_def)

fun parg_at :: "mem \<Rightarrow> parg \<Rightarrow> bool" where
  "parg_at M (Num v) = True"
| "parg_at M (Str p s) = string_at M p s"

text \<open>One call of \<open>printf\<close>.\<close>

lemma mb_printf_shown:
  assumes s: "mb_ok M c s" and f: "string_at M (lit f) (chars f)" "fits (chars f) args" "\<forall>a \<in> set args. parg_at M a"
  obtains s' where "mb_printf lit f (map parg_word args) s = Some s'" "shown M c [(f, args)] s s'"
    "mb_kernel s' = mb_kernel s" "module_start s' = module_start s"
proof -
  have m: "\<forall>x. \<not> in_rng VGA_MEMORY 4000 x \<longrightarrow> mb_memory s x = M x" using s by (simp add: mb_ok_def)
  have "parg_ok (mb_memory s) a" if "a \<in> set args" for a
    using f(3) that cstr_off_screen [OF _ m] by (cases a) (auto simp: string_at_def)
  moreover have "cstr (mb_memory s) (lit f) (chars f)" "8 \<notin> set (chars f)" using f(1) cstr_off_screen [OF _ m] by (auto simp: string_at_def)
  ultimately obtain n t' where t: "kprintf (lit f) (map parg_word args) (mb_screen s) = Some (n, t')"
    "video_step (fold (screen_putchar c) (expand (chars f) args)) (mb_screen s) t'"
    using kprintf_expand [of "mb_screen s" "lit f" "chars f" args] s f(2) unfolding mb_ok_def by metis
  then show thesis using that [of "s\<lparr>mb_screen := t'\<rparr>"] s by (simp add: mb_printf_def shown_def mb_ok_def video_step_def lines_text_def)
qed

lemma literals_fit:
  "list_all (\<lambda>(f, _). fits (chars f) [Num v]) header_prints" "fits (chars ''MULTIBOOT header at 0x%x:\<newline>'') [Num v]"
  "fits (chars ''Started with: %s\<newline>'') [Str p t]" "fits (chars ''Booted from: %s\<newline>'') [Str p t]"
  "fits (chars ''%dkB lower memory\<newline>'') [Num v]" "fits (chars ''%dkB higher memory '') [Num v]" "fits (chars ''(%dMB)\<newline>'') [Num v]"
  "fits (chars ''Found %d module(s).\<newline>'') [Num v]" "fits (chars ''Module %d is at 0x%x:0x%x\<newline>'') [Num v, Num u, Num w]"
  by (simp_all add: chars_def header_prints_def)

lemma print_header_shown:
  assumes "mb_ok M c s" "list_all (\<lambda>(f, _). string_at M (lit f) (chars f)) ps" "\<And>v. list_all (\<lambda>(f, _). fits (chars f) [Num v]) ps" "off_screen p 96"
  shows "\<exists>s'. print_header lit p ps s = Some s' \<and> shown M c (map (\<lambda>(f, member). (f, [Num (member (multiboot_at M p))])) ps) s s' \<and>
    mb_kernel s' = mb_kernel s \<and> module_start s' = module_start s"
  using assms(1-3)
proof (induction ps arbitrary: s)
  case Nil
  then show ?case by (simp add: shown_nil)
next
  case (Cons a ps)
  obtain f member where a: "a = (f, member)" by (cases a)
  let ?v = "member (multiboot_at M p)"
  have mb: "multiboot_at (mb_memory s) p = multiboot_at M p"
    using Cons.prems(1) by (intro multiboot_off_screen assms(4)) (simp add: mb_ok_def)
  obtain s1 where s1: "mb_printf lit f [?v] s = Some s1" "shown M c [(f, [Num ?v])] s s1" "mb_kernel s1 = mb_kernel s" "module_start s1 = module_start s"
  proof (rule mb_printf_shown [of M c s lit f "[Num ?v]"])
    show "mb_ok M c s" by (rule Cons.prems(1))
    show "string_at M (lit f) (chars f)" "fits (chars f) [Num ?v]" using Cons.prems(2) Cons.prems(3) [of ?v] a by simp_all
  qed simp_all
  then have "mb_ok M c s1" by (simp add: shown_def)
  from Cons.IH [OF this] Cons.prems(2,3) obtain s2 where s2: "print_header lit p ps s1 = Some s2"
    "shown M c (map (\<lambda>(f, member). (f, [Num (member (multiboot_at M p))])) ps) s1 s2" "mb_kernel s2 = mb_kernel s1" "module_start s2 = module_start s1"
    by (auto simp: list_all_iff)
  then show ?case using s1 a mb by (auto intro: shown_cons)
qed

text \<open>The modules: the start and the end of each, and the sum of the differences by which the end of the kernel moves.\<close>

definition modules_size :: "mem \<Rightarrow> multiboot \<Rightarrow> nat \<Rightarrow> u32" where
  "modules_size m mb n = (\<Sum>i < n. snd (module_entry m mb i) - fst (module_entry m mb i))"

lemma module_loop_shown:
  assumes "mb_ok M c s" "string_at M (lit ''Module %d is at 0x%x:0x%x\<newline>'') (chars ''Module %d is at 0x%x:0x%x\<newline>'')" "off_screen p 96"
    and "mb = multiboot_at M p" "n = unat (mb_mods_count mb)" "i \<le> n"
    and "\<forall>i < n. off_screen (mb_mods_addr mb + 32 * of_nat i) 4 \<and> off_screen (mb_mods_addr mb + 8 * of_nat i + 4) 4"
  shows "\<exists>s'. module_loop lit p (of_nat i) s = Some s' \<and> shown M c (map (module_line M mb) [i..<n]) s s' \<and>
    mb_kernel s' = (mb_kernel s)\<lparr>kernel_pointer := kernel_pointer (mb_kernel s) + (modules_size M mb n - modules_size M mb i)\<rparr> \<and>
    module_start s' = (if i < n then fst (module_entry M mb (n - 1)) else module_start s)"
  using assms(1,6)
proof (induction "n - i" arbitrary: i s)
  case 0
  then have "\<not> (of_nat i :: u32) < mb_mods_count mb" using assms(5) by (simp add: word_less_nat_alt)
  moreover have "multiboot_at (mb_memory s) p = mb"
    unfolding assms(4) using 0(2) by (intro multiboot_off_screen assms(3)) (simp add: mb_ok_def)
  ultimately show ?case using 0 by (subst module_loop.simps) (simp add: shown_nil)
next
  case (Suc k)
  have i: "i < n" using Suc.hyps(2) by simp
  have "n < 4294967296" unfolding assms(5) by (rule unat_u32_lt)
  then have ui: "unat (of_nat i :: u32) = i" using i by (intro unat_of_nat_u32) simp
  have mem: "\<forall>x. \<not> in_rng VGA_MEMORY 4000 x \<longrightarrow> mb_memory s x = M x" using Suc.prems(1) by (simp add: mb_ok_def)
  have mb: "multiboot_at (mb_memory s) p = mb" unfolding assms(4) by (rule multiboot_off_screen [OF assms(3) mem])
  let ?st = "fst (module_entry M mb i)" and ?en = "snd (module_entry M mb i)" and ?k = "mb_kernel s"
  have e: "load32 (mb_memory s) (mb_mods_addr mb + 4 * (8 * of_nat i)) = ?st" "load32 (mb_memory s) (mb_mods_addr mb + 8 * of_nat i + 4) = ?en"
    using assms(7) i by (simp_all add: module_entry_def load32_off_screen [OF _ mem])
  let ?s = "s\<lparr>module_start := ?st, mb_kernel := ?k\<lparr>kernel_pointer := kernel_pointer ?k + (?en - ?st)\<rparr>\<rparr>"
  have "mb_ok M c ?s" using Suc.prems(1) by (simp add: mb_ok_def)
  then obtain s1 where s1: "mb_printf lit ''Module %d is at 0x%x:0x%x\<newline>'' (map parg_word [Num (of_nat i + 1), Num ?st, Num ?en]) ?s = Some s1"
    "shown M c [(''Module %d is at 0x%x:0x%x\<newline>'', [Num (of_nat i + 1), Num ?st, Num ?en])] ?s s1" "mb_kernel s1 = mb_kernel ?s"
    "module_start s1 = module_start ?s"
    using literals_fit(9) assms(2)
    by (rule_tac mb_printf_shown [of M c ?s lit "''Module %d is at 0x%x:0x%x\<newline>''" "[Num (of_nat i + 1), Num ?st, Num ?en]"]) auto
  have l: "[(''Module %d is at 0x%x:0x%x\<newline>'', [Num (of_nat i + 1), Num ?st, Num ?en])] = map (module_line M mb) [i]"
    by (simp add: module_line_def split_beta)
  have k: "k = n - Suc i" using Suc.hyps(2) by simp
  have le: "Suc i \<le> n" using i by simp
  obtain s2 where s2: "module_loop lit p (of_nat (Suc i)) s1 = Some s2" "shown M c (map (module_line M mb) [Suc i..<n]) s1 s2"
    "mb_kernel s2 = (mb_kernel s1)\<lparr>kernel_pointer := kernel_pointer (mb_kernel s1) + (modules_size M mb n - modules_size M mb (Suc i))\<rparr>"
    "module_start s2 = (if Suc i < n then fst (module_entry M mb (n - 1)) else module_start s1)"
    using Suc.hyps(1) [OF k _ le, of s1] s1(2) by (auto simp: shown_def)
  have "of_nat i < mb_mods_count mb" using i ui assms(5) by (simp add: word_less_nat_alt)
  then have "module_loop lit p (of_nat i) s = Some s2"
    using s1(1) s2(1) by (subst module_loop.simps) (simp add: mb e [simplified] ponter_move_int_def Let_def add.commute [of 1])
  moreover have "shown M c (map (module_line M mb) [i..<n]) s s2"
    using shown_append [OF s1(2) s2(2)] i unfolding l by (simp add: upt_conv_Cons shown_def)
  moreover have "mb_kernel s2 = ?k\<lparr>kernel_pointer := kernel_pointer ?k + (modules_size M mb n - modules_size M mb i)\<rparr>"
    using s1(3) s2(3) by (simp add: modules_size_def algebra_simps)
  moreover have "module_start s2 = fst (module_entry M mb (n - 1))"
  proof (cases "Suc i < n")
    case False
    then have "n - 1 = i" using i by simp
    then show ?thesis using s2(4) s1(4) False by simp
  qed (use s2(4) in simp)
  ultimately show ?case using i by auto
qed

lemma header_ready: "multiboot_ready lit p cmdline loader M \<Longrightarrow> off_screen p 96 \<and>
    list_all (\<lambda>(f, _). string_at M (lit f) (chars f)) header_prints"
  by (simp add: multiboot_ready_def multiboot_literals_def Let_def list_all_iff split_beta)

lemma literal_ready: "multiboot_ready lit p cmdline loader M \<Longrightarrow> f \<in> set multiboot_literals \<Longrightarrow> string_at M (lit f) (chars f)"
  by (simp add: multiboot_ready_def Let_def list_all_iff)

text \<open>A line that is shown on a condition.\<close>

lemma shown_if:
  assumes "mb_ok M c s" "b \<Longrightarrow> \<exists>s'. x = Some s' \<and> shown M c ls s s' \<and> mb_kernel s' = mb_kernel s \<and> module_start s' = module_start s"
  shows "\<exists>s'. (if b then x else Some s) = Some s' \<and> shown M c (if b then ls else []) s s' \<and> mb_kernel s' = mb_kernel s \<and> module_start s' = module_start s"
  using assms shown_nil by (cases b) auto

lemma literal_shown:
  assumes "multiboot_ready lit p cmdline loader M" "mb_ok M c s" "f \<in> set multiboot_literals" "fits (chars f) args"
    "\<forall>a \<in> set args. parg_at M a" "map parg_word args = ws"
  shows "\<exists>s'. mb_printf lit f ws s = Some s' \<and> shown M c [(f, args)] s s' \<and> mb_kernel s' = mb_kernel s \<and> module_start s' = module_start s"
  using mb_printf_shown [of M c s lit f args, OF assms(2) literal_ready [OF assms(1,3)] assms(4,5)] assms(6) by metis

lemma shown_mb: "shown M c ls s s' \<Longrightarrow> off_screen p 96 \<Longrightarrow> mb_ok M c s' \<and> multiboot_at (mb_memory s') p = multiboot_at M p"
  by (auto simp: shown_def mb_ok_def intro: multiboot_off_screen)

lemma multiboot_literals_members:
  "''MULTIBOOT header at 0x%x:\<newline>'' \<in> set multiboot_literals" "''Started with: %s\<newline>'' \<in> set multiboot_literals"
  "''Booted from: %s\<newline>'' \<in> set multiboot_literals" "''%dkB lower memory\<newline>'' \<in> set multiboot_literals"
  "''%dkB higher memory '' \<in> set multiboot_literals" "''(%dMB)\<newline>'' \<in> set multiboot_literals"
  "''Found %d module(s).\<newline>'' \<in> set multiboot_literals" "''Module %d is at 0x%x:0x%x\<newline>'' \<in> set multiboot_literals"
  by (simp_all add: multiboot_literals_def)

text \<open>The three lines on the size of the memory.\<close>

lemma memory_lines_shown:
  assumes "multiboot_ready lit p cmdline loader M" "mb_ok M c s" "mb = multiboot_at M p"
  shows "\<exists>s'. (do { s \<leftarrow> mb_printf lit ''%dkB lower memory\<newline>'' [mb_mem_lower (multiboot_at (mb_memory s) p)] s;
         s \<leftarrow> mb_printf lit ''%dkB higher memory '' [mb_mem_upper (multiboot_at (mb_memory s) p)] s;
         mb_printf lit ''(%dMB)\<newline>'' [mb_mem_upper (multiboot_at (mb_memory s) p) div 1024] s }) = Some s' \<and>
    shown M c [(''%dkB lower memory\<newline>'', [Num (mb_mem_lower mb)]),
        (''%dkB higher memory '', [Num (mb_mem_upper mb)]), (''(%dMB)\<newline>'', [Num (mb_mem_upper mb div 1024)])] s s' \<and>
    mb_kernel s' = mb_kernel s \<and> module_start s' = module_start s"
proof -
  have off: "off_screen p 96" using header_ready [OF assms(1)] by blast
  note mb = shown_mb [where M = M, OF _ off, folded assms(3)]
  have m0: "multiboot_at (mb_memory s) p = mb" using mb [OF shown_nil [OF assms(2)]] by blast
  obtain s1 where s1: "mb_printf lit ''%dkB lower memory\<newline>'' [mb_mem_lower mb] s = Some s1"
    "shown M c [(''%dkB lower memory\<newline>'', [Num (mb_mem_lower mb)])] s s1" "mb_kernel s1 = mb_kernel s" "module_start s1 = module_start s"
    using literal_shown [OF assms(1,2) multiboot_literals_members(4) literals_fit(5), of "mb_mem_lower mb"] by auto
  obtain s2 where s2: "mb_printf lit ''%dkB higher memory '' [mb_mem_upper mb] s1 = Some s2"
    "shown M c [(''%dkB higher memory '', [Num (mb_mem_upper mb)])] s1 s2" "mb_kernel s2 = mb_kernel s" "module_start s2 = module_start s"
    using literal_shown [OF assms(1) _ multiboot_literals_members(5) literals_fit(6), of c s1 "mb_mem_upper mb"] mb [OF s1(2)] s1(3,4) by auto
  obtain s3 where s3: "mb_printf lit ''(%dMB)\<newline>'' [mb_mem_upper mb div 1024] s2 = Some s3"
    "shown M c [(''(%dMB)\<newline>'', [Num (mb_mem_upper mb div 1024)])] s2 s3" "mb_kernel s3 = mb_kernel s" "module_start s3 = module_start s"
    using literal_shown [OF assms(1) _ multiboot_literals_members(6) literals_fit(7), of c s2 "mb_mem_upper mb div 1024"] mb [OF s2(2)] s2(3,4) by auto
  show ?thesis using s1(1) s2(1) s3 shown_cons [OF s1(2) shown_cons [OF s2(2) s3(2)]] mb [OF s1(2)] mb [OF s2(2)] by (simp add: m0)
qed


text \<open>The modules.\<close>

lemma modules_shown:
  assumes rdy: "multiboot_ready lit p cmdline loader M" and ok: "mb_ok M c s" and mb: "mb = multiboot_at M p"
    and n: "n = (if bit (mb_flags mb) 3 then unat (mb_mods_count mb) else 0)"
  shows "\<exists>s'. (if bit (mb_flags mb) 3 then do {
       s \<leftarrow> mb_printf lit ''Found %d module(s).\<newline>'' [mb_mods_count mb] s;
       if 0 < mb_mods_count (multiboot_at (mb_memory s) p) then module_loop lit p 0 s else Some s } else Some s) = Some s' \<and>
    shown M c (if bit (mb_flags mb) 3 then (''Found %d module(s).\<newline>'', [Num (mb_mods_count mb)]) # map (module_line M mb) [0..<unat (mb_mods_count mb)] else []) s s' \<and>
    mb_kernel s' = (mb_kernel s)\<lparr>kernel_pointer := kernel_pointer (mb_kernel s) + modules_size M mb n\<rparr> \<and>
    module_start s' = (if 0 < n then fst (module_entry M mb (n - 1)) else module_start s)"
proof (cases "bit (mb_flags mb) 3")
  case False
  then show ?thesis using ok n by (simp add: shown_nil modules_size_def)
next
  case True
  have off: "off_screen p 96" using header_ready [OF rdy] by blast
  obtain s1 where s1: "mb_printf lit ''Found %d module(s).\<newline>'' [mb_mods_count mb] s = Some s1"
    "shown M c [(''Found %d module(s).\<newline>'', [Num (mb_mods_count mb)])] s s1" "mb_kernel s1 = mb_kernel s" "module_start s1 = module_start s"
    using literal_shown [OF rdy ok multiboot_literals_members(7) literals_fit(8), of "mb_mods_count mb"] by auto
  have m1: "mb_ok M c s1" "multiboot_at (mb_memory s1) p = mb" using shown_mb [OF s1(2) off] mb by simp_all
  have ents: "\<forall>i < unat (mb_mods_count mb). off_screen (mb_mods_addr mb + 32 * of_nat i) 4 \<and> off_screen (mb_mods_addr mb + 8 * of_nat i + 4) 4"
    using rdy True by (simp add: multiboot_ready_def Let_def mb)
  obtain s2 where s2: "module_loop lit p (of_nat 0) s1 = Some s2" "shown M c (map (module_line M mb) [0..<unat (mb_mods_count mb)]) s1 s2"
    "mb_kernel s2 = (mb_kernel s1)\<lparr>kernel_pointer := kernel_pointer (mb_kernel s1) + (modules_size M mb (unat (mb_mods_count mb)) - modules_size M mb 0)\<rparr>"
    "module_start s2 = (if 0 < unat (mb_mods_count mb) then fst (module_entry M mb (unat (mb_mods_count mb) - 1)) else module_start s1)"
    using module_loop_shown [of M c s1 lit p mb "unat (mb_mods_count mb)" 0, OF m1(1) literal_ready [OF rdy multiboot_literals_members(8)] off mb refl le0 ents] by blast
  have "(if 0 < mb_mods_count mb then module_loop lit p 0 s1 else Some s1) = Some s2"
    using s2(1) module_loop.simps [of lit p 0 s1] m1(2) by (cases "0 < mb_mods_count mb") (simp_all add: Let_def)
  moreover have "modules_size M mb 0 = 0" by (simp add: modules_size_def)
  ultimately show ?thesis using s1 s2(3,4) m1(2) shown_cons [OF s1(2) s2(2)] n True by simp
qed

text \<open>The whole.\<close>

lemma multiboot_print_shown:
  assumes ok: "mb_ok M c s" and rdy: "multiboot_ready lit p cmdline loader M" and mb: "mb = multiboot_at M p"
    and n: "n = (if bit (mb_flags mb) 3 then unat (mb_mods_count mb) else 0)"
  shows "\<exists>s'. multiboot_print lit p s = Some s' \<and> shown M c (multiboot_lines M p cmdline loader) s s' \<and>
    mb_kernel s' = (mb_kernel s)\<lparr>kernel_pointer := kernel_pointer (mb_kernel s) + modules_size M mb n\<rparr> \<and>
    module_start s' = (if 0 < n then fst (module_entry M mb (n - 1)) else module_start s)"
proof -
  let ?mb = "\<lambda>s. multiboot_at (mb_memory s) p"
  have off: "off_screen p 96" using header_ready [OF rdy] by blast
  note fields = shown_mb [where M = M, OF _ off, folded assms(3)]
  note print = literal_shown [OF rdy, of c] and lits = multiboot_literals_members
  obtain s1 where s1: "mb_printf lit ''MULTIBOOT header at 0x%x:\<newline>'' [p] s = Some s1"
    "shown M c [(''MULTIBOOT header at 0x%x:\<newline>'', [Num p])] s s1" "mb_kernel s1 = mb_kernel s" "module_start s1 = module_start s"
    using print [OF ok lits(1) literals_fit(2), of p] by auto
  have hp: "list_all (\<lambda>(f, _). fits (chars f) [Num v]) header_prints" for v by (rule literals_fit)
  obtain s2 where s2: "print_header lit p header_prints s1 = Some s2"
    "shown M c (map (\<lambda>(f, member). (f, [Num (member mb)])) header_prints) s1 s2" "mb_kernel s2 = mb_kernel s" "module_start s2 = module_start s"
    using print_header_shown [of M c s1 lit header_prints p] fields [OF s1(2)] header_ready [OF rdy] hp s1(3,4)
    unfolding assms(3) [symmetric] by auto
  have rs: "bit (mb_flags mb) 2 \<Longrightarrow> string_at M (mb_cmdline mb) cmdline" "bit (mb_flags mb) 9 \<Longrightarrow> string_at M (mb_boot_loader_name mb) loader"
    and rm: "bit (mb_flags mb) 3 \<Longrightarrow> \<forall>i < unat (mb_mods_count mb). off_screen (mb_mods_addr mb + 32 * of_nat i) 4 \<and> off_screen (mb_mods_addr mb + 8 * of_nat i + 4) 4"
    using rdy by (simp_all add: multiboot_ready_def Let_def assms(3))
  obtain s3 where s3: "(if bit (mb_flags mb) 2 then mb_printf lit ''Started with: %s\<newline>'' [mb_cmdline mb] s2 else Some s2) = Some s3"
    "shown M c (if bit (mb_flags mb) 2 then [(''Started with: %s\<newline>'', [Str (mb_cmdline mb) cmdline])] else []) s2 s3"
    "mb_kernel s3 = mb_kernel s" "module_start s3 = module_start s"
    using shown_if [of M c s2 "bit (mb_flags mb) 2", OF _ print [OF _ lits(2) literals_fit(3), of s2 "mb_cmdline mb" cmdline]]
      fields [OF s2(2)] rs(1) s2(3,4) by auto
  obtain s4 where s4: "(if bit (mb_flags mb) 9 then mb_printf lit ''Booted from: %s\<newline>'' [mb_boot_loader_name mb] s3 else Some s3) = Some s4"
    "shown M c (if bit (mb_flags mb) 9 then [(''Booted from: %s\<newline>'', [Str (mb_boot_loader_name mb) loader])] else []) s3 s4"
    "mb_kernel s4 = mb_kernel s" "module_start s4 = module_start s"
    using shown_if [of M c s3 "bit (mb_flags mb) 9", OF _ print [OF _ lits(3) literals_fit(4), of s3 "mb_boot_loader_name mb" loader]]
      fields [OF s3(2)] rs(2) s3(3,4) by auto
  obtain s5 where s5: "(if bit (mb_flags mb) 0 then do {
         s \<leftarrow> mb_printf lit ''%dkB lower memory\<newline>'' [mb_mem_lower (?mb s4)] s4;
         s \<leftarrow> mb_printf lit ''%dkB higher memory '' [mb_mem_upper (?mb s)] s;
         mb_printf lit ''(%dMB)\<newline>'' [mb_mem_upper (?mb s) div 1024] s } else Some s4) = Some s5"
    "shown M c (if bit (mb_flags mb) 0 then [(''%dkB lower memory\<newline>'', [Num (mb_mem_lower mb)]),
        (''%dkB higher memory '', [Num (mb_mem_upper mb)]), (''(%dMB)\<newline>'', [Num (mb_mem_upper mb div 1024)])] else []) s4 s5"
    "mb_kernel s5 = mb_kernel s" "module_start s5 = module_start s"
    using shown_if [of M c s4 "bit (mb_flags mb) 0", OF _ memory_lines_shown [OF rdy, of c s4, OF _ assms(3)]] fields [OF s4(2)] s4(3,4) by auto
  obtain s6 where s6: "(if bit (mb_flags mb) 3 then do {
       s \<leftarrow> mb_printf lit ''Found %d module(s).\<newline>'' [mb_mods_count mb] s5;
       if 0 < mb_mods_count (?mb s) then module_loop lit p 0 s else Some s } else Some s5) = Some s6"
    "shown M c (if bit (mb_flags mb) 3 then (''Found %d module(s).\<newline>'', [Num (mb_mods_count mb)]) #
        map (module_line M mb) [0..<unat (mb_mods_count mb)] else []) s5 s6"
    "mb_kernel s6 = (mb_kernel s)\<lparr>kernel_pointer := kernel_pointer (mb_kernel s) + modules_size M mb n\<rparr>"
    "module_start s6 = (if 0 < n then fst (module_entry M mb (n - 1)) else module_start s)"
    using modules_shown [OF rdy _ assms(3,4), of c s5] fields [OF s5(2)] s5(3,4) by auto
  have m: "?mb s2 = mb" "?mb s3 = mb" "?mb s4 = mb" "?mb s5 = mb"
    using fields [OF s2(2)] fields [OF s3(2)] fields [OF s4(2)] fields [OF s5(2)] by simp_all
  have "multiboot_print lit p s = Some s6"
    by (simp only: multiboot_print_def Let_def Option.bind.bind_lunit s1(1) s2(1) s3(1) s4(1) s5(1) [unfolded m] s6(1) m)
  moreover have "shown M c (multiboot_lines M p cmdline loader) s s6"
    using shown_cons [OF s1(2) shown_append [OF s2(2) shown_append [OF s3(2) shown_append [OF s4(2) shown_append [OF s5(2) s6(2)]]]]]
    unfolding multiboot_lines_def Let_def assms(3) [symmetric] .
  ultimately show ?thesis using s6(3,4) by blast
qed

text \<open>
  C40: \<open>multiboot_print\<close> of a record that lies, with its strings and the list of modules, off the screen: it ends, the screen shows the
  lines that \<open>multiboot_lines\<close> computes from the record, memory changes on the screen only, the end of the kernel moves by the sum of
  the differences of the module entries, and \<open>module_start\<close> is what the last turn of the loop read, 32 bytes further for every module.
\<close>

theorem multiboot_print_correct:
  assumes "terminal_ok (mb_screen s)" and "multiboot_ready lit p cmdline loader (mb_memory s)" and "mb = multiboot_at (mb_memory s) p"
    and "n = (if bit (mb_flags mb) 3 then unat (mb_mods_count mb) else 0)"
  shows "\<exists>s'. multiboot_print lit p s = Some s' \<and> terminal_ok (mb_screen s') \<and>
    screen_of (mb_screen s') = fold (screen_putchar (terminal_color (mb_screen s)))
      (lines_text (multiboot_lines (mb_memory s) p cmdline loader)) (screen_of (mb_screen s)) \<and>
    (\<forall>x. \<not> in_rng VGA_MEMORY 4000 x \<longrightarrow> mb_memory s' x = mb_memory s x) \<and>
    mb_kernel s' = (mb_kernel s)\<lparr>kernel_pointer := kernel_pointer (mb_kernel s) + modules_size (mb_memory s) mb n\<rparr> \<and>
    module_start s' = (if 0 < n then fst (module_entry (mb_memory s) mb (n - 1)) else module_start s)"
  using multiboot_print_shown [of "mb_memory s" "terminal_color (mb_screen s)" s, OF _ assms(2-4)] assms(1)
  by (auto simp: shown_def mb_ok_def)

text \<open>A memory with the literals \<open>L\<close>, a record that gives the size of the memory, and one module at \<open>0x111000\<close>.\<close>

definition sample_boot_memory :: "string list \<Rightarrow> mem" where
  "sample_boot_memory L = (\<lambda>x. literal_byte L (unat x))(0x4000 := 8, 0x4009 := 0xFC, 0x400A := 3, 0x4014 := 1, 0x4019 := 0x50,
     0x5001 := 0x10, 0x5002 := 0x11, 0x5005 := 0x38, 0x5006 := 0x11)"

definition sample_console :: "string list \<Rightarrow> boot_console" where
  "sample_console L = \<lparr>mb_screen = sample_terminal\<lparr>tmem := sample_boot_memory L\<rparr>, mb_kernel = \<lparr>kmem = (\<lambda>_. 0), cr0 = 0, cr3 = 0,
     kernel_pointer = 0x110123, frame_bitmap = 0, kernel_heap = 0, paging_state = 0, isr_routine = (\<lambda>_. 0), console = []\<rparr>, module_start = 0\<rparr>"

lemma sample_literals:
  assumes "short_literals L" "f \<in> set L"
  shows "string_at (sample_boot_memory L) (sample_lit L f) (chars f)"
proof (rule sample_string_at [OF assms])
  fix a :: nat assume a: "a < 4096"
  then have u: "unat (of_nat a :: u32) = a" by (intro unat_of_nat_u32) simp
  then have "of_nat a \<notin> {0x4000, 0x4009, 0x400A, 0x4014, 0x4019, 0x5001, 0x5002, 0x5005, 0x5006 :: u32}"
    using a by (auto simp: word_unat_eq_iff)
  then show "sample_boot_memory L (of_nat a) = literal_byte L a" using u by (simp add: sample_boot_memory_def)
qed

lemma sample_record:
  assumes "short_literals L"
  shows "mb_flags (multiboot_at (sample_boot_memory L) 0x4000) = 8" "mb_mods_count (multiboot_at (sample_boot_memory L) 0x4000) = 1"
    "mb_mem_upper (multiboot_at (sample_boot_memory L) 0x4000) = 0x3FC00"
    "module_entry (sample_boot_memory L) (multiboot_at (sample_boot_memory L) 0x4000) 0 = (0x111000, 0x113800)"
proof -
  note lb = literal_byte_beyond [OF assms]
  have a: "mb_mods_addr (multiboot_at (sample_boot_memory L) 0x4000) = 0x5000"
    by (simp add: multiboot_at_def sample_boot_memory_def load32_def lb)
  show "module_entry (sample_boot_memory L) (multiboot_at (sample_boot_memory L) 0x4000) 0 = (0x111000, 0x113800)"
    by (simp add: module_entry_def a) (simp add: sample_boot_memory_def load32_def lb)
qed (simp_all add: multiboot_at_def sample_boot_memory_def load32_def literal_byte_beyond [OF assms])

lemma sample_multiboot_ready:
  assumes "short_literals L" "set multiboot_literals \<subseteq> set L"
  shows "multiboot_ready (sample_lit L) 0x4000 [] [] (sample_boot_memory L)"
proof -
  have a: "mb_mods_addr (multiboot_at (sample_boot_memory L) 0x4000) = 0x5000"
    by (simp add: multiboot_at_def sample_boot_memory_def load32_def literal_byte_beyond [OF assms(1)])
  have b: "bit (8 :: u32) 3" "\<not> bit (8 :: u32) 2" "\<not> bit (8 :: u32) 9" by (simp_all add: bit_numeral_rec)
  show ?thesis unfolding multiboot_ready_def Let_def sample_record [OF assms(1)] a
    using b sample_literals [OF assms(1)] assms(2) by (auto simp: list_all_iff off_screen_low)
qed

lemma sample_console_fields: "mb_memory (sample_console L) = sample_boot_memory L" "terminal_ok (mb_screen (sample_console L))"
    "mb_kernel (sample_console L) = \<lparr>kmem = (\<lambda>_. 0), cr0 = 0, cr3 = 0, kernel_pointer = 0x110123, frame_bitmap = 0, kernel_heap = 0,
       paging_state = 0, isr_routine = (\<lambda>_. 0), console = []\<rparr>"
  by (simp_all add: sample_console_def sample_terminal_def terminal_ok_def)

lemma multiboot_literals_short: "short_literals multiboot_literals"
  by (simp add: short_literals_def multiboot_literals_def header_prints_def chars_def)

theorem multiboot_print_correct_witness:
  "\<exists>s'. multiboot_print (sample_lit multiboot_literals) 0x4000 (sample_console multiboot_literals) = Some s' \<and>
    module_start s' = 0x111000 \<and> kernel_pointer (mb_kernel s') = 0x112923"
proof -
  note r = sample_record [OF multiboot_literals_short] and f = sample_console_fields [of multiboot_literals]
  have b: "bit (8 :: u32) 3" by (simp add: bit_numeral_rec)
  show ?thesis
    using multiboot_print_correct [of "sample_console multiboot_literals" "sample_lit multiboot_literals" "0x4000" "[]" "[]",
        unfolded f(1,3), OF f(2) sample_multiboot_ready [OF multiboot_literals_short subset_refl] refl refl, unfolded r] b
    by (auto simp: modules_size_def r)
qed

end
