(* ===== verification/Frames.thy ===== *)
theory Frames
  imports Paging
begin

text \<open>
  The frame allocator and the creation of tables: which frame \<open>frame_alloc\<close> hands out, what happens when
  none is free, and what \<open>table_create\<close> writes before and after paging is switched on.
\<close>

section \<open>Filling a table\<close>

lemma of_nat_index: "i < 1024 \<Longrightarrow> unat (of_nat i :: u32) = i"
  by (simp add: unat_of_nat)

lemma fill_fold:
  fixes f :: "nat \<Rightarrow> u32 \<Rightarrow> u32" and base :: u32
  assumes "n \<le> 1024"
  defines "g \<equiv> fold (\<lambda>i m. store32 m (base + 4 * of_nat i) (f i (load32 m (base + 4 * of_nat i)))) [0..<n]"
  shows "i < 1024 \<Longrightarrow> load32 (g m) (base + 4 * of_nat i) =
      (if i < n then f i (load32 m (base + 4 * of_nat i)) else load32 m (base + 4 * of_nat i))"
    and "\<not> in_rng base 4096 x \<Longrightarrow> g m x = m x"
  using assms(1) unfolding g_def
proof (induction n)
  case (Suc n)
  let ?g = "\<lambda>n. fold (\<lambda>i m. store32 m (base + 4 * of_nat i) (f i (load32 m (base + 4 * of_nat i)))) [0..<n] m"
  have st: "?g (Suc n) = store32 (?g n) (base + 4 * of_nat n) (f n (load32 (?g n) (base + 4 * of_nat n)))" by simp
  {
    case 1
    show ?case
    proof (cases "i = n")
      case True
      then show ?thesis using Suc.IH(1) 1 unfolding st by simp
    next
      case False
      have "disj (base + 4 * of_nat n) 4 (base + 4 * of_nat i) 4"
        using False 1 of_nat_index [of n] of_nat_index [of i]
        by (intro entry_disj) (auto simp: word_unat_eq_iff)
      then show ?thesis using Suc.IH(1) 1 False unfolding st by (simp add: load32_store32_disj)
    qed
  next
    case 2
    have "\<not> in_rng (base + 4 * of_nat n) 4 x"
      using 2 in_rng_shift [of base "4 * of_nat n" 4 x 4096] of_nat_index [of n]
      by (auto simp: unat_word_ariths)
    then show ?case using Suc.IH(2) 2 unfolding st by (simp add: store32_outside)
  }
qed auto

lemma fill_entries_entry:
  "unat i < 1024 \<Longrightarrow> load32 (fill_entries f base m) (base + 4 * i) = f (unat i) (load32 m (base + 4 * i))"
  using fill_fold(1) [of 1024 "unat i"] by (simp add: fill_entries_def ENTRY_SIZE_DEC_def)

lemma fill_entries_outside: "\<not> in_rng base 4096 x \<Longrightarrow> fill_entries f base m x = m x"
  using fill_fold(2) [of 1024] by (simp add: fill_entries_def ENTRY_SIZE_DEC_def)

section \<open>Frames\<close>

lemma INDEX_ADDR: "i < 0x100000 \<Longrightarrow> INDEX_GET (ADDR_GET i) = i"
  by (simp add: INDEX_GET_def ADDR_GET_def PAGE_SIZE_HEX_def word_unat_eq_iff unat_div unat_word_ariths word_less_nat_alt)

lemma ADDR_aligned: "ADDR_GET i AND 0xFFF = 0"
proof -
  have "ADDR_GET i = push_bit 12 i" by (simp add: ADDR_GET_def PAGE_SIZE_HEX_def push_bit_eq_mult mult.commute)
  then show ?thesis by (simp add: mask_numerals take_bit_eq_mask [symmetric] take_bit_push_bit)
qed

lemma frame_find_correct:
  assumes "bitmap_size (kmem k) (frame_bitmap k) \<noteq> - 1"
  shows "\<exists>r. frame_find k = Some (ADDR_GET r) \<and>
    (if r = - 1 then \<forall>j \<le> bitmap_size (kmem k) (frame_bitmap k). bitmap_entry (kmem k) (frame_bitmap k) j \<noteq> 0
     else r \<le> bitmap_size (kmem k) (frame_bitmap k) \<and> bitmap_entry (kmem k) (frame_bitmap k) r = 0 \<and>
       (\<forall>j < r. bitmap_entry (kmem k) (frame_bitmap k) j \<noteq> 0))"
proof -
  have r: "run_at m b 0 1 j \<longleftrightarrow> bitmap_entry m b j = 0" for m b j by (simp add: run_at_def)
  show ?thesis
    using find_from_correct [OF assms, of 0 1 0] unfolding r frame_find_def bitmap_entrie_find_def
    by (metis (no_types, lifting) option.map(2) word_zero_le)
qed

lemma ADDR_not_max: "ADDR_GET r \<noteq> 0xffffffff"
  using ADDR_aligned [of r] by auto

lemma frame_alloc_total:
  assumes "bitmap_size (kmem k) (frame_bitmap k) \<noteq> - 1"
  shows "\<exists>r. frame_alloc k = Some (ADDR_GET r, frame_set (ADDR_GET r) k)"
  using frame_find_correct [OF assms] ADDR_not_max by (auto simp: frame_alloc_def)

text \<open>A kernel with the bitmap of four frames of \<open>sample_bitmap\<close>, two of them free.\<close>

definition sample_frames :: kernel where
  "sample_frames = sample_paging\<lparr>kmem := sample_bitmap, frame_bitmap := 0x100\<rparr>"

lemma sample_frames_simps: "kmem sample_frames = sample_bitmap" "frame_bitmap sample_frames = 0x100"
  by (simp_all add: sample_frames_def)

text \<open>
  C12: while a frame is free, \<open>frame_alloc\<close> ends and returns the lowest free frame, page aligned; the frame
  was free before, is in use after, and the state of every other frame is as it was.
\<close>

theorem frame_alloc_correct:
  assumes "b = frame_bitmap k" and "bitmap_ok (kmem k) b" and "bitmap_size (kmem k) b \<le> 0x100000"
    and "j < bitmap_size (kmem k) b" and "bitmap_entry (kmem k) b j = 0"
  shows "\<exists>i k'. frame_alloc k = Some (ADDR_GET i, k') \<and> i \<le> j \<and> ADDR_GET i AND 0xFFF = 0 \<and>
    bitmap_entry (kmem k) b i = 0 \<and> (\<forall>l < i. bitmap_entry (kmem k) b l \<noteq> 0) \<and> bitmap_ok (kmem k') b \<and>
    (\<forall>l < bitmap_size (kmem k) b. bitmap_entry (kmem k') b l = (if l = i then 1 else bitmap_entry (kmem k) b l))"
proof -
  let ?m = "kmem k"
  have "bitmap_size ?m (frame_bitmap k) \<noteq> - 1" using assms(1,3) by (auto simp: word_le_nat_alt)
  then obtain i where i: "frame_find k = Some (ADDR_GET i)" "i \<noteq> - 1 \<Longrightarrow> bitmap_entry ?m b i = 0"
    "i \<noteq> - 1 \<Longrightarrow> \<forall>j < i. bitmap_entry ?m b j \<noteq> 0" "i = - 1 \<Longrightarrow> \<forall>j \<le> bitmap_size ?m b. bitmap_entry ?m b j \<noteq> 0"
    using frame_find_correct [of k] assms(1) by metis
  have ne: "i \<noteq> - 1" using i(4) assms(4,5) order_less_imp_le by blast
  have ij: "i \<le> j" using i(3) [OF ne] assms(5) by (meson not_le_imp_less)
  have lt: "i < bitmap_size ?m b" using ij assms(4) by simp
  have idx: "INDEX_GET (ADDR_GET i) = i" using lt assms(3) by (intro INDEX_ADDR) simp
  have fa: "frame_alloc k = Some (ADDR_GET i, frame_set (ADDR_GET i) k)"
    using i(1) ADDR_not_max by (simp add: frame_alloc_def)
  have m': "kmem (frame_set (ADDR_GET i) k) = snd (bitmap_entrie_set i 1 b ?m)"
    using assms(1) idx by (simp add: frame_set_def USED_def)
  have "bitmap_ok (kmem (frame_set (ADDR_GET i) k)) b"
    unfolding m' by (rule bitmap_struct [OF assms(2)]) (rule bitmap_entrie_set_outside [OF assms(2) lt])
  then show ?thesis
    using fa ij ADDR_aligned i(2,3) ne bitmap_entrie_set_entry [OF assms(2) lt] unfolding m'
    by (intro exI [of _ i] exI [of _ "frame_set (ADDR_GET i) k"]) (simp add: m')
qed

theorem frame_alloc_correct_witness:
  "bitmap_entry sample_bitmap 0x100 2 = 0 \<and> (\<exists>i k'. frame_alloc sample_frames = Some (ADDR_GET i, k') \<and> i \<le> 2)"
proof -
  have "bitmap_entry sample_bitmap 0x100 2 = 0"
    by (simp add: bitmap_entry_def bitmap_entries_def sample_bitmap_def load32_def)
  then show ?thesis
    using frame_alloc_correct [of "0x100" sample_frames 2] by (auto simp: sample_frames_simps sample_bitmap_ok)
qed

text \<open>
  with no free frame \<open>frame_alloc\<close> does not return NULL: the index \<open>-1\<close> becomes the address \<open>0xFFFFF000\<close>,
  which the test against \<open>0xffffffff\<close> lets through and which is handed out as a frame.
\<close>

theorem frame_alloc_exhausted:
  assumes "bitmap_size (kmem k) (frame_bitmap k) \<noteq> - 1"
    and "\<forall>j \<le> bitmap_size (kmem k) (frame_bitmap k). bitmap_entry (kmem k) (frame_bitmap k) j \<noteq> 0"
  shows "frame_alloc k = Some (0xFFFFF000, frame_set 0xFFFFF000 k)"
proof -
  obtain r where "frame_find k = Some (ADDR_GET r)" "r = - 1" using frame_find_correct [OF assms(1)] assms(2) by metis
  moreover have "ADDR_GET (- 1) = 0xFFFFF000" unfolding ADDR_GET_def PAGE_SIZE_HEX_def by simp
  ultimately show ?thesis by (simp add: frame_alloc_def)
qed

theorem frame_alloc_exhausted_witness:
  "frame_alloc (sample_frames\<lparr>kmem := (\<lambda>_. 0)(0x101 := 2, 0x104 := 1, 0x200 := 1, 0x204 := 1)\<rparr>) =
     Some (0xFFFFF000, frame_set 0xFFFFF000 (sample_frames\<lparr>kmem := (\<lambda>_. 0)(0x101 := 2, 0x104 := 1, 0x200 := 1, 0x204 := 1)\<rparr>))"
proof (rule frame_alloc_exhausted)
  let ?k = "sample_frames\<lparr>kmem := (\<lambda>_. 0)(0x101 := 2, 0x104 := 1, 0x200 := 1, 0x204 := 1)\<rparr>"
  have sz: "bitmap_size (kmem ?k) (frame_bitmap ?k) = 1"
    by (simp add: bitmap_size_def sample_frames_simps load32_def)
  then show "bitmap_size (kmem ?k) (frame_bitmap ?k) \<noteq> - 1" by simp
  have "j = 0 \<or> j = 1" if "j \<le> 1" for j :: u32 using that by (auto simp: word_le_nat_alt word_unat_eq_iff le_Suc_eq)
  moreover have "bitmap_entry (kmem ?k) (frame_bitmap ?k) 0 = 1" "bitmap_entry (kmem ?k) (frame_bitmap ?k) 1 = 1"
    by (simp_all add: bitmap_entry_def bitmap_entries_def sample_frames_simps load32_def)
  ultimately show "\<forall>j \<le> bitmap_size (kmem ?k) (frame_bitmap ?k). bitmap_entry (kmem ?k) (frame_bitmap ?k) j \<noteq> 0"
    unfolding sz by (metis zero_neq_one)
qed

section \<open>New tables\<close>

lemma sample_frame_alloc: "\<exists>k1. frame_alloc sample_frames = Some (0x2000, k1)"
proof -
  have f: "find_run sample_bitmap 0x100 0 1 2 0" by (subst find_run.simps) (simp add: bitmap_entry_def
    bitmap_entries_def sample_bitmap_def load32_def)
  have e: "bitmap_entry sample_bitmap 0x100 0 = 1" "bitmap_entry sample_bitmap 0x100 1 = 1" "bitmap_entry sample_bitmap 0x100 2 = 0"
    by (simp_all add: bitmap_entry_def bitmap_entries_def sample_bitmap_def load32_def)
  have "find_from sample_bitmap 0x100 0 1 0 = Some 2"
    by (subst find_from.simps, subst find_from.simps, subst find_from.simps) (simp add: e f sample_bitmap_ok)
  then show ?thesis
    by (simp add: frame_alloc_def frame_find_def bitmap_entrie_find_def sample_frames_simps ADDR_GET_def PAGE_SIZE_HEX_def)
qed

text \<open>
  before paging is on, \<open>table_create\<close> returns a table whose 1024 entries map the first four megabytes to
  themselves, present and writable, whatever the directory entry it is meant for.
\<close>

theorem table_create_identity:
  assumes "paging_state k = 0" and "frame_alloc k = Some (t, k1)" and "t \<noteq> 0" and "unat i < 1024"
  shows "\<exists>k'. table_create flags k = Some (t, k') \<and> load32 (kmem k') (t + 4 * i) = (i * 0x1000) OR 3 \<and>
     (\<forall>x. \<not> in_rng t 4096 x \<longrightarrow> kmem k' x = kmem k1 x)"
proof -
  have "paging_state k1 = 0"
    using assms(1,2) by (auto simp: frame_alloc_def frame_set_def split: if_splits bind_splits)
  then show ?thesis
    using assms(2-4) by (simp add: table_create_def fill_entries_entry fill_entries_outside PAGE_SIZE_HEX_def)
qed

theorem table_create_identity_witness:
  "\<exists>k'. table_create 3 (sample_frames\<lparr>paging_state := 0\<rparr>) = Some (0x2000, k') \<and>
     load32 (kmem k') (0x2000 + 4 * 5) = (5 * 0x1000) OR 3"
proof -
  obtain k1 where "frame_alloc (sample_frames\<lparr>paging_state := 0\<rparr>) = Some (0x2000, k1)"
    using sample_frame_alloc by (auto simp: frame_alloc_def frame_find_def split: if_splits bind_splits)
  from table_create_identity [OF _ this, of 5] show ?thesis by auto
qed

text \<open>
  once paging is on, \<open>table_create\<close> clears far more than the new table: the size it passes to \<open>memset\<close> is
  the address behind the table, so that every byte from the end of the table up to twice its address and
  four pages more is set to 0.
\<close>

theorem table_create_wipes:
  assumes "paging_state k \<noteq> 0" and "frame_alloc k = Some (t, k1)" and "t \<noteq> 0"
    and "in_rng t (unat (t + 0x4000)) x" and "\<not> in_rng t 4096 x"
  shows "\<exists>k'. table_create flags k = Some (t, k') \<and> kmem k' x = 0"
proof -
  have "paging_state k1 \<noteq> 0"
    using assms(1,2) by (auto simp: frame_alloc_def frame_set_def split: if_splits bind_splits)
  then show ?thesis
    using assms(2-5) by (simp add: table_create_def Let_def fill_entries_outside PAGE_SIZE_HEX_def memset_apply)
qed

theorem table_create_wipes_witness:
  "\<exists>k'. table_create 3 sample_frames = Some (0x2000, k') \<and> kmem k' 0x7FFF = 0"
proof -
  obtain k1 where k1: "frame_alloc sample_frames = Some (0x2000, k1)" using sample_frame_alloc by blast
  have "paging_state sample_frames \<noteq> 0" by (simp add: sample_frames_def sample_paging_def)
  from table_create_wipes [OF this k1, of "0x7FFF" 3] show ?thesis by (simp add: in_rng_def)
qed

end
