(* ===== verification/Kheap.thy ===== *)
theory Kheap
  imports Frames
begin

text \<open>
  The kernel heap of \<^verbatim>\<open>kernel/arch/i386/mem/heap.c\<close>, which hands out pages of the address space from its
  start downwards, and the set-up of the memory management, \<open>paging_initialize\<close> of \<^verbatim>\<open>paging.c\<close> with
  \<open>bitmap_create\<close> of \<^verbatim>\<open>array.c\<close>. A \<open>heap_t\<close> is a packed structure of 13 bytes in memory.
\<close>

section \<open>The heap structure\<close>

definition heap_start :: "mem \<Rightarrow> u32 \<Rightarrow> u32" where "heap_start m h = load32 m h"
definition heap_end :: "mem \<Rightarrow> u32 \<Rightarrow> u32" where "heap_end m h = load32 m (h + 4)"
definition heap_bitmap :: "mem \<Rightarrow> u32 \<Rightarrow> u32" where "heap_bitmap m h = load32 m (h + 9)"

text \<open>The two one-bit fields share the byte at offset 8.\<close>

definition set_heap_rw :: "u32 \<Rightarrow> bool \<Rightarrow> mem \<Rightarrow> mem" where
  "set_heap_rw h v m = m(h + 8 := (m (h + 8) AND NOT 1) OR (if v then 1 else 0))"

definition set_heap_user :: "u32 \<Rightarrow> bool \<Rightarrow> mem \<Rightarrow> mem" where
  "set_heap_user h v m = m(h + 8 := (m (h + 8) AND NOT 2) OR (if v then 2 else 0))"

section \<open>Creation\<close>

text \<open>\<open>bitmap_create\<close> calls \<open>kmalloc\<close>, here its argument: at boot the pointer that only moves up.\<close>

definition bitmap_create :: "(u32 \<Rightarrow> kernel \<Rightarrow> u32 \<times> kernel) \<Rightarrow> u32 \<Rightarrow> kernel \<Rightarrow> u32 \<times> kernel" where
  "bitmap_create kmalloc sz k =
     (let (bitmap, k1) = kmalloc 8 k;
        k2 = upd_kmem (\<lambda>m. store32 m (bitmap + 4) sz) k1;
        (entries, k3) = kmalloc (bitmap_size (kmem k2) bitmap div 0x20) k2;
        k4 = upd_kmem (\<lambda>m. store32 m bitmap entries) k3;
        k5 = upd_kmem (\<lambda>m. bitmap_map 0 (bitmap_size m bitmap) 0 bitmap m) k4
      in (bitmap, k5))"

text \<open>The size of the bitmap: a difference of \<open>void\<close> pointers, a signed number, divided towards zero.\<close>

definition ptr_diff_div4 :: "u32 \<Rightarrow> u32 \<Rightarrow> u32" where
  "ptr_diff_div4 a b =
     (let d = sint (a - b) in word_of_int (if d \<ge> 0 then d div 4 else - ((- d) div 4)))"

definition heap_create ::
    "(u32 \<Rightarrow> kernel \<Rightarrow> u32 \<times> kernel) \<Rightarrow> u32 \<Rightarrow> u32 \<Rightarrow> int \<Rightarrow> int \<Rightarrow> kernel \<Rightarrow> u32 \<times> kernel" where
  "heap_create kmalloc start end rw usermode k =
     (let (heap, k1) = ponter_move_int 4 0 0 k;
        k2 = upd_kmem (\<lambda>m. store32 m heap start) k1;
        k3 = upd_kmem (\<lambda>m. store32 m heap (heap_start m heap AND 0xFFFFF000)) k2;
        k4 = upd_kmem (\<lambda>m. store32 m (heap + 4) end) k3;
        k5 = upd_kmem (\<lambda>m. store32 m (heap + 4) (heap_end m heap AND 0xFFFFF000)) k4;
        k6 = (if heap_end (kmem k5) heap \<noteq> end
              then upd_kmem (\<lambda>m. store32 m (heap + 4) (heap_end m heap + page_getsize)) k5 else k5);
        k7 = upd_kmem (set_heap_user heap (usermode \<noteq> 0)) (upd_kmem (set_heap_rw heap (rw \<noteq> 0)) k6);
        (bitmap, k8) = bitmap_create kmalloc (ptr_diff_div4 start end) k7
      in (heap, upd_kmem (\<lambda>m. store32 m (heap + 9) bitmap) k8))"

definition heap_delete :: "u32 \<Rightarrow> kernel \<Rightarrow> int \<times> kernel" where
  "heap_delete heap k = (0, k)"

section \<open>Allocation\<close>

text \<open>The loop that takes the pages back when a page cannot be mapped.\<close>

partial_function (option) heap_undo_loop :: "u32 \<Rightarrow> u32 \<Rightarrow> kernel \<Rightarrow> kernel option" where
  "heap_undo_loop addr i k =
     (if i > addr
      then heap_undo_loop addr (i - page_getsize) (snd (page_unmap i 0 (frame_free (page_physaddr i 0 k) k)))
      else Some k)"

partial_function (option) heap_alloc_loop :: "u32 \<Rightarrow> u32 \<Rightarrow> u32 \<Rightarrow> kernel \<Rightarrow> (u32 \<times> kernel) option" where
  "heap_alloc_loop addr number i k =
     (if i < addr + number
      then do {
        (frame, k1) \<leftarrow> frame_alloc k;
        (page, k2) \<leftarrow> page_map frame i 3 0 k1;
        if page = 0
        then do { k3 \<leftarrow> heap_undo_loop addr (i - page_getsize) k2; Some (0, k3) }
        else heap_alloc_loop addr number (i + page_getsize) k2
      }
      else Some (addr, k))"

definition heap_alloc :: "u32 \<Rightarrow> u32 \<Rightarrow> kernel \<Rightarrow> (u32 \<times> kernel) option" where
  "heap_alloc sz heap k =
     (if heap = 0 then Some (0, k)
      else if sz AND 0xFFF \<noteq> 0 then Some (0, print ''Not a page size'' k)
      else do {
        index \<leftarrow> bitmap_entrie_find (INDEX_GET sz) 0 (heap_bitmap (kmem k) heap) (kmem k);
        let addr = heap_start (kmem k) heap - ADDR_GET index;
        if addr \<le> 0 \<or> addr = 0 \<or> addr > heap_start (kmem k) heap
        then Some (0, print ''-- NO FREE MEMORY --'' k)
        else heap_alloc_loop addr sz addr
          (upd_kmem (bitmap_map index (index + INDEX_GET sz) 1 (heap_bitmap (kmem k) heap)) k)
      })"

section \<open>Release\<close>

text \<open>The counter of this loop moves down, away from the bound it is compared with.\<close>

partial_function (option) heap_free_loop :: "u32 \<Rightarrow> u32 \<Rightarrow> u32 \<Rightarrow> kernel \<Rightarrow> kernel option" where
  "heap_free_loop addr number i k =
     (if i < addr + number
      then heap_free_loop addr number (i - page_getsize)
             (snd (page_unmap i 0 (frame_free (page_physaddr i 0 k) k)))
      else Some k)"

definition heap_free :: "u32 \<Rightarrow> u32 \<Rightarrow> u32 \<Rightarrow> kernel \<Rightarrow> (int \<times> kernel) option" where
  "heap_free addr sz heap k =
     (if heap = 0 then Some (0, k)
      else if sz AND 0xFFF \<noteq> 0 then Some (0, print ''Not a page size'' k)
      else
        (let index = INDEX_GET (heap_start (kmem k) heap - addr)
         in do {
           k' \<leftarrow> heap_free_loop addr sz addr
             (upd_kmem (bitmap_map index (index + INDEX_GET sz) 0 (heap_bitmap (kmem k) heap)) k);
           Some (1, k')
         }))"

declare heap_undo_loop.simps [code] heap_alloc_loop.simps [code] heap_free_loop.simps [code]

section \<open>Setting up paging\<close>

partial_function (option) frame_set_loop :: "u32 \<Rightarrow> kernel \<Rightarrow> kernel option" where
  "frame_set_loop i k =
     (if i < kernel_pointer k then frame_set_loop (i + PAGE_SIZE_HEX) (frame_set i k) else Some k)"

partial_function (option) page_map_loop :: "u32 \<Rightarrow> kernel \<Rightarrow> kernel option" where
  "page_map_loop i k =
     (if i < kernel_pointer k
      then do { (_, k1) \<leftarrow> page_map i i 3 0 k; page_map_loop (i + PAGE_SIZE_HEX) k1 }
      else Some k)"

declare frame_set_loop.simps [code] page_map_loop.simps [code]

text \<open>
  \<open>page_fault\<close> is the address of the handler. \<open>paging_state\<close> is 0 until the end, so \<open>kmalloc\<close> is the moving
  pointer throughout.
\<close>

definition paging_initialize :: "u32 \<Rightarrow> u32 \<Rightarrow> u32 \<Rightarrow> kernel \<Rightarrow> kernel option" where
  "paging_initialize page_fault mem_lower mem_upper k =
     (let kmalloc = (\<lambda>sz. ponter_move_int sz 0 1);
        (fb, k1) = bitmap_create kmalloc (mem_upper div 4) k;
        k2 = k1\<lparr>frame_bitmap := fb\<rparr>;
        (kh, k3) = heap_create kmalloc mem_upper 0 1 0 k2;
        k4 = print ''Kernel Heap'' (k3\<lparr>kernel_heap := kh\<rparr>)
      in do {
        k5 \<leftarrow> frame_set_loop 0 k4;
        (kernel_directory, k6) \<leftarrow> directory_create 2 k5;
        k7 \<leftarrow> page_map_loop 0 (directory_load kernel_directory k6);
        let k8 = k7\<lparr>isr_routine := (isr_routine k7)(14 := page_fault)\<rparr>;
        let k9 = (paging_enable k8)\<lparr>paging_state := 1\<rparr>;
        Some (print ''Paging'' k9)
      })"

end
