(* ===== verification/Boot_Mem.thy ===== *)
theory Boot_Mem
  imports Kheap
begin

text \<open>
  The start of memory management, first part: what \<open>bitmap_create\<close>, \<open>heap_create\<close>, \<open>frame_set_loop\<close> and \<open>page_map\<close> do on the memory
  behind the kernel when they are called for the first time.  Addresses are numbers here: \<open>word_at m a\<close> is the word at \<open>a\<close>.
\<close>

section \<open>Memory at numbered addresses\<close>

abbreviation at :: "nat \<Rightarrow> u32" where "at \<equiv> of_nat"

abbreviation word_at :: "mem \<Rightarrow> nat \<Rightarrow> u32" where "word_at m a \<equiv> load32 m (at a)"

lemma at_nonzero: "0 < a \<Longrightarrow> a < 4294967296 \<Longrightarrow> at a \<noteq> 0"
  using of_nat_Suc_u32 [of "a - 1"] by simp

lemma in_rng_at: "a + n \<le> 4294967296 \<Longrightarrow> in_rng (at a) n x \<longleftrightarrow> a \<le> unat x \<and> unat x < a + n"
proof (cases "a < 4294967296")
  case True
  then have u: "unat (at a) = a" by (simp add: unat_of_nat)
  then show "a + n \<le> 4294967296 \<Longrightarrow> ?thesis"
    using unat_u32_lt [of x] by (auto simp: in_rng_def unat_sub_if')
next
  case False
  then show "a + n \<le> 4294967296 \<Longrightarrow> ?thesis" using unat_u32_lt [of x] by (auto simp: in_rng_def)
qed

lemma store_at_outside: "a + 4 \<le> 4294967296 \<Longrightarrow> \<not> (a \<le> unat x \<and> unat x < a + 4) \<Longrightarrow> store32 m (at a) v x = m x"
  by (simp add: store32_outside in_rng_at)

lemma store32_twice: "store32 (store32 m a v) a w = store32 m a w"
  by (rule ext) (simp add: store32_def)

text \<open>A load depends on the bytes it reads only.\<close>

lemma word_at_cong:
  assumes "a + 4 \<le> 4294967296" "\<And>x. a \<le> unat x \<Longrightarrow> unat x < a + 4 \<Longrightarrow> m' x = m x"
  shows "word_at m' a = word_at m a"
  using assms by (intro load32_cong) (simp add: in_rng_at)

lemma word_at_store: "a + 4 \<le> 4294967296 \<Longrightarrow> b + 4 \<le> 4294967296 \<Longrightarrow> a + 4 \<le> b \<or> b + 4 \<le> a \<Longrightarrow>
    word_at (store32 m (at a) v) b = word_at m b"
  by (rule word_at_cong) (auto intro!: store_at_outside)

lemma mask_page: "(w :: u32) AND 0xFFFFF000 = at (unat w div 4096 * 4096)"
proof -
  have "(0xFFFFF000 :: u32) + 0x1000 = 0" by simp
  then have n: "(0xFFFFF000 :: u32) = - 0x1000" by (simp only: eq_neg_iff_add_eq_0)
  have "w AND 0xFFFFF000 = w AND NOT (mask 12)" unfolding n by (simp add: mask_eq_exp_minus_1)
  also have "\<dots> = push_bit 12 (drop_bit 12 w)"
    by (rule bit_word_eqI) (auto simp: bit_simps)
  also have "\<dots> = at (unat w div 4096 * 4096)"
    by (simp add: push_bit_eq_mult word_unat_eq_iff unat_word_ariths unat_drop_bit_eq drop_bit_eq_div unat_of_nat)
  finally show ?thesis .
qed

section \<open>The moving pointer\<close>

definition next_page :: "nat \<Rightarrow> nat" where
  "next_page K = K div 4096 * 4096 + 4096"

lemma next_page_bounds: "K < next_page K" "next_page K \<le> K + 4096" "next_page K mod 4096 = 0"
proof -
  have "K div 4096 * 4096 + K mod 4096 = K" "K mod 4096 < 4096" by simp_all
  then show "K < next_page K" "next_page K \<le> K + 4096" "next_page K mod 4096 = 0" by (simp_all add: next_page_def)
qed

lemma ponter_move_aligned:
  assumes "kernel_pointer k = at K" "4096 \<le> K" "next_page K < 4294967296"
  shows "ponter_move_int sz 0 1 k = (at (next_page K), k\<lparr>kernel_pointer := at (next_page K) + sz\<rparr>)"
proof -
  have K: "K < 4294967296" using assms(3) next_page_bounds(1) [of K] by simp
  then have m: "kernel_pointer k AND 0xFFFFF000 = at (K div 4096 * 4096)"
    using assms(1) by (simp add: mask_page unat_of_nat)
  have "unat (at (K div 4096 * 4096)) = K div 4096 * 4096" using assms(3) by (intro unat_of_nat_u32) (simp add: next_page_def)
  moreover have "K div 4096 \<noteq> 0" using assms(2) by (simp add: div_eq_0_iff)
  ultimately have "at (K div 4096 * 4096) \<noteq> 0" by (metis mult_eq_0_iff unat_0 zero_neq_numeral)
  then show ?thesis using m by (simp add: ponter_move_int_def Let_def next_page_def PAGE_SIZE_HEX_def)
qed


text \<open>What lies at \<open>p\<close> after \<open>bitmap_create\<close>: the structure and, on the next page, \<open>sz\<close> entries of 4 bytes that are all 0.\<close>

definition fresh_bitmap :: "mem \<Rightarrow> nat \<Rightarrow> nat \<Rightarrow> bool" where
  "fresh_bitmap m p sz \<longleftrightarrow> word_at m p = at (p + 4096) \<and> word_at m (p + 4) = at sz \<and> (\<forall>i < sz. word_at m (p + 4096 + 4 * i) = 0)"

lemma fresh_bitmap_ok:
  assumes "word_at m p = at (p + 4096)" "word_at m (p + 4) = at sz" "p + 4096 + 4 * sz < 4294967296"
  shows "bitmap_ok m (at p)" "bitmap_size m (at p) = at sz" "bitmap_entries m (at p) = at (p + 4096)"
    "unat (bitmap_size m (at p)) = sz" "i < sz \<Longrightarrow> bitmap_entry m (at p) (at i) = word_at m (p + 4096 + 4 * i)"
proof -
  show s: "bitmap_size m (at p) = at sz" using assms(2) by (simp add: bitmap_size_def ac_simps)
  show e: "bitmap_entries m (at p) = at (p + 4096)" using assms(1) by (simp add: bitmap_entries_def)
  show u: "unat (bitmap_size m (at p)) = sz" unfolding s using assms(3) by (intro unat_of_nat_u32) simp
  have "unat (at (p + 4096)) = p + 4096" "unat (at p) = p" using assms(3) by (simp_all only: unat_of_nat_u32)
  then show "bitmap_ok m (at p)" using assms(3) unfolding bitmap_ok_def u e by (intro conjI disj_sym [OF disj_lin]) auto
  show "i < sz \<Longrightarrow> bitmap_entry m (at p) (at i) = word_at m (p + 4096 + 4 * i)"
    unfolding bitmap_entry_def e by (simp add: ac_simps)
qed

lemma bitmap_create_boot:
  assumes K: "kernel_pointer k = at K" "4096 \<le> K" and p: "p = next_page K" "p + 4096 + 4 * sz < 4294967296"
  shows "\<exists>m'. bitmap_create (\<lambda>sz. ponter_move_int sz 0 1) (at sz) k =
      (at p, k\<lparr>kmem := m', kernel_pointer := at (p + 4096 + sz div 32)\<rparr>) \<and> fresh_bitmap m' p sz \<and>
    (\<forall>x. \<not> (p \<le> unat x \<and> unat x < p + 8) \<longrightarrow> \<not> (p + 4096 \<le> unat x \<and> unat x < p + 4096 + 4 * sz) \<longrightarrow> m' x = kmem k x)"
proof -
  let ?m2 = "store32 (kmem k) (at p + 4) (at sz)"
  let ?m4 = "store32 ?m2 (at p) (at (p + 4096))"
  let ?m5 = "bitmap_map 0 (at sz) 0 (at p) ?m4"
  have pp: "4096 \<le> p + 8" "next_page (p + 8) = p + 4096"
    using next_page_bounds [of K] K(2) unfolding p(1) by (simp, simp add: next_page_def)
  have a4: "at p + 4 = at (p + 4)" "at p + 8 = at (p + 8)" by simp_all
  have s2: "bitmap_size ?m2 (at p) = at sz" by (simp add: bitmap_size_def)
  have "unat (at sz div 0x20 :: u32) = sz div 32" using p(2) by (simp add: unat_div unat_of_nat)
  then have sz: "at sz div 0x20 = at (sz div 32)" using p(2) unat_of_nat_u32 [of "sz div 32"] by (simp add: word_unat_eq_iff)
  have w: "word_at ?m4 p = at (p + 4096)" "word_at ?m4 (p + 4) = at sz"
    using p(2) word_at_store [of p "p + 4"] by (simp_all add: a4 del: of_nat_add)
  note ok = fresh_bitmap_ok [OF w p(2)]
  have v: "bitmap_create (\<lambda>sz. ponter_move_int sz 0 1) (at sz) k =
      (at p, k\<lparr>kmem := ?m5, kernel_pointer := at (p + 4096 + sz div 32)\<rparr>)"
    using ponter_move_aligned [OF K(1,2), of 8] ponter_move_aligned [of "k\<lparr>kernel_pointer := at (p + 8), kmem := ?m2\<rparr>" "p + 8"] pp p s2 sz ok(2)
    by (simp add: bitmap_create_def Let_def a4 upd_kmem_def del: of_nat_add) simp
  have usz: "unat (at sz) = sz" using p(2) by (simp only: unat_of_nat_u32)
  note c = bitmap_map_loop_correct [OF ok(1), of "at sz" 0 0, unfolded ok(4), unfolded ok(2,3) usz, OF order_refl]
  have m5: "?m5 = bitmap_map_loop ?m4 (at p) 0 0 (at sz)" unfolding bitmap_map_def ok(2) by simp
  have r: "in_rng (at (p + 4096)) (4 * sz) x \<longleftrightarrow> p + 4096 \<le> unat x \<and> unat x < p + 4096 + 4 * sz" for x
    using p(2) in_rng_at [of "p + 4096" "4 * sz"] by (simp add: ac_simps)
  have out: "?m5 x = ?m4 x" if "\<not> (p + 4096 \<le> unat x \<and> unat x < p + 4096 + 4 * sz)" for x
    using c that unfolding m5 r by blast
  have "word_at ?m5 p = word_at ?m4 p" "word_at ?m5 (p + 4) = word_at ?m4 (p + 4)"
    using p(2) by (intro word_at_cong out; simp)+
  then have w5: "word_at ?m5 p = at (p + 4096)" "word_at ?m5 (p + 4) = at sz" by (simp_all only: w)
  have z: "word_at ?m5 (p + 4096 + 4 * i) = 0" if "i < sz" for i
  proof -
    have "at i < at sz" using that p(2) by (simp add: word_less_nat_alt unat_of_nat_u32)
    then have "bitmap_entry ?m5 (at p) (at i) = 0" using c unfolding m5 by auto
    then show ?thesis using fresh_bitmap_ok(5) [OF w5 p(2) that] by simp
  qed
  have "?m5 x = kmem k x" if "\<not> (p \<le> unat x \<and> unat x < p + 8)" "\<not> (p + 4096 \<le> unat x \<and> unat x < p + 4096 + 4 * sz)" for x
  proof -
    have "unat x < p \<or> p + 8 \<le> unat x" using that(1) by linarith
    then have "?m4 x = ?m2 x" "?m2 x = kmem k x"
      unfolding a4 using p(2) by (auto intro!: store_at_outside simp del: of_nat_add)
    then show ?thesis using out [OF that(2)] by simp
  qed
  then show ?thesis using v w5 z by (auto simp: fresh_bitmap_def)
qed


lemma fresh_bitmap_cong:
  assumes "fresh_bitmap m p sz" "p + 4096 + 4 * sz < 4294967296" "\<And>x. p \<le> unat x \<Longrightarrow> unat x < p + 4096 + 4 * sz \<Longrightarrow> m' x = m x"
  shows "fresh_bitmap m' p sz"
proof -
  have "word_at m' a = word_at m a" if "p \<le> a" "a + 4 \<le> p + 4096 + 4 * sz" for a
    using that assms(2) by (intro word_at_cong assms(3)) auto
  then show ?thesis using assms(1) by (simp add: fresh_bitmap_def del: of_nat_add)
qed

lemma set_heap_bits_outside: "\<not> in_rng (h + 8) 1 x \<Longrightarrow> set_heap_user h u (set_heap_rw h r m) x = m x"
  by (auto simp: set_heap_user_def set_heap_rw_def)

lemma heap_create_boot:
  assumes h: "kernel_pointer k = at h" "4096 \<le> h" and hb: "hb = next_page (h + 4)" "h + 13 \<le> hb" "hb + 4096 + U < 4294967296" "U < 2147483648"
  shows "\<exists>m'. heap_create (\<lambda>sz. ponter_move_int sz 0 1) (at U) 0 1 0 k =
      (at h, k\<lparr>kmem := m', kernel_pointer := at (hb + 4096 + U div 128)\<rparr>) \<and>
    word_at m' h = at (U div 4096 * 4096) \<and> word_at m' (h + 9) = at hb \<and> fresh_bitmap m' hb (U div 4) \<and>
    (\<forall>x. unat x < h \<or> hb + 4096 + U \<le> unat x \<longrightarrow> m' x = kmem k x)"
proof -
  let ?m3 = "store32 (store32 (kmem k) (at h) (at U)) (at h) (at U AND 0xFFFFF000)"
  let ?m5 = "store32 (store32 ?m3 (at (h + 4)) 0) (at (h + 4)) 0"
  let ?m7 = "set_heap_user (at h) False (set_heap_rw (at h) True ?m5)"
  let ?k7 = "k\<lparr>kernel_pointer := at (h + 4), kmem := ?m7\<rparr>"
  have c: "ptr_diff_div4 (at U) 0 = at (U div 4)"
    using hb(4) sint_small [of "at U"] by (simp add: ptr_diff_div4_def unat_of_nat_u32 of_nat_div [symmetric] del: of_nat_div) (metis of_nat_numeral of_nat_div of_int_of_nat_eq)
  have U: "4 * (U div 4) \<le> U" "U div 4 div 32 = U div 128" by (simp_all add: div_mult2_eq [symmetric])
  have b: "hb + 4096 + 4 * (U div 4) < 4294967296" using hb(3) U(1) by simp
  obtain m8 where m8: "bitmap_create (\<lambda>sz. ponter_move_int sz 0 1) (at (U div 4)) ?k7 =
      (at hb, ?k7\<lparr>kmem := m8, kernel_pointer := at (hb + 4096 + U div 128)\<rparr>)" "fresh_bitmap m8 hb (U div 4)"
    and o8: "\<forall>x. \<not> (hb \<le> unat x \<and> unat x < hb + 8) \<longrightarrow> \<not> (hb + 4096 \<le> unat x \<and> unat x < hb + 4096 + 4 * (U div 4)) \<longrightarrow> m8 x = kmem ?k7 x"
  proof -
    have "kernel_pointer ?k7 = at (h + 4)" "4096 \<le> h + 4" using h(2) by simp_all
    from bitmap_create_boot [OF this hb(1) b, unfolded U(2)] that show ?thesis by blast
  qed
  have m8': "m8 x = ?m7 x" if "unat x < hb \<or> hb + 4096 + 4 * (U div 4) \<le> unat x" for x
    using o8 that by auto
  let ?m9 = "store32 m8 (at (h + 9)) (at hb)"
  have a: "at h + 4 = at (h + 4)" "at h + 9 = at (h + 9)" "at h + 8 = at (h + 8)" by simp_all
  have "heap_create (\<lambda>sz. ponter_move_int sz 0 1) (at U) 0 1 0 k = (at h, k\<lparr>kmem := ?m9, kernel_pointer := at (hb + 4096 + U div 128)\<rparr>)"
    using m8(1) h(1) by (simp add: heap_create_def ponter_move_int_def Let_def upd_kmem_def heap_start_def heap_end_def c a del: of_nat_add)
  moreover have "word_at ?m9 (h + 9) = at hb" by simp
  moreover have "fresh_bitmap ?m9 hb (U div 4)"
    by (rule fresh_bitmap_cong [OF m8(2) b]) (use hb in \<open>auto intro!: store_at_outside simp del: of_nat_add\<close>)
  moreover have "?m9 x = kmem k x" if "unat x < h \<or> hb + 4096 + U \<le> unat x" for x
  proof -
    have "\<not> in_rng (at (h + 8)) 1 x" using that hb(2,3) by (subst in_rng_at) auto
    then have "?m7 x = ?m5 x" unfolding a [symmetric] by (rule set_heap_bits_outside)
    moreover have "?m9 x = m8 x" "m8 x = ?m7 x" using that hb(2,3) U(1) by (auto intro!: store_at_outside m8' simp del: of_nat_add)
    moreover have "?m5 x = ?m3 x" "?m3 x = kmem k x" unfolding store32_twice using that hb(2,3)
      by (auto intro!: store_at_outside simp del: of_nat_add)
    ultimately show ?thesis by simp
  qed
  moreover have "word_at ?m9 h = at (U div 4096 * 4096)"
  proof -
    have "word_at ?m9 h = word_at m8 h" using hb(2,3) by (intro word_at_store) auto
    also have "\<dots> = word_at ?m7 h" using hb(2,3) by (intro word_at_cong m8') auto
    also have "\<dots> = word_at ?m5 h" unfolding a [symmetric]
      using hb(2,3) by (intro word_at_cong set_heap_bits_outside) (simp_all add: a(3) in_rng_at del: of_nat_add)
    also have "\<dots> = word_at ?m3 h" unfolding store32_twice using hb(2,3) by (intro word_at_store) auto
    finally show ?thesis using hb(4) by (simp add: mask_page unat_of_nat_u32)
  qed
  ultimately show ?thesis by blast
qed


section \<open>Frames at boot\<close>

lemma frame_set_at:
  assumes "frame_bitmap k = at p" "word_at (kmem k) p = at e" "j < 0x100000"
  shows "frame_set (at (4096 * j)) k = k\<lparr>kmem := store32 (kmem k) (at (e + 4 * j)) 1\<rparr>"
proof -
  have "unat (INDEX_GET (at (4096 * j))) = j"
    using assms(3) unat_of_nat_u32 [of "4096 * j"] by (simp add: INDEX_GET_def PAGE_SIZE_HEX_def unat_div)
  then have "INDEX_GET (at (4096 * j)) = at j" using assms(3) by (simp add: word_unat_eq_iff unat_of_nat_u32)
  then show ?thesis using assms(1,2) by (simp add: frame_set_def upd_kmem_def bitmap_entrie_set_def bitmap_entries_def USED_def)
qed

lemma frame_set_loop_boot:
  assumes "frame_bitmap k = at p" "word_at (kmem k) p = at e" "kernel_pointer k = at kp" "kp \<le> 4096 * n" "4096 * n \<le> kp + 4095"
    and "p + 4 \<le> e" "e + 4 * n \<le> 4294967296" "4096 * n < 4294967296" "j \<le> n"
  shows "\<exists>m'. frame_set_loop (at (4096 * j)) k = Some (k\<lparr>kmem := m'\<rparr>) \<and> (\<forall>i. j \<le> i \<and> i < n \<longrightarrow> word_at m' (e + 4 * i) = 1) \<and>
    (\<forall>x. unat x < e + 4 * j \<or> e + 4 * n \<le> unat x \<longrightarrow> m' x = kmem k x)"
  using assms
proof (induction "n - j" arbitrary: j k)
  case 0
  then have j: "j = n" by simp
  have "\<not> at (4096 * j) < kernel_pointer k"
    using 0 j unat_of_nat_u32 [of "4096 * n"] unat_of_nat_u32 [of kp] by (simp add: word_less_nat_alt)
  then show ?case using j by (subst frame_set_loop.simps) (auto intro!: exI [of _ "kmem k"])
next
  case (Suc d)
  let ?k = "frame_set (at (4096 * j)) k"
  have d: "d = n - Suc j" "Suc j \<le> n" using Suc(2) by simp_all
  have k': "?k = k\<lparr>kmem := store32 (kmem k) (at (e + 4 * j)) 1\<rparr>" using Suc(2-) by (intro frame_set_at) auto
  have lt: "at (4096 * j) < kernel_pointer k"
    using Suc(2-) unat_of_nat_u32 [of "4096 * j"] unat_of_nat_u32 [of kp] by (simp add: word_less_nat_alt)
  have nx: "at (4096 * j) + PAGE_SIZE_HEX = at (4096 * Suc j)" by (simp add: PAGE_SIZE_HEX_def)
  have "word_at (kmem ?k) p = at e" unfolding k' using Suc(2-) word_at_store [of "e + 4 * j" p "kmem k" 1] by simp
  then obtain m' where m': "frame_set_loop (at (4096 * Suc j)) ?k = Some (?k\<lparr>kmem := m'\<rparr>)"
    "\<And>i. Suc j \<le> i \<Longrightarrow> i < n \<Longrightarrow> word_at m' (e + 4 * i) = 1"
    "\<And>x. unat x < e + 4 * Suc j \<or> e + 4 * n \<le> unat x \<Longrightarrow> m' x = kmem ?k x"
    using Suc(1) [of "Suc j" ?k] Suc(2-) k' d by (auto simp del: of_nat_Suc of_nat_mult)
  have "word_at m' (e + 4 * j) = 1"
  proof -
    have "word_at m' (e + 4 * j) = word_at (kmem ?k) (e + 4 * j)" using Suc(2-) by (intro word_at_cong m'(3)) auto
    then show ?thesis unfolding k' by simp
  qed
  then have "word_at m' (e + 4 * i) = 1" if "j \<le> i" "i < n" for i using m'(2) [of i] that by (cases "i = j") auto
  moreover have "m' x = kmem k x" if "unat x < e + 4 * j \<or> e + 4 * n \<le> unat x" for x
  proof -
    have "m' x = kmem ?k x" using that Suc(2-) by (intro m'(3)) auto
    also have "\<dots> = kmem k x" unfolding k' using that Suc(2-) by (auto intro!: store_at_outside simp del: of_nat_add)
    finally show ?thesis .
  qed
  moreover have "frame_set_loop (at (4096 * j)) k = Some (k\<lparr>kmem := m'\<rparr>)"
  proof -
    have "frame_set_loop (at (4096 * j)) k = frame_set_loop (at (4096 * Suc j)) ?k"
      using lt by (subst frame_set_loop.simps) (simp only: nx if_True)
    then show ?thesis using m'(1) k' by simp
  qed
  ultimately show ?case by blast
qed

lemma find_first:
  assumes m: "word_at m p = at (p + 4096)" "word_at m (p + 4) = at S"
    and p: "p + 4096 + 4 * S < 4294967296" and f: "f < S"
    and used: "\<And>i. i < f \<Longrightarrow> word_at m (p + 4096 + 4 * i) \<noteq> 0" and free: "word_at m (p + 4096 + 4 * f) = 0"
  shows "bitmap_entrie_find 1 0 (at p) m = Some (at f)"
proof -
  note ok = fresh_bitmap_ok [OF m p]
  have r1: "run_at m b 0 1 j \<longleftrightarrow> bitmap_entry m b j = 0" for m b j by (simp add: run_at_def)
  have "S < 4294967295" using p by simp
  then have sz: "bitmap_size m (at p) \<noteq> - 1" using ok(4) unat_minus_one_u32 by (metis nat_less_le)
  obtain r where r: "bitmap_entrie_find 1 0 (at p) m = Some r"
    "r = - 1 \<Longrightarrow> \<forall>j \<le> bitmap_size m (at p). bitmap_entry m (at p) j \<noteq> 0"
    "r \<noteq> - 1 \<Longrightarrow> bitmap_entry m (at p) r = 0 \<and> (\<forall>j < r. bitmap_entry m (at p) j \<noteq> 0)"
    using find_from_correct [OF sz, of 0 1 0] unfolding r1 bitmap_entrie_find_def by (metis word_zero_le)
  have uf: "unat (at f) = f" using f p by (simp add: unat_of_nat_u32)
  have e: "bitmap_entry m (at p) (at f) = 0" using ok(5) [OF f] free by simp
  have "at f \<le> bitmap_size m (at p)" using f ok(4) uf by (simp add: word_le_nat_alt)
  then have "r \<noteq> - 1" using r(2) e by blast
  note r3 = r(3) [OF this]
  have "\<not> at f < r" using r3 e by blast
  moreover have "\<not> r < at f"
  proof
    assume "r < at f"
    then have "unat r < f" using uf by (simp add: word_less_nat_alt)
    then show False using ok(5) [of "unat r"] used [of "unat r"] f r3 by simp
  qed
  ultimately show ?thesis using r(1) by simp
qed

lemma frame_alloc_boot:
  assumes k: "frame_bitmap k = at p" "word_at (kmem k) p = at (p + 4096)" "word_at (kmem k) (p + 4) = at S"
    and p: "p + 4096 + 4 * S < 4294967296" and f: "f < S" "f < 0x100000"
    and used: "\<And>i. i < f \<Longrightarrow> word_at (kmem k) (p + 4096 + 4 * i) \<noteq> 0" and free: "word_at (kmem k) (p + 4096 + 4 * f) = 0"
  shows "frame_alloc k = Some (at (4096 * f), k\<lparr>kmem := store32 (kmem k) (at (p + 4096 + 4 * f)) 1\<rparr>)"
proof -
  have a: "ADDR_GET (at f) = at (4096 * f)" by (simp add: ADDR_GET_def PAGE_SIZE_HEX_def mult.commute)
  have "frame_alloc k = Some (ADDR_GET (at f), frame_set (ADDR_GET (at f)) k)"
    using find_first [OF k(2,3) p f(1) used free] ADDR_not_max by (simp add: frame_alloc_def frame_find_def k(1))
  then show ?thesis unfolding a using frame_set_at [OF k(1,2) f(2)] by simp
qed

section \<open>Mapping pages at boot\<close>

lemma page_number:
  assumes "i < 1024"
  shows "DIR_GET (at (4096 * i)) = 0" "TLB_GET (at (4096 * i)) = at i" "at (4096 * i) AND 0xFFF = 0"
proof -
  have u: "unat (at (4096 * i)) = 4096 * i" using assms by (intro unat_of_nat_u32) simp
  have d: "drop_bit 12 (at (4096 * i)) = at i" 
    using assms u by (simp add: word_unat_eq_iff unat_drop_bit_eq drop_bit_eq_div unat_div unat_of_nat_u32 del: of_nat_mult)
  have "unat (at i) < 2 ^ 10" using assms by (simp add: unat_of_nat_u32)
  then have "at i AND mask 10 = at i" by (simp add: take_bit_eq_mask [symmetric] word_unat_eq_iff unsigned_take_bit_eq take_bit_nat_eq_self)
  then show "TLB_GET (at (4096 * i)) = at i" by (simp only: TLB_GET_def d mask_numerals)
  have "drop_bit 22 (at (4096 * i)) = drop_bit 10 (drop_bit 12 (at (4096 * i)))" by simp
  also have "\<dots> = 0" unfolding d using \<open>unat (at i) < 2 ^ 10\<close>
    by (simp add: word_unat_eq_iff unat_drop_bit_eq drop_bit_eq_div unat_div)
  finally show "DIR_GET (at (4096 * i)) = 0" by (simp add: DIR_GET_def)
  have "at (4096 * i) = ADDR_GET (at i)" by (simp add: ADDR_GET_def PAGE_SIZE_HEX_def)
  then show "at (4096 * i) AND 0xFFF = 0" using ADDR_aligned by metis
qed

lemma frame_number: "at (4096 * f) AND 0xFFF = 0" "PHY_GET (at (4096 * f) OR 3) = at (4096 * f)" "(at (4096 * f) OR 3) AND USED = USED"
    "at (4096 * f) OR 3 OR USED = at (4096 * f) OR 3"
proof -
  have "at (4096 * f) = ADDR_GET (at f)" by (simp add: ADDR_GET_def PAGE_SIZE_HEX_def)
  then show a: "at (4096 * f) AND 0xFFF = 0" using ADDR_aligned by metis
  have "at (4096 * f) OR 3 = at (4096 * f) OR 2 OR 1" by (simp add: or.assoc)
  then show "PHY_GET (at (4096 * f) OR 3) = at (4096 * f)" "(at (4096 * f) OR 3) AND USED = USED"
    using aligned_frame [OF a, of 2] by (simp_all add: PHY_GET_def USED_def)
  show "at (4096 * f) OR 3 OR USED = at (4096 * f) OR 3" by (simp add: USED_def or.assoc)
qed

lemma page_map_boot:
  assumes "cr3 k = at D" "at D \<noteq> 0" "word_at (kmem k) D = at (4096 * t) OR 3" "i < 1024"
  shows "page_map (at (4096 * f)) (at (4096 * i)) 3 0 k =
    Some (at (4096 * i), k\<lparr>kmem := store32 (kmem k) (at (4096 * t + 4 * i)) (at (4096 * f) OR 3)\<rparr>)"
  using assms page_number [OF assms(4)] frame_number [of f] frame_number [of t]
  by (simp add: page_map_def page_dir_of_def directory_get_def Let_def upd_kmem_def del: of_nat_mult) (simp add: ac_simps)

lemma page_map_loop_identity:
  assumes "cr3 k = at D" "at D \<noteq> 0" "word_at (kmem k) D = at (4096 * t) OR 3" 
    "\<And>i. i < 1024 \<Longrightarrow> word_at (kmem k) (4096 * t + 4 * i) = at (4096 * i) OR 3"
    "kernel_pointer k = at kp" "kp \<le> 4096 * n" "4096 * n \<le> kp + 4095" "n \<le> 1024" "j \<le> n"
  shows "page_map_loop (at (4096 * j)) k = Some k"
  using assms(9)
proof (induction "n - j" arbitrary: j)
  case 0
  then have j: "j = n" by simp
  have "\<not> at (4096 * j) < kernel_pointer k"
    using assms j unat_of_nat_u32 [of "4096 * n"] unat_of_nat_u32 [of kp] by (simp add: word_less_nat_alt)
  then show ?case by (subst page_map_loop.simps) simp
next
  case (Suc d)
  have lt: "at (4096 * j) < kernel_pointer k"
    using assms Suc(2-) unat_of_nat_u32 [of "4096 * j"] unat_of_nat_u32 [of kp] by (simp add: word_less_nat_alt)
  have j: "j < 1024" using Suc assms(8) by simp
  have "page_map (at (4096 * j)) (at (4096 * j)) 3 0 k = Some (at (4096 * j), k)"
    using page_map_boot [OF assms(1-3) j, of j] assms(4) [OF j, symmetric] by (simp add: store32_same)
  moreover have "at (4096 * j) + PAGE_SIZE_HEX = at (4096 * Suc j)" by (simp add: PAGE_SIZE_HEX_def)
  moreover have "page_map_loop (at (4096 * Suc j)) k = Some k" using Suc(1) [of "Suc j"] Suc(2,3) by simp
  ultimately show ?case using lt by (subst page_map_loop.simps) (simp only: if_True bind.bind_lunit prod.case Option.bind.simps)
qed

end
