(* ===== verification/Boot_Paging.thy ===== *)
theory Boot_Paging
  imports Boot_Mem
begin

text \<open>
  The start of memory management, second part: \<open>paging_initialize\<close> as a whole.  Where it puts its structures is a function of the end of
  the kernel \<open>K\<close> and the size of the memory \<open>U\<close>; \<open>boot_window\<close> says for which of them no structure is overwritten, \<open>booted\<close> what the
  memory holds afterwards.
\<close>

section \<open>The layout after the start\<close>

definition frames_at :: "nat \<Rightarrow> nat" where "frames_at K = next_page K"
definition heap_at :: "nat \<Rightarrow> nat \<Rightarrow> nat" where "heap_at K U = frames_at K + 4096 + U div 128"
definition pages_at :: "nat \<Rightarrow> nat \<Rightarrow> nat" where "pages_at K U = next_page (heap_at K U + 4)"
definition boot_end :: "nat \<Rightarrow> nat \<Rightarrow> nat" where "boot_end K U = pages_at K U + 4096 + U div 128"
definition boot_frames :: "nat \<Rightarrow> nat \<Rightarrow> nat" where "boot_frames K U = (boot_end K U + 4095) div 4096"

definition boot_window :: "nat \<Rightarrow> nat \<Rightarrow> bool" where
  "boot_window K U \<longleftrightarrow> 4096 \<le> K \<and> U < 0x400000 \<and> heap_at K U + 13 \<le> pages_at K U \<and> boot_frames K U \<le> 1022 \<and>
     4 * (boot_frames K U + 3 + U div 4096) \<le> U div 128"

lemma boot_frames_bounds: "boot_end K U \<le> 4096 * boot_frames K U" "4096 * boot_frames K U \<le> boot_end K U + 4095"
proof -
  have "boot_end K U + 4095 = 4096 * ((boot_end K U + 4095) div 4096) + (boot_end K U + 4095) mod 4096"
    "(boot_end K U + 4095) mod 4096 < 4096" by simp_all
  then show "boot_end K U \<le> 4096 * boot_frames K U" "4096 * boot_frames K U \<le> boot_end K U + 4095"
    unfolding boot_frames_def by linarith+
qed

lemma boot_windowD:
  assumes "boot_window K U"
  shows "4096 \<le> K" "U < 0x400000" "heap_at K U + 13 \<le> pages_at K U" "boot_frames K U \<le> 1022"
    "4 * (boot_frames K U + 3 + U div 4096) \<le> U div 128" "heap_at K U = frames_at K + 4096 + U div 128"
    "boot_end K U = pages_at K U + 4096 + U div 128" "boot_end K U \<le> 4096 * boot_frames K U"
    "4096 * boot_frames K U \<le> boot_end K U + 4095" "frames_at K = next_page K" "pages_at K U = next_page (heap_at K U + 4)"
    "boot_frames K U + 3 + U div 4096 < U div 4"
proof -
  show "heap_at K U = frames_at K + 4096 + U div 128" by (simp add: heap_at_def)
  show "boot_end K U \<le> 4096 * boot_frames K U" "4096 * boot_frames K U \<le> boot_end K U + 4095" by (rule boot_frames_bounds)+
  have "U div 128 \<le> U div 4" by (simp add: div_le_mono2)
  then show "boot_frames K U + 3 + U div 4096 < U div 4" using assms by (simp add: boot_window_def)
qed (use assms in \<open>simp_all add: boot_window_def heap_at_def boot_end_def frames_at_def pages_at_def\<close>)

text \<open>The structures after the start with \<open>f\<close> frames and \<open>j\<close> heap pages in use.\<close>

definition boot_mem :: "nat \<Rightarrow> nat \<Rightarrow> nat \<Rightarrow> nat \<Rightarrow> mem \<Rightarrow> bool" where
  "boot_mem K U f j m \<longleftrightarrow> word_at m (frames_at K) = at (frames_at K + 4096) \<and> word_at m (frames_at K + 4) = at (U div 4) \<and>
     (\<forall>i < f. word_at m (frames_at K + 4096 + 4 * i) \<noteq> 0) \<and>
     (\<forall>i. f \<le> i \<longrightarrow> 4 * (i + 1) \<le> U div 128 \<longrightarrow> word_at m (frames_at K + 4096 + 4 * i) = 0) \<and>
     word_at m (heap_at K U) = at (U div 4096 * 4096) \<and> word_at m (heap_at K U + 9) = at (pages_at K U) \<and>
     word_at m (pages_at K U) = at (pages_at K U + 4096) \<and> word_at m (pages_at K U + 4) = at (U div 4) \<and>
     (\<forall>i < j. word_at m (pages_at K U + 4096 + 4 * i) \<noteq> 0) \<and>
     (\<forall>i. j \<le> i \<longrightarrow> 4 * (i + 1) \<le> U div 128 \<longrightarrow> word_at m (pages_at K U + 4096 + 4 * i) = 0)"

lemma boot_mem_cong:
  assumes w: "boot_window K U" and b: "boot_mem K U f j m" "4 * f \<le> U div 128" "4 * j \<le> U div 128"
    and same: "\<And>x. frames_at K \<le> unat x \<Longrightarrow> unat x < boot_end K U \<Longrightarrow> m' x = m x"
  shows "boot_mem K U f j m'"
proof -
  note l = boot_windowD [OF w]
  have r: "word_at m' a = word_at m a" if "frames_at K \<le> a" "a + 4 \<le> boot_end K U" for a
    using that l(4,8) by (intro word_at_cong same) auto
  show ?thesis using b l unfolding boot_mem_def by (simp add: r del: of_nat_add of_nat_mult)
qed


lemma boot_mem_frame:
  assumes w: "boot_window K U" and b: "boot_mem K U f j m" "4 * (f + 1) \<le> U div 128" "4 * j \<le> U div 128"
  shows "boot_mem K U (f + 1) j (store32 m (at (frames_at K + 4096 + 4 * f)) 1)"
proof -
  let ?m = "store32 m (at (frames_at K + 4096 + 4 * f)) 1"
  note l = boot_windowD [OF w]
  have r: "word_at ?m a = word_at m a" if "a + 4 \<le> frames_at K + 4096 + 4 * f \<or> frames_at K + 4096 + 4 * (f + 1) \<le> a" "a + 4 \<le> boot_end K U" for a
    using that l(3,4,6-8) b(2) by (intro word_at_store) auto
  have s: "word_at ?m (frames_at K + 4096 + 4 * f) = 1" by simp
  have "word_at ?m (frames_at K + 4096 + 4 * i) \<noteq> 0" if "i < f + 1" for i
    using b l(3,6,7) that s r [of "frames_at K + 4096 + 4 * i"] by (cases "i = f") (auto simp: boot_mem_def simp del: of_nat_add of_nat_mult)
  then show ?thesis using b l(3,6,7) unfolding boot_mem_def by (simp add: r del: of_nat_add of_nat_mult)
qed

lemma boot_mem_page:
  assumes w: "boot_window K U" and b: "boot_mem K U f j m" "4 * f \<le> U div 128" "4 * (j + 1) \<le> U div 128"
  shows "boot_mem K U f (j + 1) (store32 m (at (pages_at K U + 4096 + 4 * j)) 1)"
proof -
  let ?m = "store32 m (at (pages_at K U + 4096 + 4 * j)) 1"
  note l = boot_windowD [OF w]
  have r: "word_at ?m a = word_at m a" if "a + 4 \<le> pages_at K U + 4096 + 4 * j \<or> pages_at K U + 4096 + 4 * (j + 1) \<le> a" "a + 4 \<le> boot_end K U" for a
    using that l(3,4,6-8) b(3) by (intro word_at_store) auto
  have s: "word_at ?m (pages_at K U + 4096 + 4 * j) = 1" by simp
  have "word_at ?m (pages_at K U + 4096 + 4 * i) \<noteq> 0" if "i < j + 1" for i
    using b l(3,6,7) that s r [of "pages_at K U + 4096 + 4 * i"] by (cases "i = j") (auto simp: boot_mem_def simp del: of_nat_add of_nat_mult)
  then show ?thesis using b l(3,6,7) unfolding boot_mem_def by (simp add: r del: of_nat_add of_nat_mult)
qed

lemma boot_frame_alloc:
  assumes w: "boot_window K U" and b: "boot_mem K U f j (kmem k)" "4 * (f + 1) \<le> U div 128" and k: "frame_bitmap k = at (frames_at K)"
  shows "frame_alloc k = Some (at (4096 * f), k\<lparr>kmem := store32 (kmem k) (at (frames_at K + 4096 + 4 * f)) 1\<rparr>)"
proof (rule frame_alloc_boot [OF k])
  note l = boot_windowD [OF w]
  show "frames_at K + 4096 + 4 * (U div 4) < 4294967296" using l(2,4,6-8) l(3) by simp
  show "f < U div 4" "f < 0x100000" using b(2) l(2) by simp_all
  show "word_at (kmem k) (frames_at K) = at (frames_at K + 4096)" "word_at (kmem k) (frames_at K + 4) = at (U div 4)"
    "word_at (kmem k) (frames_at K + 4096 + 4 * f) = 0" using b unfolding boot_mem_def by blast+
  show "word_at (kmem k) (frames_at K + 4096 + 4 * i) \<noteq> 0" if "i < f" for i using b(1) that unfolding boot_mem_def by blast
qed


section \<open>Paging at the start\<close>


lemma boot_mem_start:
  assumes w: "boot_window K U" and f1: "fresh_bitmap m1 (frames_at K) (U div 4)"
    and m2: "word_at m2 (heap_at K U) = at (U div 4096 * 4096)" "word_at m2 (heap_at K U + 9) = at (pages_at K U)"
      "fresh_bitmap m2 (pages_at K U) (U div 4)"
    and o2: "\<And>x. unat x < heap_at K U \<Longrightarrow> m2 x = m1 x"
    and m3: "\<And>i. i < boot_frames K U \<Longrightarrow> word_at m3 (frames_at K + 4096 + 4 * i) = 1"
    and o3: "\<And>x. unat x < frames_at K + 4096 \<or> frames_at K + 4096 + 4 * boot_frames K U \<le> unat x \<Longrightarrow> m3 x = m2 x"
  shows "boot_mem K U (boot_frames K U) 0 m3"
proof -
  note l = boot_windowD [OF w]
  have top: "boot_end K U \<le> 4294967296" using l(4,8) by simp
  have s2: "word_at m2 a = word_at m1 a" if "a + 4 \<le> heap_at K U" for a
    using that l(3,7) top by (intro word_at_cong o2) auto
  have s3: "word_at m3 a = word_at m2 a" if "a + 4 \<le> frames_at K + 4096 \<or> frames_at K + 4096 + 4 * boot_frames K U \<le> a" "a + 4 \<le> boot_end K U" for a
    using that top by (intro word_at_cong o3) auto
  have q: "U div 128 \<le> U div 4" by (simp add: div_le_mono2)
  show ?thesis using f1 m2 m3 l(3,5-7) q unfolding boot_mem_def fresh_bitmap_def by (simp add: s2 s3 del: of_nat_add of_nat_mult)
qed

lemma boot_structures:
  assumes w: "boot_window K U" and k: "kernel_pointer k = at K"
  shows "\<exists>k5. paging_initialize pf lo (at U) k = do {
        (kernel_directory, k6) \<leftarrow> directory_create 2 k5;
        k7 \<leftarrow> page_map_loop 0 (directory_load kernel_directory k6);
        let k8 = k7\<lparr>isr_routine := (isr_routine k7)(14 := pf)\<rparr>;
        let k9 = (paging_enable k8)\<lparr>paging_state := 1\<rparr>;
        Some (print ''Paging'' k9)
      } \<and> frame_bitmap k5 = at (frames_at K) \<and> kernel_heap k5 = at (heap_at K U) \<and> kernel_pointer k5 = at (boot_end K U) \<and>
    cr0 k5 = cr0 k \<and> paging_state k5 = paging_state k \<and> isr_routine k5 = isr_routine k \<and>
    boot_mem K U (boot_frames K U) 0 (kmem k5)"
proof -
  note l = boot_windowD [OF w]
  let ?p = "frames_at K" and ?h = "heap_at K U" and ?hb = "pages_at K U" and ?n = "boot_frames K U"
  have U4: "at U div 4 = at (U div 4)" "U div 4 div 32 = U div 128"
    using l(2) by (simp_all add: word_unat_eq_iff unat_div unat_of_nat_u32 div_mult2_eq [symmetric])
  have b: "?p + 4096 + 4 * (U div 4) < 4294967296" "?hb + 4096 + U < 4294967296" "U < 2147483648" using l(2,3,4,6-8) by simp_all
  obtain m1 where m1: "bitmap_create (\<lambda>sz. ponter_move_int sz 0 1) (at (U div 4)) k = (at ?p, k\<lparr>kmem := m1, kernel_pointer := at ?h\<rparr>)"
    and f1: "fresh_bitmap m1 ?p (U div 4)"
    using bitmap_create_boot [OF k l(1,10) b(1)] unfolding U4(2) l(6) by blast
  let ?k2 = "k\<lparr>kmem := m1, kernel_pointer := at ?h, frame_bitmap := at ?p\<rparr>"
  have h: "kernel_pointer ?k2 = at ?h" "4096 \<le> ?h" using l(6) by simp_all
  obtain m2 where m2: "heap_create (\<lambda>sz. ponter_move_int sz 0 1) (at U) 0 1 0 ?k2 =
      (at ?h, ?k2\<lparr>kmem := m2, kernel_pointer := at (boot_end K U)\<rparr>)" "word_at m2 ?h = at (U div 4096 * 4096)"
      "word_at m2 (?h + 9) = at ?hb" "fresh_bitmap m2 ?hb (U div 4)"
    and o2: "\<And>x. unat x < ?h \<or> ?hb + 4096 + U \<le> unat x \<Longrightarrow> m2 x = kmem ?k2 x"
    using heap_create_boot [OF h l(11,3) b(2,3)] unfolding l(7) by blast
  let ?k4 = "print ''Kernel Heap'' (?k2\<lparr>kmem := m2, kernel_pointer := at (boot_end K U), kernel_heap := at ?h\<rparr>)"
  have same: "word_at m2 a = word_at m1 a" if "a + 4 \<le> ?h" for a
    using word_at_cong [of a m2 m1] o2 that b(2) l(3) by auto
  have "word_at (kmem ?k4) ?p = at (?p + 4096)" using same [of ?p] f1 l(6) by (simp add: print_def fresh_bitmap_def del: of_nat_add)
  moreover have "frame_bitmap ?k4 = at ?p" "kernel_pointer ?k4 = at (boot_end K U)" by (simp_all add: print_def)
  moreover have "?p + 4 \<le> ?p + 4096" "?p + 4096 + 4 * ?n \<le> 4294967296" "4096 * ?n < 4294967296" "0 \<le> ?n" using l(4,5) b(1) l(12) by simp_all
  ultimately obtain m3 where m3: "frame_set_loop (at (4096 * 0)) ?k4 = Some (?k4\<lparr>kmem := m3\<rparr>)"
    "\<forall>i. 0 \<le> i \<and> i < ?n \<longrightarrow> word_at m3 (?p + 4096 + 4 * i) = 1"
    "\<forall>x. unat x < ?p + 4096 + 4 * 0 \<or> ?p + 4096 + 4 * ?n \<le> unat x \<longrightarrow> m3 x = kmem ?k4 x"
    using frame_set_loop_boot [OF _ _ _ l(8,9)] by blast
  show ?thesis
  proof (intro exI [of _ "?k4\<lparr>kmem := m3\<rparr>"] conjI)
    show "boot_mem K U ?n 0 (kmem (?k4\<lparr>kmem := m3\<rparr>))"
      using boot_mem_start [OF w f1 m2(2-4), of m3] m3(2,3) o2 by (simp add: print_def)
  qed (use m1 m2 m3 in \<open>simp_all add: paging_initialize_def U4 Let_def print_def\<close>)
qed


text \<open>The frame that page \<open>i\<close> of the first four megabytes is mapped to after \<open>j\<close> pages of the heap have been handed out.\<close>

definition boot_target :: "nat \<Rightarrow> nat \<Rightarrow> nat \<Rightarrow> nat \<Rightarrow> nat" where
  "boot_target K U j i = (if U div 4096 < i + j \<and> i \<le> U div 4096 then boot_frames K U + 2 + (U div 4096 - i) else i)"

lemma boot_target_0: "boot_target K U 0 i = i"
  by (auto simp: boot_target_def)

definition boot_tables :: "nat \<Rightarrow> nat \<Rightarrow> nat \<Rightarrow> mem \<Rightarrow> bool" where
  "boot_tables K U j m \<longleftrightarrow> word_at m (4096 * boot_frames K U) = at (4096 * (boot_frames K U + 1)) OR 3 \<and>
     (\<forall>i < 1024. word_at m (4096 * (boot_frames K U + 1) + 4 * i) = at (4096 * boot_target K U j i) OR 3)"

definition booted :: "nat \<Rightarrow> nat \<Rightarrow> nat \<Rightarrow> kernel \<Rightarrow> bool" where
  "booted K U j k \<longleftrightarrow> frame_bitmap k = at (frames_at K) \<and> kernel_heap k = at (heap_at K U) \<and>
     cr3 k = at (4096 * boot_frames K U) \<and> paging_state k = 1 \<and> boot_mem K U (boot_frames K U + 2 + j) j (kmem k) \<and>
     boot_tables K U j (kmem k)"

lemma boot_mem_beyond:
  assumes w: "boot_window K U" and b: "boot_mem K U f j m" "4 * f \<le> U div 128" "4 * j \<le> U div 128"
    and a: "4096 * boot_frames K U \<le> a" "a + 4096 \<le> 4294967296" and same: "\<And>x. \<not> in_rng (at a) 4096 x \<Longrightarrow> m' x = m x"
  shows "boot_mem K U f j m'"
  by (rule boot_mem_cong [OF w b same]) (use a boot_windowD(8) [OF w] in \<open>simp add: in_rng_at\<close>)

lemma fill_entries_at: "i < 1024 \<Longrightarrow> word_at (fill_entries f (at a) m) (a + 4 * i) = f i (word_at m (a + 4 * i))"
  using fill_entries_entry [of "at i" f "at a" m] by (simp add: of_nat_index)

lemma directory_create_boot:
  assumes w: "boot_window K U" and b: "boot_mem K U (boot_frames K U) 0 (kmem k)" and k: "frame_bitmap k = at (frames_at K)"
  shows "\<exists>m. directory_create 2 k = Some (at (4096 * boot_frames K U), k\<lparr>kmem := m\<rparr>) \<and>
    boot_mem K U (boot_frames K U + 1) 0 m \<and> word_at m (4096 * boot_frames K U) = 2"
proof -
  let ?n = "boot_frames K U"
  note l = boot_windowD [OF w]
  have n: "4 * (?n + 1) \<le> U div 128" "?n \<le> 1022" using l(4,5) by simp_all
  have "?n \<noteq> 0" using l(7,8) by auto
  then have nz: "at (4096 * ?n) \<noteq> 0" using n(2) by (intro at_nonzero) simp_all
  let ?m1 = "store32 (kmem k) (at (frames_at K + 4096 + 4 * ?n)) 1"
  let ?m2 = "fill_entries (\<lambda>_ _. 2) (at (4096 * ?n)) ?m1"
  have "boot_mem K U (?n + 1) 0 ?m2"
    by (rule boot_mem_beyond [OF w boot_mem_frame [OF w b n(1)] n(1), of "4096 * ?n"]) (use n in \<open>simp_all add: fill_entries_outside\<close>)
  moreover have "word_at ?m2 (4096 * ?n) = 2" using fill_entries_at [of 0 "\<lambda>_ _. 2" "4096 * ?n"] by simp
  moreover have "directory_create 2 k = Some (at (4096 * ?n), k\<lparr>kmem := ?m2\<rparr>)"
    using boot_frame_alloc [OF w b n(1) k] nz by (simp add: directory_create_def upd_kmem_def del: of_nat_mult of_nat_add)
  ultimately show ?thesis by blast
qed

lemma first_page_map:
  assumes w: "boot_window K U" and b: "boot_mem K U (boot_frames K U + 1) 0 (kmem k)" "word_at (kmem k) (4096 * boot_frames K U) = 2"
    and k: "frame_bitmap k = at (frames_at K)" "cr3 k = at (4096 * boot_frames K U)" "paging_state k = 0"
  shows "\<exists>m. page_map 0 0 3 0 k = Some (0, k\<lparr>kmem := m\<rparr>) \<and> boot_mem K U (boot_frames K U + 2) 0 m \<and> boot_tables K U 0 m"
proof -
  let ?n = "boot_frames K U"
  let ?D = "4096 * ?n" and ?T = "4096 * (?n + 1)"
  note l = boot_windowD [OF w]
  have n: "4 * (?n + 1 + 1) \<le> U div 128" "?n \<le> 1022" "frames_at K + 4096 + 4 * (?n + 2) \<le> ?D" using l(3-8) by simp_all
  let ?m1 = "store32 (kmem k) (at (frames_at K + 4096 + 4 * (?n + 1))) 1"
  let ?m2 = "fill_entries (\<lambda>i _. (of_nat i * PAGE_SIZE_HEX) OR 3) (at ?T) ?m1"
  let ?m3 = "store32 ?m2 (at ?D) (at ?T OR 3)"
  have nz: "at ?T \<noteq> 0" using n(2) by (intro at_nonzero) simp_all
  have d2: "word_at (kmem k) ?D AND USED \<noteq> USED" using b(2) by (simp add: USED_def)
  have f2: "word_at ?m2 (?T + 4 * i) = at (4096 * i) OR 3" if "i < 1024" for i
    using fill_entries_at [OF that, of _ ?T] by (simp add: PAGE_SIZE_HEX_def mult.commute)
  have f3: "word_at ?m3 (?T + 4 * i) = at (4096 * i) OR 3" if "i < 1024" for i
    using f2 [OF that] word_at_store [of ?D "?T + 4 * i" ?m2] that n(2) by simp
  have "boot_mem K U (?n + 1 + 1) 0 ?m1" by (rule boot_mem_frame [OF w b(1) n(1)]) simp
  then have bm2: "boot_mem K U (?n + 1 + 1) 0 ?m2"
    by (rule boot_mem_beyond [OF w _ n(1), of _ _ ?T]) (use n in \<open>simp_all add: fill_entries_outside\<close>)
  have same: "?m3 x = ?m2 x" if "\<not> in_rng (at ?D) 4096 x" for x
  proof (rule store_at_outside)
    show "?D + 4 \<le> 4294967296" using n(2) by simp
    have "\<not> (?D \<le> unat x \<and> unat x < ?D + 4096)" using that n(2) in_rng_at [of ?D 4096 x] by simp
    then show "\<not> (?D \<le> unat x \<and> unat x < ?D + 4)" by linarith
  qed
  have "boot_mem K U (?n + 1 + 1) 0 ?m3"
    by (rule boot_mem_beyond [OF w bm2 n(1) _ order_refl _ same]) (use n(2) in simp_all)
  then have bm: "boot_mem K U (?n + 2) 0 ?m3" by (simp only: add.assoc one_add_one)
  have "table_create 3 k = Some (at ?T, k\<lparr>kmem := ?m2\<rparr>)"
    using boot_frame_alloc [OF w b(1) n(1) k(1)] nz k(3) by (simp add: table_create_def upd_kmem_def del: of_nat_mult of_nat_add)
  moreover have "store32 ?m3 (at ?T) 3 = ?m3" using f3 [of 0] store32_same [of ?m3 "at ?T"] by simp
  moreover have "DIR_GET 0 = 0" "TLB_GET 0 = 0" using page_number [of 0] by simp_all
  ultimately have "page_map 0 0 3 0 k = Some (0, k\<lparr>kmem := ?m3\<rparr>)"
    using d2 k(2) frame_number(2) [of "?n + 1"]
    by (simp add: page_map_def page_dir_of_def directory_get_def Let_def upd_kmem_def table_map_def USED_def del: of_nat_mult of_nat_add)
  then show ?thesis using bm f3 by (auto simp: boot_tables_def boot_target_def)
qed


lemma page_map_loop_boot:
  assumes w: "boot_window K U" and b: "boot_mem K U (boot_frames K U + 1) 0 (kmem k)" "word_at (kmem k) (4096 * boot_frames K U) = 2"
    and k: "frame_bitmap k = at (frames_at K)" "cr3 k = at (4096 * boot_frames K U)" "paging_state k = 0" "kernel_pointer k = at (boot_end K U)"
  shows "\<exists>m. page_map_loop 0 k = Some (k\<lparr>kmem := m\<rparr>) \<and> boot_mem K U (boot_frames K U + 2) 0 m \<and> boot_tables K U 0 m"
proof -
  let ?n = "boot_frames K U"
  note l = boot_windowD [OF w]
  obtain m where m: "page_map 0 0 3 0 k = Some (0, k\<lparr>kmem := m\<rparr>)" "boot_mem K U (?n + 2) 0 m" "boot_tables K U 0 m"
    using first_page_map [OF w b k(1-3)] by blast
  have n: "1 \<le> ?n" "?n \<le> 1022" using l(4,7,8) by simp_all
  have "unat (at (boot_end K U)) = boot_end K U" using l(4,8) by (intro unat_of_nat_u32) simp
  then have lt: "0 < kernel_pointer k" using k(4) l(7) by (simp add: word_less_nat_alt)
  have nz: "at (4096 * ?n) \<noteq> 0" using n by (intro at_nonzero) simp_all
  have "page_map_loop (at (4096 * 1)) (k\<lparr>kmem := m\<rparr>) = Some (k\<lparr>kmem := m\<rparr>)"
    by (rule page_map_loop_identity [OF _ nz, of _ "?n + 1" "boot_end K U"])
      (use m(3) k n l(8,9) in \<open>simp_all add: boot_tables_def boot_target_0\<close>)
  then have "page_map_loop 0 k = Some (k\<lparr>kmem := m\<rparr>)"
    using m(1) lt by (subst page_map_loop.simps) (simp add: PAGE_SIZE_HEX_def)
  then show ?thesis using m by blast
qed

lemma paging_initialize_booted:
  assumes w: "boot_window K U" and k: "kernel_pointer k = at K" "paging_state k = 0"
  shows "\<exists>k'. paging_initialize pf lo (at U) k = Some k' \<and> booted K U 0 k' \<and> cr0 k' = cr0 k OR 0x80000000 \<and>
    isr_routine k' = (isr_routine k)(14 := pf)"
proof -
  obtain k5 where pi: "paging_initialize pf lo (at U) k = do {
        (kernel_directory, k6) \<leftarrow> directory_create 2 k5;
        k7 \<leftarrow> page_map_loop 0 (directory_load kernel_directory k6);
        let k8 = k7\<lparr>isr_routine := (isr_routine k7)(14 := pf)\<rparr>;
        let k9 = (paging_enable k8)\<lparr>paging_state := 1\<rparr>;
        Some (print ''Paging'' k9)
      }" and k5: "frame_bitmap k5 = at (frames_at K)" "kernel_heap k5 = at (heap_at K U)" "kernel_pointer k5 = at (boot_end K U)"
    "cr0 k5 = cr0 k" "paging_state k5 = 0" "isr_routine k5 = isr_routine k" "boot_mem K U (boot_frames K U) 0 (kmem k5)"
    using boot_structures [OF w k(1), of pf lo] unfolding k(2) by blast
  obtain m6 where m6: "directory_create 2 k5 = Some (at (4096 * boot_frames K U), k5\<lparr>kmem := m6\<rparr>)"
    "boot_mem K U (boot_frames K U + 1) 0 m6" "word_at m6 (4096 * boot_frames K U) = 2"
    using directory_create_boot [OF w k5(7,1)] by blast
  let ?k6 = "directory_load (at (4096 * boot_frames K U)) (k5\<lparr>kmem := m6\<rparr>)"
  have k6: "kmem ?k6 = m6" "frame_bitmap ?k6 = at (frames_at K)" "cr3 ?k6 = at (4096 * boot_frames K U)" "paging_state ?k6 = 0"
    "kernel_pointer ?k6 = at (boot_end K U)" using k5 by (simp_all add: directory_load_def)
  obtain m where m: "page_map_loop 0 ?k6 = Some (?k6\<lparr>kmem := m\<rparr>)" "boot_mem K U (boot_frames K U + 2) 0 m" "boot_tables K U 0 m"
    using page_map_loop_boot [OF w _ _ k6(2-5)] m6(2,3) unfolding k6(1) by blast
  show ?thesis using m m6(1) k5 k6 unfolding pi by (simp add: booted_def paging_enable_def print_def Let_def directory_load_def)
qed

lemma walk_at:
  assumes "word_at m D = at (4096 * t) OR 3" "word_at m (4096 * t + 4 * (unat v div 4096)) = at (4096 * f) OR 3" "unat v < 0x400000"
  shows "walk m (at D) v = Some (at (4096 * f) + (v AND 0xFFF))"
proof -
  let ?i = "unat v div 4096"
  have i: "?i < 1024" using assms(3) by simp
  have "drop_bit 12 v = drop_bit 12 (at (4096 * ?i))"
    using i by (simp add: word_unat_eq_iff unat_drop_bit_eq drop_bit_eq_div unat_div unat_of_nat_u32 del: of_nat_mult)
  then have "DIR_GET v = 0" "TLB_GET v = at ?i" using page_eq_iff [of v "at (4096 * ?i)"] page_number [OF i] by simp_all
  moreover have "(at (4096 * f) OR 3) AND 1 \<noteq> 0" "(at (4096 * f) OR 3) AND NOT 0xFFF = at (4096 * f)" for f
    using frame_number(2,3) [of f] by (simp_all add: USED_def PHY_GET_def del: of_nat_mult)
  ultimately show ?thesis using assms(1,2) by (simp add: walk_def pde_def pte_def Let_def del: of_nat_mult) (simp add: ac_simps)
qed

lemma page_offset: "at (4096 * (unat v div 4096)) + (v AND 0xFFF) = v"
proof -
  have "v AND 0xFFF = at (unat v mod 4096)"
    by (simp add: mask_numerals take_bit_eq_mask [symmetric] take_bit_eq_mod word_unat_eq_iff unat_mod unat_of_nat_u32)
  then have "at (4096 * (unat v div 4096)) + (v AND 0xFFF) = at (4096 * (unat v div 4096) + unat v mod 4096)" by (simp only: of_nat_add)
  also have "\<dots> = v" by (simp only: mult_div_mod_eq) simp
  finally show ?thesis .
qed

text \<open>A kernel that ends at \<open>0x110000\<close>, before memory management is set up.\<close>

lemma booted_walk:
  assumes "boot_window K U" "booted K U 0 k" "v < 0x400000"
  shows "walk (kmem k) (cr3 k) v = Some v"
proof -
  have t: "boot_tables K U 0 (kmem k)" "cr3 k = at (4096 * boot_frames K U)" using assms(2) by (simp_all add: booted_def)
  have v: "unat v < 0x400000" using assms(3) by (simp add: word_less_nat_alt)
  then show ?thesis using walk_at [of "kmem k" "4096 * boot_frames K U" "boot_frames K U + 1" v "unat v div 4096"] t page_offset [of v]
    unfolding boot_tables_def boot_target_0 by simp
qed

definition sample_start :: kernel where
  "sample_start = sample_paging\<lparr>kernel_pointer := 0x110000, paging_state := 0\<rparr>"

lemma sample_window: "boot_window 0x110000 0x3FC00"
  by (simp add: boot_window_def boot_frames_def boot_end_def pages_at_def heap_at_def frames_at_def next_page_def)

lemma sample_start_fields: "kernel_pointer sample_start = of_nat 0x110000" "paging_state sample_start = 0"
  by (simp_all add: sample_start_def)

text \<open>
  the start of memory management for every end of the kernel \<open>K\<close> and memory size \<open>U\<close> in the window: \<open>paging_initialize\<close> ends, turns
  paging on with the directory in the first frame behind everything it reserved, maps every address of the
  first four megabytes to itself, installs the page fault handler, and leaves an empty kernel heap whose top is \<open>U\<close> rounded down to a page.
\<close>

theorem paging_initialize_maps:
  assumes "boot_window K U" and "kernel_pointer k = of_nat K" and "paging_state k = 0"
  shows "\<exists>k'. paging_initialize page_fault lo (of_nat U) k = Some k' \<and> paging_state k' = 1 \<and> cr0 k' = cr0 k OR 0x80000000 \<and>
    isr_routine k' 14 = page_fault \<and> unat (cr3 k') = 4096 * boot_frames K U \<and>
    heap_start (kmem k') (kernel_heap k') = of_nat (U div 4096 * 4096) \<and> (\<forall>v < 0x400000. walk (kmem k') (cr3 k') v = Some v)"
proof -
  note l = boot_windowD [OF assms(1)]
  obtain k' where k': "paging_initialize page_fault lo (at U) k = Some k'" "booted K U 0 k'" "cr0 k' = cr0 k OR 0x80000000"
    "isr_routine k' = (isr_routine k)(14 := page_fault)" using paging_initialize_booted [OF assms] by blast
  have m: "boot_mem K U (boot_frames K U + 2) 0 (kmem k')"
    and p: "kernel_heap k' = at (heap_at K U)" "cr3 k' = at (4096 * boot_frames K U)" "paging_state k' = 1"
    using k'(2) by (simp_all add: booted_def)
  have "walk (kmem k') (cr3 k') v = Some v" if "v < 0x400000" for v using booted_walk [OF assms(1) k'(2) that] .
  moreover have "unat (cr3 k') = 4096 * boot_frames K U" unfolding p(2) using l(4) by (intro unat_of_nat_u32) simp
  moreover have "heap_start (kmem k') (kernel_heap k') = at (U div 4096 * 4096)" using m by (simp add: p heap_start_def boot_mem_def)
  ultimately show ?thesis using k'(1,3,4) p(3) by simp
qed

theorem paging_initialize_maps_witness:
  "\<exists>k'. paging_initialize 0x5000 0 0x3FC00 sample_start = Some k' \<and> walk (kmem k') (cr3 k') 0x123456 = Some 0x123456"
  using paging_initialize_maps [OF sample_window sample_start_fields, of "0x5000" 0] by auto

text \<open>
  C14: outside the window the start destroys what it has built: on a machine with little memory the loop that marks the frames of the
  kernel runs over the heap structure, which lies inside the bitmap; the start of the heap becomes 1 and its bitmap \<open>0x1000000\<close>.
\<close>

theorem boot_heap_overwritten:
  assumes K: "kernel_pointer k = of_nat K" "4096 \<le> K" and U: "512 dvd U" "U < 0x400000"
    and room: "heap_at K U + 13 \<le> pages_at K U" and n: "U div 512 + 4 \<le> boot_frames K U" "boot_frames K U \<le> 1022"
  shows "\<exists>k1 k3 k5. bitmap_create (\<lambda>sz. ponter_move_int sz 0 1) (of_nat U div 4) k = (of_nat (frames_at K), k1) \<and>
    heap_create (\<lambda>sz. ponter_move_int sz 0 1) (of_nat U) 0 1 0 (k1\<lparr>frame_bitmap := of_nat (frames_at K)\<rparr>) = (of_nat (heap_at K U), k3) \<and>
    heap_start (kmem k3) (of_nat (heap_at K U)) = of_nat (U div 4096 * 4096) \<and> frame_set_loop 0 k3 = Some k5 \<and>
    heap_start (kmem k5) (of_nat (heap_at K U)) = 1 \<and> heap_bitmap (kmem k5) (of_nat (heap_at K U)) = 0x1000000"
proof -
  let ?p = "frames_at K" and ?h = "heap_at K U" and ?hb = "pages_at K U" and ?n = "boot_frames K U"
  have fr: "boot_end K U \<le> 4096 * ?n" "4096 * ?n \<le> boot_end K U + 4095" by (rule boot_frames_bounds)+
  have d: "?h = ?p + 4096 + U div 128" "boot_end K U = ?hb + 4096 + U div 128" "?p = next_page K" "?hb = next_page (?h + 4)"
    by (simp_all add: heap_at_def boot_end_def frames_at_def pages_at_def)
  have q: "U div 128 = 4 * (U div 512)" using U(1) by (auto elim!: dvdE)
  have U4: "at U div 4 = at (U div 4)" "U div 4 div 32 = U div 128"
    using U(2) by (simp_all add: word_unat_eq_iff unat_div unat_of_nat_u32 div_mult2_eq [symmetric])
  have b: "?p + 4096 + 4 * (U div 4) < 4294967296" "?hb + 4096 + U < 4294967296" "U < 2147483648" using U(2) room n(2) fr d(1,2) by simp_all
  obtain m1 where m1: "bitmap_create (\<lambda>sz. ponter_move_int sz 0 1) (at (U div 4)) k = (at ?p, k\<lparr>kmem := m1, kernel_pointer := at ?h\<rparr>)"
    and f1: "fresh_bitmap m1 ?p (U div 4)"
    using bitmap_create_boot [OF K d(3) b(1)] unfolding U4(2) d(1) by blast
  let ?k2 = "k\<lparr>kmem := m1, kernel_pointer := at ?h, frame_bitmap := at ?p\<rparr>"
  have h: "kernel_pointer ?k2 = at ?h" "4096 \<le> ?h" using d(1) by simp_all
  obtain m2 where m2: "heap_create (\<lambda>sz. ponter_move_int sz 0 1) (at U) 0 1 0 ?k2 =
      (at ?h, ?k2\<lparr>kmem := m2, kernel_pointer := at (boot_end K U)\<rparr>)" "word_at m2 ?h = at (U div 4096 * 4096)"
    and o2: "\<And>x. unat x < ?h \<or> ?hb + 4096 + U \<le> unat x \<Longrightarrow> m2 x = kmem ?k2 x"
    using heap_create_boot [OF h d(4) room b(2,3)] unfolding d(2) by blast
  let ?k3 = "?k2\<lparr>kmem := m2, kernel_pointer := at (boot_end K U)\<rparr>"
  have "word_at m2 ?p = word_at m1 ?p" using b(2) d(1) room by (intro word_at_cong) (auto intro!: o2 [simplified])
  then have "word_at (kmem ?k3) ?p = at (?p + 4096)" using f1 by (simp add: fresh_bitmap_def del: of_nat_add)
  moreover have "frame_bitmap ?k3 = at ?p" "kernel_pointer ?k3 = at (boot_end K U)" by simp_all
  moreover have "?p + 4 \<le> ?p + 4096" "?p + 4096 + 4 * ?n \<le> 4294967296" "4096 * ?n < 4294967296" "0 \<le> ?n" using n(2) fr d(1,2) room by simp_all
  ultimately obtain m3 where m3: "frame_set_loop (at (4096 * 0)) ?k3 = Some (?k3\<lparr>kmem := m3\<rparr>)"
    "\<forall>i. 0 \<le> i \<and> i < ?n \<longrightarrow> word_at m3 (?p + 4096 + 4 * i) = 1"
    using frame_set_loop_boot [OF _ _ _ fr] by blast
  have w: "load32 m3 (at ?h + of_nat (4 * j)) = 1" if "j < 4" for j
    using m3(2) [rule_format, of "U div 512 + j"] that n(1) unfolding d(1) q by (simp add: ac_simps)
  have w8: "load32 m3 (at ?h + 8) = 1" "load32 m3 (at ?h + 12) = 1" "load32 m3 (at ?h) = 1" using w [of 2] w [of 3] w [of 0] by simp_all
  have "load32 m3 (at ?h + 9) = 0x1000000"
    using load32_bytes [of m3 "at ?h + 8"] load32_bytes(1) [of m3 "at ?h + 12"] unfolding w8 by (simp add: load32_def ac_simps)
  then show ?thesis using m1 m2 m3(1) w8(3) unfolding U4(1)
    by (intro exI [of _ "k\<lparr>kmem := m1, kernel_pointer := at ?h\<rparr>"] exI [of _ ?k3] exI [of _ "?k3\<lparr>kmem := m3\<rparr>"])
      (simp add: heap_start_def heap_bitmap_def)
qed

theorem boot_heap_overwritten_witness:
  "\<exists>k1 k3 k5. bitmap_create (\<lambda>sz. ponter_move_int sz 0 1) (0x1FC00 div 4) sample_start = (0x111000, k1) \<and>
    heap_create (\<lambda>sz. ponter_move_int sz 0 1) 0x1FC00 0 1 0 (k1\<lparr>frame_bitmap := 0x111000\<rparr>) = (0x1123F8, k3) \<and>
    frame_set_loop 0 k3 = Some k5 \<and> heap_start (kmem k5) 0x1123F8 = 1"
proof -
  have "frames_at 0x110000 = 0x111000" "heap_at 0x110000 0x1FC00 = 0x1123F8" "pages_at 0x110000 0x1FC00 = 0x113000"
    "boot_frames 0x110000 0x1FC00 = 0x115"
    by (simp_all add: boot_frames_def boot_end_def pages_at_def heap_at_def frames_at_def next_page_def)
  then show ?thesis using boot_heap_overwritten [OF sample_start_fields(1), of "0x1FC00"] by fastforce
qed

end
