(* ===== verification/Liballoc.thy ===== *)
theory Liballoc
  imports Libc_Mem
begin

text \<open>
  The kernel's dynamic allocator, \<^verbatim>\<open>kernel/arch/i386/mem/liballoc.c\<close>. Every block starts with a
  \<open>struct boundary_tag\<close> of 32 bytes that lives in the same memory as the payload: the tags are read
  and written field by field in the flat byte memory, so that a write of a client and a write of the
  allocator may alias in the model exactly when they do in the program. The two hooks of
  \<^verbatim>\<open>liballoc.h\<close> that hand out and take back pages are arguments of the operations. A loop that follows
  pointers is a \<open>partial_function\<close>: the value \<open>None\<close> stands for a loop that never ends.
\<close>

section \<open>Boundary tags in memory\<close>

record boundary_tag =
  bt_magic :: u32
  bt_size :: u32
  bt_real_size :: u32
  bt_index :: u32
  bt_split_left :: u32
  bt_split_right :: u32
  bt_next :: u32
  bt_prev :: u32

text \<open>The eight fields at their offsets; \<open>sizeof(struct boundary_tag)\<close> is 32.\<close>

definition tag_at :: "mem \<Rightarrow> u32 \<Rightarrow> boundary_tag" where
  "tag_at m t = \<lparr>bt_magic = load32 m t, bt_size = load32 m (t + 4),
     bt_real_size = load32 m (t + 8), bt_index = load32 m (t + 12),
     bt_split_left = load32 m (t + 16), bt_split_right = load32 m (t + 20),
     bt_next = load32 m (t + 24), bt_prev = load32 m (t + 28)\<rparr>"

abbreviation sizeof_tag :: u32 where "sizeof_tag \<equiv> 32"

definition set_magic :: "u32 \<Rightarrow> u32 \<Rightarrow> mem \<Rightarrow> mem" where "set_magic t v m = store32 m t v"
definition set_size :: "u32 \<Rightarrow> u32 \<Rightarrow> mem \<Rightarrow> mem" where "set_size t v m = store32 m (t + 4) v"
definition set_real_size :: "u32 \<Rightarrow> u32 \<Rightarrow> mem \<Rightarrow> mem" where "set_real_size t v m = store32 m (t + 8) v"
definition set_index :: "u32 \<Rightarrow> u32 \<Rightarrow> mem \<Rightarrow> mem" where "set_index t v m = store32 m (t + 12) v"
definition set_split_left :: "u32 \<Rightarrow> u32 \<Rightarrow> mem \<Rightarrow> mem" where "set_split_left t v m = store32 m (t + 16) v"
definition set_split_right :: "u32 \<Rightarrow> u32 \<Rightarrow> mem \<Rightarrow> mem" where "set_split_right t v m = store32 m (t + 20) v"
definition set_next :: "u32 \<Rightarrow> u32 \<Rightarrow> mem \<Rightarrow> mem" where "set_next t v m = store32 m (t + 24) v"
definition set_prev :: "u32 \<Rightarrow> u32 \<Rightarrow> mem \<Rightarrow> mem" where "set_prev t v m = store32 m (t + 28) v"

section \<open>State\<close>

definition LIBALLOC_MAGIC :: u32 where "LIBALLOC_MAGIC = 0xc001c0de"
definition MAXCOMPLETE :: int where "MAXCOMPLETE = 5"
definition MAXEXP :: nat where "MAXEXP = 32"
definition MINEXP :: nat where "MINEXP = 8"
definition MODE :: int where "MODE = 0"
definition l_pageSize :: u32 where "l_pageSize = 4096"
definition l_pageCount :: u32 where "l_pageCount = 1"

text \<open>
  \<open>heap_mem\<close> is the address space, \<open>pages\<close> the state of the page supplier behind the hooks and
  \<open>int_enabled\<close> the interrupt flag, which the lock clears and the unlock sets. The two arrays are
  functions of the C index, so that an access outside their 32 entries stays an access.
\<close>

record 'h liballoc =
  heap_mem :: mem
  l_freePages :: "int \<Rightarrow> u32"
  l_completePages :: "int \<Rightarrow> int"
  l_initialized :: bool
  int_enabled :: bool
  pages :: 'h

text \<open>The hooks: number of pages in, address (0 for none) out; address and pages in, status out.\<close>

record 'h hooks =
  liballoc_alloc :: "'h \<Rightarrow> u32 \<Rightarrow> (u32 \<times> 'h) option"
  liballoc_free :: "'h \<Rightarrow> u32 \<Rightarrow> u32 \<Rightarrow> (int \<times> 'h) option"

definition upd_mem :: "(mem \<Rightarrow> mem) \<Rightarrow> 'h liballoc \<Rightarrow> 'h liballoc" where
  "upd_mem f s = s\<lparr>heap_mem := f (heap_mem s)\<rparr>"

abbreviation tagof :: "'h liballoc \<Rightarrow> u32 \<Rightarrow> boundary_tag" where
  "tagof s t \<equiv> tag_at (heap_mem s) t"

definition heap_lock :: "'h liballoc \<Rightarrow> int \<times> 'h liballoc" where
  [simp]: "heap_lock s = (1, s\<lparr>int_enabled := False\<rparr>)"

definition heap_unlock :: "'h liballoc \<Rightarrow> int \<times> 'h liballoc" where
  [simp]: "heap_unlock s = (1, s\<lparr>int_enabled := True\<rparr>)"

definition liballoc_lock :: "'h liballoc \<Rightarrow> 'h liballoc" where
  "liballoc_lock s = snd (heap_lock s)"

definition liballoc_unlock :: "'h liballoc \<Rightarrow> 'h liballoc" where
  "liballoc_unlock s = snd (heap_unlock s)"

section \<open>Helper functions\<close>

function getexp_loop :: "nat \<Rightarrow> u32 \<Rightarrow> nat" where
  "getexp_loop shift sz =
     (if shift < MAXEXP then
        if push_bit shift 1 > sz then shift else getexp_loop (shift + 1) sz
      else shift)"
  by pat_completeness auto
termination
  by (relation "measure (\<lambda>(shift, sz). MAXEXP - shift)") auto

declare getexp_loop.simps [simp del]

definition getexp :: "u32 \<Rightarrow> int" where
  "getexp sz = (if sz < push_bit MINEXP 1 then - 1 else int (getexp_loop MINEXP sz) - 1)"

definition liballoc_memset :: "mem \<Rightarrow> u32 \<Rightarrow> u32 \<Rightarrow> u32 \<Rightarrow> mem \<times> u32" where
  "liballoc_memset m s c n = (memset_loop m s (ucast c) 0 n, s)"

function memcpy_longs :: "mem \<Rightarrow> u32 \<Rightarrow> u32 \<Rightarrow> u32 \<Rightarrow> mem \<times> u32 \<times> u32 \<times> u32" where
  "memcpy_longs m ldest lsrc n =
     (if n \<ge> 4 then memcpy_longs (store32 m ldest (load32 m lsrc)) (ldest + 4) (lsrc + 4) (n - 4)
      else (m, ldest, lsrc, n))"
  by pat_completeness auto
termination
  by (relation "measure (\<lambda>(m, d, s, n). unat n)") (auto simp: unat_sub word_le_nat_alt)

function memcpy_chars :: "mem \<Rightarrow> u32 \<Rightarrow> u32 \<Rightarrow> u32 \<Rightarrow> mem" where
  "memcpy_chars m cdest csrc n =
     (if n > 0 then memcpy_chars (m(cdest := m csrc)) (cdest + 1) (csrc + 1) (n - 1) else m)"
  by pat_completeness auto
termination
  by (relation "measure (\<lambda>(m, d, s, n). unat n)") (auto simp: loop_down_dec)

declare memcpy_longs.simps [simp del] memcpy_chars.simps [simp del]

definition liballoc_memcpy :: "mem \<Rightarrow> u32 \<Rightarrow> u32 \<Rightarrow> u32 \<Rightarrow> mem \<times> u32" where
  "liballoc_memcpy m s1 s2 n =
     (let (m', ldest, lsrc, n') = memcpy_longs m s1 s2 n in (memcpy_chars m' ldest lsrc n', s1))"

section \<open>Free lists\<close>

definition insert_tag :: "u32 \<Rightarrow> int \<Rightarrow> 'h liballoc \<Rightarrow> 'h liballoc" where
  "insert_tag tag index s =
     (let realIndex =
        (if index < 0 then
           (let r = getexp (bt_real_size (tagof s tag) - sizeof_tag)
            in if r < int MINEXP then int MINEXP else r)
         else index);
        s1 = upd_mem (set_index tag (word_of_int realIndex)) s;
        s2 = (if l_freePages s1 realIndex \<noteq> 0 then
                upd_mem (set_next tag (l_freePages s1 realIndex))
                  (upd_mem (set_prev (l_freePages s1 realIndex) tag) s1)
              else s1)
      in s2\<lparr>l_freePages := (l_freePages s2)(realIndex := tag)\<rparr>)"

definition remove_tag :: "u32 \<Rightarrow> 'h liballoc \<Rightarrow> 'h liballoc" where
  "remove_tag tag s =
     (let i = sint (bt_index (tagof s tag));
        s1 = (if l_freePages s i = tag
              then s\<lparr>l_freePages := (l_freePages s)(i := bt_next (tagof s tag))\<rparr> else s);
        s2 = (if bt_prev (tagof s1 tag) \<noteq> 0
              then upd_mem (set_next (bt_prev (tagof s1 tag)) (bt_next (tagof s1 tag))) s1 else s1);
        s3 = (if bt_next (tagof s2 tag) \<noteq> 0
              then upd_mem (set_prev (bt_next (tagof s2 tag)) (bt_prev (tagof s2 tag))) s2 else s2)
      in upd_mem (set_index tag (- 1)) (upd_mem (set_prev tag 0) (upd_mem (set_next tag 0) s3)))"

section \<open>Splitting and melting\<close>

definition melt_left :: "u32 \<Rightarrow> 'h liballoc \<Rightarrow> u32 \<times> 'h liballoc" where
  "melt_left tag s =
     (let left = bt_split_left (tagof s tag);
        s1 = upd_mem (set_real_size left
               (bt_real_size (tagof s left) + bt_real_size (tagof s tag))) s;
        s2 = upd_mem (set_split_right left (bt_split_right (tagof s1 tag))) s1;
        s3 = (if bt_split_right (tagof s2 tag) \<noteq> 0
              then upd_mem (set_split_left (bt_split_right (tagof s2 tag)) left) s2 else s2)
      in (left, s3))"

definition absorb_right :: "u32 \<Rightarrow> 'h liballoc \<Rightarrow> u32 \<times> 'h liballoc" where
  "absorb_right tag s =
     (let right = bt_split_right (tagof s tag);
        s1 = remove_tag right s;
        s2 = upd_mem (set_real_size tag
               (bt_real_size (tagof s1 tag) + bt_real_size (tagof s1 right))) s1;
        s3 = upd_mem (set_split_right tag (bt_split_right (tagof s2 right))) s2;
        s4 = (if bt_split_right (tagof s3 right) \<noteq> 0
              then upd_mem (set_split_left (bt_split_right (tagof s3 right)) tag) s3 else s3)
      in (tag, s4))"

definition split_tag :: "u32 \<Rightarrow> 'h liballoc \<Rightarrow> u32 \<times> 'h liballoc" where
  "split_tag tag s =
     (let remainder = bt_real_size (tagof s tag) - sizeof_tag - bt_size (tagof s tag);
        new_tag = tag + sizeof_tag + bt_size (tagof s tag);
        s1 = upd_mem (set_magic new_tag LIBALLOC_MAGIC) s;
        s2 = upd_mem (set_real_size new_tag remainder) s1;
        s3 = upd_mem (set_next new_tag 0) s2;
        s4 = upd_mem (set_prev new_tag 0) s3;
        s5 = upd_mem (set_split_left new_tag tag) s4;
        s6 = upd_mem (set_split_right new_tag (bt_split_right (tagof s5 tag))) s5;
        s7 = (if bt_split_right (tagof s6 new_tag) \<noteq> 0
              then upd_mem (set_split_left (bt_split_right (tagof s6 new_tag)) new_tag) s6 else s6);
        s8 = upd_mem (set_split_right tag new_tag) s7;
        s9 = upd_mem (set_real_size tag
               (bt_real_size (tagof s8 tag) - bt_real_size (tagof s8 new_tag))) s8
      in (new_tag, insert_tag new_tag (- 1) s9))"

definition allocate_new_tag :: "'h hooks \<Rightarrow> u32 \<Rightarrow> 'h liballoc \<Rightarrow> (u32 \<times> 'h liballoc) option" where
  "allocate_new_tag hk sz s =
     (let usage = sz + sizeof_tag;
        pages0 = usage div l_pageSize;
        pages1 = (if usage mod l_pageSize \<noteq> 0 then pages0 + 1 else pages0);
        npages = (if pages1 < l_pageCount then l_pageCount else pages1)
      in case liballoc_alloc hk (pages s) npages of
           None \<Rightarrow> None
         | Some (tag, h) \<Rightarrow>
             (let s0 = s\<lparr>pages := h\<rparr>
              in if tag = 0 then Some (0, s0)
                 else Some (tag,
                   upd_mem (set_split_right tag 0) (upd_mem (set_split_left tag 0)
                   (upd_mem (set_prev tag 0) (upd_mem (set_next tag 0)
                   (upd_mem (set_index tag (- 1)) (upd_mem (set_real_size tag (npages * l_pageSize))
                   (upd_mem (set_size tag sz) (upd_mem (set_magic tag LIBALLOC_MAGIC) s0))))))))))"

section \<open>malloc\<close>

partial_function (option) find_tag :: "mem \<Rightarrow> u32 \<Rightarrow> u32 \<Rightarrow> u32 option" where
  "find_tag m sz tag =
     (if tag = 0 then Some 0
      else if bt_real_size (tag_at m tag) - sizeof_tag \<ge> sz + sizeof_tag then Some tag
      else find_tag m sz (bt_next (tag_at m tag)))"

definition malloc_init :: "'h liballoc \<Rightarrow> 'h liballoc" where
  "malloc_init s =
     (if l_initialized s then s
      else s\<lparr>l_freePages := (\<lambda>i. if 0 \<le> i \<and> i < int MAXEXP then 0 else l_freePages s i),
             l_completePages := (\<lambda>i. if 0 \<le> i \<and> i < int MAXEXP then 0 else l_completePages s i),
             l_initialized := True\<rparr>)"

text \<open>The part of \<open>malloc\<close> after a tag was found or made: record the size, split off the excess.\<close>

definition malloc_finish :: "u32 \<Rightarrow> u32 \<Rightarrow> 'h liballoc \<Rightarrow> u32 \<times> 'h liballoc" where
  "malloc_finish sz tag s =
     (let s1 = upd_mem (set_size tag sz) s;
        remainder = bt_real_size (tagof s1 tag) - sz - sizeof_tag * 2;
        s2 = (if sint remainder > 0 then
                (let childIndex = getexp remainder
                 in if childIndex \<ge> 0 then snd (split_tag tag s1) else s1)
              else s1)
      in (tag + sizeof_tag, liballoc_unlock s2))"

definition malloc :: "'h hooks \<Rightarrow> u32 \<Rightarrow> 'h liballoc \<Rightarrow> (u32 \<times> 'h liballoc) option" where
  "malloc hk sz s0 =
     (let s = malloc_init (liballoc_lock s0);
        index0 = getexp sz + MODE;
        index = (if index0 < int MINEXP then int MINEXP else index0)
      in case find_tag (heap_mem s) sz (l_freePages s index) of
           None \<Rightarrow> None
         | Some found \<Rightarrow>
             if found = 0 then
               (case allocate_new_tag hk sz s of
                  None \<Rightarrow> None
                | Some (tag, s1) \<Rightarrow>
                    if tag = 0 then Some (0, liballoc_unlock s1)
                    else Some (malloc_finish sz tag s1))
             else
               (let s1 = remove_tag found s;
                  s2 = (if bt_split_left (tagof s1 found) = 0 \<and> bt_split_right (tagof s1 found) = 0
                        then s1\<lparr>l_completePages :=
                               (l_completePages s1)(index := l_completePages s1 index - 1)\<rparr>
                        else s1)
                in Some (malloc_finish sz found s2)))"

section \<open>free\<close>

partial_function (option) melt_left_loop :: "u32 \<Rightarrow> 'h liballoc \<Rightarrow> (u32 \<times> 'h liballoc) option" where
  "melt_left_loop tag s =
     (if bt_split_left (tagof s tag) \<noteq> 0 \<and>
         sint (bt_index (tagof s (bt_split_left (tagof s tag)))) \<ge> 0
      then melt_left_loop (fst (melt_left tag s))
             (remove_tag (fst (melt_left tag s)) (snd (melt_left tag s)))
      else Some (tag, s))"

partial_function (option) absorb_right_loop :: "u32 \<Rightarrow> 'h liballoc \<Rightarrow> (u32 \<times> 'h liballoc) option" where
  "absorb_right_loop tag s =
     (if bt_split_right (tagof s tag) \<noteq> 0 \<and>
         sint (bt_index (tagof s (bt_split_right (tagof s tag)))) \<ge> 0
      then absorb_right_loop (fst (absorb_right tag s)) (snd (absorb_right tag s))
      else Some (tag, s))"

text \<open>The part of \<open>free\<close> after the melting: give the block back to the pages or to its free list.\<close>

definition free_finish :: "'h hooks \<Rightarrow> u32 \<Rightarrow> 'h liballoc \<Rightarrow> 'h liballoc option" where
  "free_finish hk tag s =
     (let index0 = getexp (bt_real_size (tagof s tag) - sizeof_tag);
        index = (if index0 < int MINEXP then int MINEXP else index0)
      in if bt_split_left (tagof s tag) = 0 \<and> bt_split_right (tagof s tag) = 0 then
           if l_completePages s index = MAXCOMPLETE then
             (let pages0 = bt_real_size (tagof s tag) div l_pageSize;
                pages1 = (if bt_real_size (tagof s tag) mod l_pageSize \<noteq> 0 then pages0 + 1 else pages0);
                npages = (if pages1 < l_pageCount then l_pageCount else pages1)
              in case liballoc_free hk (pages s) tag npages of
                   None \<Rightarrow> None
                 | Some (_, h) \<Rightarrow> Some (liballoc_unlock (s\<lparr>pages := h\<rparr>)))
           else Some (liballoc_unlock (insert_tag tag index
                  (s\<lparr>l_completePages := (l_completePages s)(index := l_completePages s index + 1)\<rparr>)))
         else Some (liballoc_unlock (insert_tag tag index s)))"

definition free :: "'h hooks \<Rightarrow> u32 \<Rightarrow> 'h liballoc \<Rightarrow> 'h liballoc option" where
  "free hk ptr s0 =
     (if ptr = 0 then Some s0
      else
        (let s = liballoc_lock s0; tag = ptr - sizeof_tag
         in if bt_magic (tagof s tag) \<noteq> LIBALLOC_MAGIC then Some (liballoc_unlock s)
            else do {
              (tag1, s1) \<leftarrow> melt_left_loop tag s;
              (tag2, s2) \<leftarrow> absorb_right_loop tag1 s1;
              free_finish hk tag2 s2
            }))"

declare find_tag.simps [code] melt_left_loop.simps [code] absorb_right_loop.simps [code]

section \<open>calloc and realloc\<close>

definition calloc :: "'h hooks \<Rightarrow> u32 \<Rightarrow> u32 \<Rightarrow> 'h liballoc \<Rightarrow> (u32 \<times> 'h liballoc) option" where
  "calloc hk nobj sz s =
     (let real_size = nobj * sz
      in do {
        (p, s1) \<leftarrow> malloc hk real_size s;
        Some (p, upd_mem (\<lambda>m. fst (liballoc_memset m p 0 real_size)) s1)
      })"

definition realloc :: "'h hooks \<Rightarrow> u32 \<Rightarrow> u32 \<Rightarrow> 'h liballoc \<Rightarrow> (u32 \<times> 'h liballoc) option" where
  "realloc hk p sz s =
     (if sz = 0 then do { s1 \<leftarrow> free hk p s; Some (0, s1) }
      else if p = 0 then malloc hk sz s
      else
        (let s1 = liballoc_lock s; tag = p - sizeof_tag;
           real_size0 = bt_size (tagof s1 tag);
           s2 = liballoc_unlock s1;
           real_size = (if real_size0 > sz then sz else real_size0)
         in do {
           (ptr, s3) \<leftarrow> malloc hk sz s2;
           s4 \<leftarrow> free hk p (upd_mem (\<lambda>m. fst (liballoc_memcpy m ptr p real_size)) s3);
           Some (ptr, s4)
         }))"

end
