(* ===== verification/Liballoc_Tags.thy ===== *)
theory Liballoc_Tags
  imports Liballoc
begin

text \<open>
  The tags of the allocator seen as a typed heap. The first section shows that a write to one field
  changes that field only, and no field of a tag 32 bytes away; the second is the theory of the
  doubly linked free lists; the third gives, for each helper of \<^verbatim>\<open>liballoc.c\<close>, every tag after the call
  in terms of the tags before it.
\<close>

section \<open>Tags as a typed heap\<close>

lemmas set_field_defs = set_magic_def set_size_def set_real_size_def set_index_def
  set_split_left_def set_split_right_def set_next_def set_prev_def

lemma load32_store32_tag:
  assumes "disj t 32 u 32" and "unat i + 4 \<le> 32" and "unat j + 4 \<le> 32"
  shows "load32 (store32 m (t + i) v) (u + j) = load32 m (u + j)"
  by (rule load32_store32_disj, rule disj_sub [OF assms]) simp_all

lemmas load32_store32_tag0 =
  load32_store32_tag [where i = 0, simplified] load32_store32_tag [where j = 0, simplified]
  load32_store32_tag [where i = 0 and j = 0, simplified] load32_store32_tag

lemma tag_at_cong:
  assumes m: "\<And>x. in_rng t 32 x \<Longrightarrow> m' x = m x"
  shows "tag_at m' t = tag_at m t"
proof -
  have "in_rng t 32 x" if "in_rng (t + k) 4 x" "unat k + 4 \<le> 32" for k x
    using in_rng_shift [OF that(1), of 32] that(2) by simp
  then have "load32 m' (t + k) = load32 m (t + k)" if "unat k + 4 \<le> 32" for k
    using that m by (intro load32_cong) blast
  from this [of 0] this [of 4] this [of 8] this [of 12] this [of 16] this [of 20] this [of 24] this [of 28]
  show ?thesis by (simp add: tag_at_def)
qed

lemma tag_at_set_other:
  assumes "disj t 32 u 32"
  shows "tag_at (set_magic t v m) u = tag_at m u" "tag_at (set_size t v m) u = tag_at m u"
    "tag_at (set_real_size t v m) u = tag_at m u" "tag_at (set_index t v m) u = tag_at m u"
    "tag_at (set_split_left t v m) u = tag_at m u" "tag_at (set_split_right t v m) u = tag_at m u"
    "tag_at (set_next t v m) u = tag_at m u" "tag_at (set_prev t v m) u = tag_at m u"
  using assms by (simp_all add: set_field_defs tag_at_def load32_store32_tag0)

lemma tag_at_set_same [simp]:
  "tag_at (set_magic t v m) t = (tag_at m t)\<lparr>bt_magic := v\<rparr>"
  "tag_at (set_size t v m) t = (tag_at m t)\<lparr>bt_size := v\<rparr>"
  "tag_at (set_real_size t v m) t = (tag_at m t)\<lparr>bt_real_size := v\<rparr>"
  "tag_at (set_index t v m) t = (tag_at m t)\<lparr>bt_index := v\<rparr>"
  "tag_at (set_split_left t v m) t = (tag_at m t)\<lparr>bt_split_left := v\<rparr>"
  "tag_at (set_split_right t v m) t = (tag_at m t)\<lparr>bt_split_right := v\<rparr>"
  "tag_at (set_next t v m) t = (tag_at m t)\<lparr>bt_next := v\<rparr>"
  "tag_at (set_prev t v m) t = (tag_at m t)\<lparr>bt_prev := v\<rparr>"
  by (simp_all add: set_field_defs tag_at_def load32_store32_disj disj_def)

section \<open>Doubly linked lists\<close>

type_synonym theap = "u32 \<Rightarrow> boundary_tag"

fun dseg :: "theap \<Rightarrow> u32 \<Rightarrow> u32 \<Rightarrow> u32 list \<Rightarrow> u32 \<Rightarrow> u32 \<Rightarrow> bool" where
  "dseg h q p [] r z \<longleftrightarrow> q = r \<and> p = z"
| "dseg h q p (x # xs) r z \<longleftrightarrow>
     p = x \<and> x \<noteq> 0 \<and> bt_prev (h x) = q \<and> dseg h x (bt_next (h x)) xs r z"

definition dll :: "theap \<Rightarrow> u32 \<Rightarrow> u32 list \<Rightarrow> bool" where
  "dll h p xs \<longleftrightarrow> (\<exists>r. dseg h 0 p xs r 0)"

lemma dseg_append: "dseg h q p (xs @ ys) r z \<longleftrightarrow> (\<exists>r' z'. dseg h q p xs r' z' \<and> dseg h r' z' ys r z)"
  by (induction xs arbitrary: q p) auto

lemma dseg_cong:
  "(\<And>u. u \<in> set xs \<Longrightarrow> bt_next (h' u) = bt_next (h u) \<and> bt_prev (h' u) = bt_prev (h u)) \<Longrightarrow>
   dseg h' q p xs r z = dseg h q p xs r z"
  by (induction xs arbitrary: q p) auto

lemma dseg_nonzero: "dseg h q p xs r z \<Longrightarrow> 0 \<notin> set xs"
  by (induction xs arbitrary: q p) auto

lemma dseg_unique: "dseg h q p xs r 0 \<Longrightarrow> dseg h q' p ys r' 0 \<Longrightarrow> xs = ys"
proof (induction xs arbitrary: q q' p ys)
  case Nil
  then show ?case by (cases ys) auto
next
  case (Cons x xs)
  then show ?case by (cases ys) auto
qed

lemma dseg_distinct: "dseg h q p xs r 0 \<Longrightarrow> distinct xs"
proof (induction xs arbitrary: q p)
  case (Cons x xs)
  have "x \<notin> set xs"
  proof
    assume "x \<in> set xs"
    then obtain as bs where xs: "xs = as @ x # bs" by (auto simp: in_set_conv_decomp)
    then have "dseg h x (bt_next (h x)) (as @ x # bs) r 0" using Cons.prems by simp
    then have "\<exists>q'. dseg h q' x (x # bs) r 0" by (auto simp: dseg_append)
    then have "dseg h x (bt_next (h x)) bs r 0" by auto
    moreover have "dseg h x (bt_next (h x)) xs r 0" using Cons.prems by simp
    ultimately have "bs = xs" by (rule dseg_unique)
    then show False using xs by simp
  qed
  then show ?case using Cons by auto
qed simp

lemma dll_distinct: "dll h p xs \<Longrightarrow> distinct xs"
  by (auto simp: dll_def dest: dseg_distinct)

lemma dll_nonzero: "dll h p xs \<Longrightarrow> 0 \<notin> set xs"
  by (auto simp: dll_def dest: dseg_nonzero)

lemma dll_Nil [simp]: "dll h p [] \<longleftrightarrow> p = 0"
  by (simp add: dll_def)

lemma dll_cong:
  "(\<And>u. u \<in> set xs \<Longrightarrow> bt_next (h' u) = bt_next (h u) \<and> bt_prev (h' u) = bt_prev (h u)) \<Longrightarrow>
   dll h' p xs = dll h p xs"
  by (simp add: dll_def dseg_cong [of xs h' h])

lemma dll_hd: "dll h p xs \<Longrightarrow> p \<noteq> 0 \<Longrightarrow> \<exists>ys. xs = p # ys"
  by (cases xs) (auto simp: dll_def)

lemma dll_insert:
  assumes "dll h p xs" and "t \<noteq> 0"
    and "bt_next (h' t) = p" and "bt_prev (h' t) = 0"
    and "\<And>u. u \<in> set xs \<Longrightarrow> bt_next (h' u) = bt_next (h u) \<and>
           bt_prev (h' u) = (if u = p then t else bt_prev (h u))"
  shows "dll h' t (t # xs)"
proof (cases xs)
  case Nil
  with assms show ?thesis by (simp add: dll_def)
next
  case (Cons x ys)
  have d: "distinct (x # ys)" using dll_distinct [OF assms(1)] Cons by simp
  from assms(1) Cons have x: "p = x" "x \<noteq> 0" by (auto simp: dll_def)
  from assms(1) Cons obtain r where "dseg h x (bt_next (h x)) ys r 0" by (auto simp: dll_def)
  moreover have "dseg h' x (bt_next (h x)) ys r 0 = dseg h x (bt_next (h x)) ys r 0"
    using assms(5) d x Cons by (intro dseg_cong) auto
  ultimately show ?thesis
    using assms Cons x by (auto simp: dll_def)
qed

text \<open>The neighbours of an element of a list.\<close>

lemma dll_neighbours:
  assumes "dll h p (xs @ t # ys)"
  shows "bt_prev (h t) = (if xs = [] then 0 else last xs)"
    and "bt_next (h t) = (if ys = [] then 0 else hd ys)"
    and "p = (if xs = [] then t else hd xs)"
    and "t \<noteq> 0"
proof -
  obtain r r' z' where 1: "dseg h 0 p xs r' z'" and 2: "dseg h r' z' (t # ys) r 0"
    using assms by (auto simp: dll_def dseg_append)
  have "r' = (if xs = [] then 0 else last xs)"
    using 1 by (cases xs rule: rev_cases) (auto simp: dseg_append)
  then show "bt_prev (h t) = (if xs = [] then 0 else last xs)" using 2 by simp
  show "bt_next (h t) = (if ys = [] then 0 else hd ys)" using 2 by (cases ys) auto
  show "p = (if xs = [] then t else hd xs)" using 1 2 by (cases xs) auto
  show "t \<noteq> 0" using 2 by simp
qed

lemma dll_remove:
  assumes d: "dll h p (xs @ t # ys)"
    and nx: "\<And>u. u \<in> set xs \<union> set ys \<Longrightarrow>
          bt_next (h' u) = (if u = bt_prev (h t) then bt_next (h t) else bt_next (h u))"
    and pv: "\<And>u. u \<in> set xs \<union> set ys \<Longrightarrow>
          bt_prev (h' u) = (if u = bt_next (h t) then bt_prev (h t) else bt_prev (h u))"
  shows "dll h' (if p = t then bt_next (h t) else p) (xs @ ys)"
proof -
  have dist: "distinct (xs @ t # ys)" and nz: "0 \<notin> set (xs @ t # ys)"
    using d dll_distinct dll_nonzero by blast+
  note nb = dll_neighbours [OF d]
  have pvy: "bt_prev (h t) \<notin> set ys" using nb(1) dist nz by (auto dest: last_in_set split: if_splits)
  have nxx: "bt_next (h t) \<notin> set xs" using nb(2) dist nz by (auto dest: hd_in_set split: if_splits)
  obtain r r' z' where 1: "dseg h 0 p xs r' z'" and 2: "dseg h r' z' (t # ys) r 0"
    using d by (auto simp: dll_def dseg_append)
  have r': "r' = bt_prev (h t)" and z': "z' = t" using 2 by auto
  have right: "\<exists>r2. dseg h' r' (bt_next (h t)) ys r2 0"
  proof (cases ys)
    case Nil
    with 2 show ?thesis by auto
  next
    case (Cons y zs)
    have "dseg h' y (bt_next (h y)) zs r 0 = dseg h y (bt_next (h y)) zs r 0"
      using dist nx pv nb(2) Cons pvy by (intro dseg_cong) auto
    moreover have "bt_next (h' y) = bt_next (h y)"
      using nx [of y] pvy Cons by auto
    moreover have "bt_prev (h' y) = r'"
      using pv [of y] nb(2) Cons r' by simp
    ultimately show ?thesis using 2 Cons by auto
  qed
  have left: "dseg h' 0 (if p = t then bt_next (h t) else p) xs r' (bt_next (h t))"
  proof (cases xs rule: rev_cases)
    case Nil
    with 1 z' show ?thesis by simp
  next
    case (snoc ws w)
    have pt: "p \<noteq> t" using nb(3) dist snoc by (cases ws) auto
    obtain r1 z1 where "dseg h 0 p ws r1 z1" "dseg h r1 z1 [w] r' z'"
      using 1 snoc dseg_append by blast
    then have w: "dseg h 0 p ws r1 w" "bt_prev (h w) = r1" "r' = w" "w \<noteq> 0"
      by auto
    have "bt_prev (h t) = w" using nb(1) snoc by simp
    then have "bt_next (h' u) = bt_next (h u) \<and> bt_prev (h' u) = bt_prev (h u)"
      if "u \<in> set ws" for u
      using that nx [of u] pv [of u] dist snoc nxx by auto
    then have "dseg h' 0 p ws r1 w = dseg h 0 p ws r1 w"
      by (intro dseg_cong) simp
    moreover have "bt_next (h' w) = bt_next (h t)"
      using nx [of w] nb(1) snoc by simp
    moreover have "bt_prev (h' w) = r1"
      using pv [of w] nxx snoc w(2) by auto
    ultimately have "dseg h' 0 p ws r1 w \<and> dseg h' r1 w [w] r' (bt_next (h t))" using w by simp
    then show ?thesis using snoc pt dseg_append by fastforce
  qed
  show ?thesis using left right unfolding dll_def dseg_append by blast
qed

section \<open>What each operation does to the tags\<close>

definition sep_tags :: "u32 set \<Rightarrow> bool" where
  "sep_tags T \<longleftrightarrow> (\<forall>t \<in> T. \<forall>u \<in> T. t \<noteq> u \<longrightarrow> disj t 32 u 32)"

lemma sep_tagsD: "sep_tags T \<Longrightarrow> t \<in> T \<Longrightarrow> u \<in> T \<Longrightarrow> u \<noteq> t \<Longrightarrow> disj t 32 u 32"
  by (auto simp: sep_tags_def)

lemma upd_mem_simps [simp]:
  "heap_mem (upd_mem f s) = f (heap_mem s)" "l_freePages (upd_mem f s) = l_freePages s"
  "l_completePages (upd_mem f s) = l_completePages s" "l_initialized (upd_mem f s) = l_initialized s"
  "pages (upd_mem f s) = pages s" "int_enabled (upd_mem f s) = int_enabled s"
  by (simp_all add: upd_mem_def)

lemma tag_view:
  assumes "sep_tags T" "t \<in> T" "u \<in> T"
  shows "tag_at (set_magic t v m) u = (if u = t then (tag_at m u)\<lparr>bt_magic := v\<rparr> else tag_at m u)"
    "tag_at (set_size t v m) u = (if u = t then (tag_at m u)\<lparr>bt_size := v\<rparr> else tag_at m u)"
    "tag_at (set_real_size t v m) u = (if u = t then (tag_at m u)\<lparr>bt_real_size := v\<rparr> else tag_at m u)"
    "tag_at (set_index t v m) u = (if u = t then (tag_at m u)\<lparr>bt_index := v\<rparr> else tag_at m u)"
    "tag_at (set_split_left t v m) u = (if u = t then (tag_at m u)\<lparr>bt_split_left := v\<rparr> else tag_at m u)"
    "tag_at (set_split_right t v m) u = (if u = t then (tag_at m u)\<lparr>bt_split_right := v\<rparr> else tag_at m u)"
    "tag_at (set_next t v m) u = (if u = t then (tag_at m u)\<lparr>bt_next := v\<rparr> else tag_at m u)"
    "tag_at (set_prev t v m) u = (if u = t then (tag_at m u)\<lparr>bt_prev := v\<rparr> else tag_at m u)"
  using sep_tagsD [OF assms] by (simp_all add: tag_at_set_other)

lemma remove_tag_view:
  assumes T: "sep_tags T" "t \<in> T" "u \<in> T" "0 \<notin> T"
    and nb: "bt_prev (tagof s t) \<noteq> 0 \<Longrightarrow> bt_prev (tagof s t) \<in> T"
      "bt_next (tagof s t) \<noteq> 0 \<Longrightarrow> bt_next (tagof s t) \<in> T"
      "bt_prev (tagof s t) \<noteq> t" "bt_next (tagof s t) \<noteq> t"
  shows "tagof (remove_tag t s) u =
     (if u = t then (tagof s t)\<lparr>bt_next := 0, bt_prev := 0, bt_index := - 1\<rparr>
      else (tagof s u)\<lparr>
        bt_next := (if u = bt_prev (tagof s t) then bt_next (tagof s t) else bt_next (tagof s u)),
        bt_prev := (if u = bt_next (tagof s t) then bt_prev (tagof s t) else bt_prev (tagof s u))\<rparr>)"
  using assms by (auto simp: remove_tag_def Let_def tag_view [OF T(1)])

lemma remove_tag_fields [simp]:
  "l_completePages (remove_tag t s) = l_completePages s"
  "l_initialized (remove_tag t s) = l_initialized s"
  "pages (remove_tag t s) = pages s"
  "l_freePages (remove_tag t s) =
     (let i = sint (bt_index (tagof s t)) in
      if l_freePages s i = t then (l_freePages s)(i := bt_next (tagof s t)) else l_freePages s)"
  by (simp_all add: remove_tag_def Let_def)

definition cls :: "u32 \<Rightarrow> int" where
  "cls w = (if getexp w < int MINEXP then int MINEXP else getexp w)"

lemma insert_tag_view:
  assumes T: "sep_tags T" "t \<in> T" "u \<in> T" "0 \<notin> T"
    and i: "i = (if ix < 0 then cls (bt_real_size (tagof s t) - 32) else ix)"
    and fp: "l_freePages s i \<noteq> 0 \<Longrightarrow> l_freePages s i \<in> T" "l_freePages s i \<noteq> t"
    and nx: "bt_next (tagof s t) = 0"
  shows "tagof (insert_tag t ix s) u =
     (if u = t then (tagof s t)\<lparr>bt_index := word_of_int i, bt_next := l_freePages s i\<rparr>
      else (tagof s u)\<lparr>bt_prev := (if u = l_freePages s i then t else bt_prev (tagof s u))\<rparr>)"
proof -
  have i': "(if ix < 0 then let r = getexp (bt_real_size (tagof s t) - sizeof_tag)
         in if r < int MINEXP then int MINEXP else r else ix) = i"
    by (simp add: i cls_def Let_def)
  show ?thesis
    unfolding insert_tag_def i'
    using assms by (auto simp: Let_def tag_view [OF T(1)])
qed

lemma insert_tag_fields [simp]:
  "l_completePages (insert_tag t ix s) = l_completePages s"
  "l_initialized (insert_tag t ix s) = l_initialized s"
  "pages (insert_tag t ix s) = pages s"
  "l_freePages (insert_tag t ix s) =
    (l_freePages s)((if ix < 0 then cls (bt_real_size (tagof s t) - 32) else ix) := t)"
  by (simp_all add: insert_tag_def Let_def cls_def)

lemma melt_left_view:
  assumes T: "sep_tags T" "t \<in> T" "u \<in> T" "0 \<notin> T"
    and l: "bt_split_left (tagof s t) \<in> T" "bt_split_left (tagof s t) \<noteq> t"
    and r: "bt_split_right (tagof s t) \<noteq> 0 \<Longrightarrow> bt_split_right (tagof s t) \<in> T"
      "bt_split_right (tagof s t) \<noteq> t" "bt_split_right (tagof s t) \<noteq> bt_split_left (tagof s t)"
  shows "tagof (snd (melt_left t s)) u =
     (let l = bt_split_left (tagof s t) in
      if u = l then (tagof s l)\<lparr>bt_real_size := bt_real_size (tagof s l) + bt_real_size (tagof s t),
           bt_split_right := bt_split_right (tagof s t)\<rparr>
      else if u = bt_split_right (tagof s t) then (tagof s u)\<lparr>bt_split_left := l\<rparr>
      else tagof s u)"
  using assms by (auto simp: melt_left_def Let_def tag_view [OF T(1)])

lemma melt_left_fields [simp]:
  "fst (melt_left t s) = bt_split_left (tagof s t)"
  "l_freePages (snd (melt_left t s)) = l_freePages s"
  "l_completePages (snd (melt_left t s)) = l_completePages s"
  "l_initialized (snd (melt_left t s)) = l_initialized s"
  "pages (snd (melt_left t s)) = pages s"
  by (simp_all add: melt_left_def Let_def)

lemma absorb_right_view:
  assumes T: "sep_tags T" "t \<in> T" "u \<in> T" "0 \<notin> T"
    and rr: "rr = bt_split_right (tagof s t)" "s1 = remove_tag rr s"
    and l: "rr \<in> T" "rr \<noteq> t"
    and r: "bt_split_right (tagof s1 rr) \<noteq> 0 \<Longrightarrow> bt_split_right (tagof s1 rr) \<in> T"
      "bt_split_right (tagof s1 rr) \<noteq> t" "bt_split_right (tagof s1 rr) \<noteq> rr"
  shows "tagof (snd (absorb_right t s)) u =
      (if u = t then (tagof s1 t)\<lparr>bt_real_size := bt_real_size (tagof s1 t) + bt_real_size (tagof s1 rr),
           bt_split_right := bt_split_right (tagof s1 rr)\<rparr>
      else if u = bt_split_right (tagof s1 rr) then (tagof s1 u)\<lparr>bt_split_left := t\<rparr>
      else tagof s1 u)"
  using assms(1-4,7-) unfolding absorb_right_def Let_def rr(1) [symmetric] rr(2) [symmetric]
  by (auto simp: tag_view [OF T(1)])

lemma absorb_right_fields [simp]:
  "fst (absorb_right t s) = t"
  "l_freePages (snd (absorb_right t s)) = l_freePages (remove_tag (bt_split_right (tagof s t)) s)"
  "l_completePages (snd (absorb_right t s)) = l_completePages s"
  "l_initialized (snd (absorb_right t s)) = l_initialized s"
  "pages (snd (absorb_right t s)) = pages s"
  by (simp_all add: absorb_right_def Let_def)

text \<open>The state of \<open>split_tag\<close> before the new tag is inserted.\<close>

definition split_raw :: "u32 \<Rightarrow> 'h liballoc \<Rightarrow> 'h liballoc" where
  "split_raw tag s =
     (let remainder = bt_real_size (tagof s tag) - sizeof_tag - bt_size (tagof s tag);
        new_tag = tag + sizeof_tag + bt_size (tagof s tag);
        s1 = upd_mem (set_magic new_tag LIBALLOC_MAGIC) s;
        s2 = upd_mem (set_real_size new_tag remainder) s1;
        s3 = upd_mem (set_next new_tag 0) s2;
        s4 = upd_mem (set_prev new_tag 0) s3;
        s5 = upd_mem (set_split_left new_tag tag) s4;
        s6 = upd_mem (set_split_right new_tag (bt_split_right (tagof s5 tag))) s5;
        s7 = (if bt_split_right (tagof s6 new_tag) \<noteq> 0
              then upd_mem (set_split_left (bt_split_right (tagof s6 new_tag)) new_tag) s6 else s6);
        s8 = upd_mem (set_split_right tag new_tag) s7
      in upd_mem (set_real_size tag
               (bt_real_size (tagof s8 tag) - bt_real_size (tagof s8 new_tag))) s8)"

lemma split_tag_raw:
  "split_tag tag s = (let new_tag = tag + sizeof_tag + bt_size (tagof s tag)
     in (new_tag, insert_tag new_tag (- 1) (split_raw tag s)))"
  by (simp add: split_tag_def split_raw_def Let_def)

lemma split_raw_view:
  assumes T: "sep_tags (insert n T)" "t \<in> T" "u \<in> insert n T" "0 \<notin> T" "n \<notin> T"
    and n: "n = t + 32 + bt_size (tagof s t)"
    and r: "bt_split_right (tagof s t) \<noteq> 0 \<Longrightarrow> bt_split_right (tagof s t) \<in> T"
      "bt_split_right (tagof s t) \<noteq> t"
  shows "tagof (split_raw t s) u =
      (let rem = bt_real_size (tagof s t) - 32 - bt_size (tagof s t) in
       if u = n then (tagof s n)\<lparr>bt_magic := LIBALLOC_MAGIC, bt_real_size := rem,
           bt_split_left := t, bt_split_right := bt_split_right (tagof s t), bt_next := 0, bt_prev := 0\<rparr>
       else if u = t then (tagof s t)\<lparr>bt_real_size := bt_real_size (tagof s t) - rem, bt_split_right := n\<rparr>
       else if u = bt_split_right (tagof s t) then (tagof s u)\<lparr>bt_split_left := n\<rparr>
       else tagof s u)"
proof -
  have mem: "n \<in> insert n T" "t \<in> insert n T" "t \<noteq> n" using T by auto
  show ?thesis
    using T(2-) r mem unfolding split_raw_def Let_def n [symmetric]
    by (auto simp: tag_view [OF T(1)])
qed

lemma split_raw_fields [simp]:
  "l_freePages (split_raw t s) = l_freePages s"
  "l_completePages (split_raw t s) = l_completePages s"
  "l_initialized (split_raw t s) = l_initialized s"
  "pages (split_raw t s) = pages s"
  by (simp_all add: split_raw_def Let_def)

end
