(* ===== verification/Liballoc_Tiling.thy ===== *)
theory Liballoc_Tiling
  imports Liballoc_Tags
begin

text \<open>
  The geometry of the heap: the blocks tile the regions obtained from the pages. Merging a block into
  its left neighbour and splitting a block in two keep the tiling; both are stated on the typed heap,
  away from the order in which the code writes the fields.
\<close>

section \<open>Geometry of the tags\<close>

abbreviation rsz :: "theap \<Rightarrow> u32 \<Rightarrow> nat" where
  "rsz h t \<equiv> unat (bt_real_size (h t))"

text \<open>The blocks are disjoint, each holds its tag, and none wraps around.\<close>

definition geom :: "theap \<Rightarrow> u32 set \<Rightarrow> bool" where
  "geom h T \<longleftrightarrow> finite T \<and> 0 \<notin> T \<and>
     (\<forall>t \<in> T. bt_magic (h t) = LIBALLOC_MAGIC \<and> 32 \<le> rsz h t \<and> unat t + rsz h t \<le> 4294967296) \<and>
     (\<forall>t \<in> T. \<forall>u \<in> T. t \<noteq> u \<longrightarrow> unat t + rsz h t \<le> unat u \<or> unat u + rsz h u \<le> unat t)"

text \<open>The split links connect blocks that are neighbours in memory, in both directions.\<close>

definition links :: "theap \<Rightarrow> u32 set \<Rightarrow> bool" where
  "links h T \<longleftrightarrow>
     (\<forall>t \<in> T. bt_split_right (h t) \<noteq> 0 \<longrightarrow> bt_split_right (h t) \<in> T \<and>
        bt_split_left (h (bt_split_right (h t))) = t \<and> unat (bt_split_right (h t)) = unat t + rsz h t) \<and>
     (\<forall>t \<in> T. bt_split_left (h t) \<noteq> 0 \<longrightarrow> bt_split_left (h t) \<in> T \<and>
        bt_split_right (h (bt_split_left (h t))) = t)"

text \<open>Every block lies in a region obtained from the pages; the outer blocks reach its ends.\<close>

definition owns :: "theap \<Rightarrow> u32 set \<Rightarrow> (u32 \<times> nat) set \<Rightarrow> bool" where
  "owns h T W \<longleftrightarrow> (\<forall>t \<in> T. \<exists>(a, n) \<in> W. unat a \<le> unat t \<and> unat t + rsz h t \<le> unat a + n \<and>
     (bt_split_left (h t) = 0 \<longleftrightarrow> a = t) \<and> (bt_split_right (h t) = 0 \<longleftrightarrow> unat t + rsz h t = unat a + n))"

text \<open>The regions themselves are disjoint and do not wrap around.\<close>

definition regions_ok :: "(u32 \<times> nat) set \<Rightarrow> bool" where
  "regions_ok W \<longleftrightarrow> (\<forall>(a, n) \<in> W. 0 < n \<and> unat a + n \<le> 4294967296) \<and>
     (\<forall>(a, n) \<in> W. \<forall>(b, k) \<in> W. (a, n) \<noteq> (b, k) \<longrightarrow> unat a + n \<le> unat b \<or> unat b + k \<le> unat a)"

lemma regions_ok_same:
  assumes "regions_ok W" "(a, n) \<in> W" "(b, k) \<in> W"
    and "unat a \<le> x" "x < unat a + n" "unat b \<le> x" "x < unat b + k"
  shows "a = b \<and> n = k"
  using assms unfolding regions_ok_def by fastforce

definition tiling :: "theap \<Rightarrow> u32 set \<Rightarrow> (u32 \<times> nat) set \<Rightarrow> bool" where
  "tiling h T W \<longleftrightarrow> geom h T \<and> links h T \<and> owns h T W"

lemma geomD:
  assumes "geom h T"
  shows "finite T" "0 \<notin> T"
    "t \<in> T \<Longrightarrow> bt_magic (h t) = LIBALLOC_MAGIC" "t \<in> T \<Longrightarrow> 32 \<le> rsz h t"
    "t \<in> T \<Longrightarrow> unat t + rsz h t \<le> 4294967296"
    "t \<in> T \<Longrightarrow> u \<in> T \<Longrightarrow> t \<noteq> u \<Longrightarrow> unat t + rsz h t \<le> unat u \<or> unat u + rsz h u \<le> unat t"
  using assms by (auto simp: geom_def)

lemma linksD:
  assumes "links h T" and "t \<in> T"
  shows "bt_split_right (h t) \<noteq> 0 \<Longrightarrow> bt_split_right (h t) \<in> T"
    "bt_split_right (h t) \<noteq> 0 \<Longrightarrow> bt_split_left (h (bt_split_right (h t))) = t"
    "bt_split_right (h t) \<noteq> 0 \<Longrightarrow> unat (bt_split_right (h t)) = unat t + rsz h t"
    "bt_split_left (h t) \<noteq> 0 \<Longrightarrow> bt_split_left (h t) \<in> T"
    "bt_split_left (h t) \<noteq> 0 \<Longrightarrow> bt_split_right (h (bt_split_left (h t))) = t"
  using assms by (auto simp: links_def)

lemma geom_sep: "geom h T \<Longrightarrow> sep_tags T"
  unfolding sep_tags_def
proof (intro ballI impI)
  fix t u
  assume g: "geom h T" and tu: "t \<in> T" "u \<in> T" "t \<noteq> u"
  note d = geomD [OF g]
  from d(6) [OF tu] show "disj t 32 u 32"
  proof
    assume "unat t + rsz h t \<le> unat u"
    then show ?thesis using d(4) [OF tu(1)] d(4) [OF tu(2)] d(5) [OF tu(2)] by (intro disj_lin) auto
  next
    assume "unat u + rsz h u \<le> unat t"
    then show ?thesis
      using d(4) [OF tu(1)] d(4) [OF tu(2)] d(5) [OF tu(1)] by (intro disj_sym [OF disj_lin]) auto
  qed
qed

text \<open>A block's neighbours are other blocks, and different ones.\<close>

lemma tiling_neq:
  assumes "geom h T" "links h T" "t \<in> T"
  shows "bt_split_right (h t) \<noteq> t" "bt_split_left (h t) \<noteq> t"
    "bt_split_right (h t) \<noteq> 0 \<Longrightarrow> bt_split_right (h t) \<noteq> bt_split_left (h t)"
proof -
  note g = geomD [OF assms(1)] and l = linksD [OF assms(2)]
  show r: "bt_split_right (h t) \<noteq> t"
    using l(3) [OF assms(3)] g(4) [OF assms(3)] g(2) assms(3) by force
  show lf: "bt_split_left (h t) \<noteq> t"
    using l(5) [OF assms(3)] r g(2) assms(3) by force
  show "bt_split_right (h t) \<noteq> bt_split_left (h t)" if "bt_split_right (h t) \<noteq> 0"
  proof
    assume eq: "bt_split_right (h t) = bt_split_left (h t)"
    let ?v = "bt_split_right (h t)"
    have v: "?v \<in> T" "unat ?v = unat t + rsz h t" using l(1,3) [OF assms(3)] that by auto
    have "bt_split_right (h ?v) = t" using l(5) [OF assms(3)] that eq by simp
    then have "unat t = unat ?v + rsz h ?v" using l(3) [OF v(1)] g(2) assms(3) by auto
    then show False using v g(4) [OF assms(3)] by simp
  qed
qed

lemma tiling_cong:
  assumes "\<And>t. t \<in> T \<Longrightarrow> bt_magic (h' t) = bt_magic (h t) \<and> bt_real_size (h' t) = bt_real_size (h t) \<and>
     bt_split_left (h' t) = bt_split_left (h t) \<and> bt_split_right (h' t) = bt_split_right (h t)"
    and "tiling h T W"
  shows "tiling h' T W"
proof -
  have "geom h' T" using assms by (simp add: tiling_def geom_def)
  moreover have "links h' T" using assms by (auto simp: tiling_def links_def)
  moreover have "owns h' T W" using assms by (auto simp: tiling_def owns_def)
  ultimately show ?thesis by (simp add: tiling_def)
qed

text \<open>Merging a block \<open>b\<close> into its left neighbour \<open>a\<close>: the heap \<open>h'\<close> after \<open>h\<close>.\<close>

definition merged :: "theap \<Rightarrow> theap \<Rightarrow> u32 set \<Rightarrow> u32 \<Rightarrow> u32 \<Rightarrow> bool" where
  "merged h h' T a b \<longleftrightarrow> a \<in> T \<and> b \<in> T \<and> bt_split_right (h a) = b \<and>
     (\<forall>u \<in> T - {b}. bt_magic (h' u) = bt_magic (h u) \<and>
      bt_real_size (h' u) = (if u = a then bt_real_size (h a) + bt_real_size (h b) else bt_real_size (h u)) \<and>
      bt_split_right (h' u) = (if u = a then bt_split_right (h b) else bt_split_right (h u)) \<and>
      bt_split_left (h' u) = (if u = bt_split_right (h b) then a else bt_split_left (h u)))"

lemma mergedD:
  assumes "merged h h' T a b" and "geom h T" and "links h T"
  shows "a \<in> T" "b \<in> T" "bt_split_right (h a) = b" "a \<noteq> 0" "b \<noteq> 0" "a \<noteq> b"
    "unat b = unat a + rsz h a" "bt_split_left (h b) = a" "rsz h' a = rsz h a + rsz h b"
    "\<And>u. u \<in> T - {b} \<Longrightarrow> u \<noteq> a \<Longrightarrow> rsz h' u = rsz h u"
    "\<And>u. u \<in> T - {b} \<Longrightarrow> bt_magic (h' u) = bt_magic (h u)"
    "\<And>u. u \<in> T - {b} \<Longrightarrow>
       bt_split_right (h' u) = (if u = a then bt_split_right (h b) else bt_split_right (h u))"
    "\<And>u. u \<in> T - {b} \<Longrightarrow>
       bt_split_left (h' u) = (if u = bt_split_right (h b) then a else bt_split_left (h u))"
proof -
  note gD = geomD [OF assms(2)] and lD = linksD [OF assms(3)]
  show ab: "a \<in> T" "b \<in> T" "bt_split_right (h a) = b" using assms(1) by (auto simp: merged_def)
  show b0: "a \<noteq> 0" "b \<noteq> 0" "a \<noteq> b" using gD(2) ab tiling_neq(1) [OF assms(2,3) ab(1)] by auto
  show adj: "unat b = unat a + rsz h a" "bt_split_left (h b) = a" using lD(2,3) [OF ab(1)] ab b0 by auto
  have "0 < unat a" using b0 by (simp add: unat_gt_0)
  then have "rsz h a + rsz h b < 4294967296" using gD(5) [OF ab(2)] adj by simp
  then show "rsz h' a = rsz h a + rsz h b"
    using assms(1) ab b0 by (simp add: merged_def unat_u32_add)
qed (use assms(1) in \<open>auto simp: merged_def\<close>)

lemma merged_geom:
  assumes "merged h h' T a b" and "geom h T" and "links h T"
  shows "geom h' (T - {b})"
  unfolding geom_def
proof (intro conjI ballI impI)
  note gD = geomD [OF assms(2)] and m = mergedD [OF assms]
  fix t u assume tu: "t \<in> T - {b}" "u \<in> T - {b}" "t \<noteq> u"
  then show "unat t + rsz h' t \<le> unat u \<or> unat u + rsz h' u \<le> unat t"
    using gD(6) [of t u] gD(6) [of b u] gD(6) [of b t] gD(4) [OF m(2)] gD(4) [of u] gD(4) [of t] m
    by (cases "t = a"; cases "u = a") auto
next
  note gD = geomD [OF assms(2)] and m = mergedD [OF assms]
  fix t assume t: "t \<in> T - {b}"
  then show "bt_magic (h' t) = LIBALLOC_MAGIC" using m(11) gD(3) by simp
  show "32 \<le> rsz h' t" "unat t + rsz h' t \<le> 4294967296"
    using t gD(4) [of t] gD(5) [of t] gD(5) [OF m(2)] m(7,9,10) by (cases "t = a"; auto)+
qed (use geomD [OF assms(2)] in auto)

lemma merged_links:
  assumes "merged h h' T a b" and "geom h T" and "links h T"
  shows "links h' (T - {b})"
proof -
  note lD = linksD [OF assms(3)] and m = mergedD [OF assms]
  have rb: "bt_split_right (h b) \<noteq> b" "bt_split_right (h b) \<noteq> 0 \<Longrightarrow> bt_split_right (h b) \<noteq> a"
    using tiling_neq(1,3) [OF assms(2,3) m(2)] m(8) by auto
  have nb: "bt_split_right (h u) \<noteq> b" if "u \<in> T" "u \<noteq> a" for u
    using lD(2) [OF that(1)] m(5,8) that by auto
  have inj: "bt_split_right (h u) \<noteq> bt_split_right (h b)"
    if "u \<in> T" "u \<noteq> b" "bt_split_right (h u) \<noteq> 0" for u
    using lD(2) [OF that(1)] lD(2) [OF m(2)] that by auto
  have lf: "bt_split_left (h u) \<noteq> b" if "u \<in> T" "u \<noteq> bt_split_right (h b)" for u
    using lD(5) [OF that(1)] that m(5) by auto
  have la: "bt_split_left (h u) \<noteq> a" if "u \<in> T" "u \<noteq> b" for u
    using lD(5) [OF that(1)] that m(3,4) by auto
  show ?thesis
    unfolding links_def
  proof (intro conjI ballI impI)
    fix t assume t: "t \<in> T - {b}" and nz: "bt_split_right (h' t) \<noteq> 0"
    show r: "bt_split_right (h' t) \<in> T - {b}"
      using t nz m(12) [OF t] lD(1) rb nb m(2) by (cases "t = a") auto
    then show "bt_split_left (h' (bt_split_right (h' t))) = t"
      using t nz m(12) [OF t] m(13) [OF r] lD(2) inj by (cases "t = a") auto
    show "unat (bt_split_right (h' t)) = unat t + rsz h' t"
      using t nz m(12) [OF t] lD(3) m(2,7,9,10) by (cases "t = a") auto
  next
    fix t assume t: "t \<in> T - {b}" and nz: "bt_split_left (h' t) \<noteq> 0"
    show r: "bt_split_left (h' t) \<in> T - {b}"
      using t nz m(13) [OF t] lD(4) lf m(1,6) by (cases "t = bt_split_right (h b)") auto
    then show "bt_split_right (h' (bt_split_left (h' t))) = t"
      using t nz m(13) [OF t] m(12) [OF r] lD(5) la by (cases "t = bt_split_right (h b)") auto
  qed
qed

lemma ownsD:
  assumes "owns h T W" and "t \<in> T"
  obtains a n where "(a, n) \<in> W" "unat a \<le> unat t" "unat t + rsz h t \<le> unat a + n"
    "bt_split_left (h t) = 0 \<longleftrightarrow> a = t" "bt_split_right (h t) = 0 \<longleftrightarrow> unat t + rsz h t = unat a + n"
  using assms by (auto simp: owns_def)

lemma ownsI:
  assumes "\<And>t. t \<in> T \<Longrightarrow> \<exists>a n. (a, n) \<in> W \<and> unat a \<le> unat t \<and> unat t + rsz h t \<le> unat a + n \<and>
    (bt_split_left (h t) = 0 \<longleftrightarrow> a = t) \<and> (bt_split_right (h t) = 0 \<longleftrightarrow> unat t + rsz h t = unat a + n)"
  shows "owns h T W"
  using assms by (auto simp: owns_def)

lemma merged_owns:
  assumes "merged h h' T a b" and "geom h T" and "links h T" and o: "owns h T W" and W: "regions_ok W"
  shows "owns h' (T - {b}) W"
proof (rule ownsI)
  note m = mergedD [OF assms(1-3)]
  fix t assume t: "t \<in> T - {b}"
  show "\<exists>x n. (x, n) \<in> W \<and> unat x \<le> unat t \<and> unat t + rsz h' t \<le> unat x + n \<and>
       (bt_split_left (h' t) = 0 \<longleftrightarrow> x = t) \<and> (bt_split_right (h' t) = 0 \<longleftrightarrow> unat t + rsz h' t = unat x + n)"
  proof (cases "t = a")
    case True
    obtain x n where A: "(x, n) \<in> W" "unat x \<le> unat a" "unat a + rsz h a \<le> unat x + n"
      "bt_split_left (h a) = 0 \<longleftrightarrow> x = a" "bt_split_right (h a) = 0 \<longleftrightarrow> unat a + rsz h a = unat x + n"
      using ownsD [OF o m(1)] .
    obtain y k where B: "(y, k) \<in> W" "unat y \<le> unat b" "unat b + rsz h b \<le> unat y + k"
      "bt_split_right (h b) = 0 \<longleftrightarrow> unat b + rsz h b = unat y + k"
      using ownsD [OF o m(2)] by metis
    have "x = y \<and> n = k"
      by (rule regions_ok_same [OF W A(1) B(1), of "unat b"])
        (use A B m(3,5,7) geomD(4) [OF assms(2) m(2)] in auto)
    moreover have "bt_split_left (h' a) = bt_split_left (h a)"
      using m(1,4,6,8) m(13) [of a] tiling_neq(3) [OF assms(2,3) m(2)] by auto
    ultimately show ?thesis
      using A B True m(1,3,5,6,7,9) m(12) [of a] by (intro exI [of _ x] exI [of _ n]) auto
  next
    case False
    have "bt_split_left (h' t) = 0 \<longleftrightarrow> bt_split_left (h t) = 0"
      using m(13) [OF t] linksD(2) [OF assms(3) m(2)] m(4,5) t geomD(2) [OF assms(2)] by (metis Diff_iff)
    moreover obtain x n where "(x, n) \<in> W" "unat x \<le> unat t" "unat t + rsz h t \<le> unat x + n"
      "bt_split_left (h t) = 0 \<longleftrightarrow> x = t" "bt_split_right (h t) = 0 \<longleftrightarrow> unat t + rsz h t = unat x + n"
      using ownsD [OF o] t by blast
    ultimately show ?thesis
      using False m(12) [OF t] m(10) [OF t False] by (intro exI [of _ x] exI [of _ n]) simp
  qed
qed

lemma tiling_merge:
  "merged h h' T a b \<Longrightarrow> tiling h T W \<Longrightarrow> regions_ok W \<Longrightarrow> tiling h' (T - {b}) W"
  by (simp add: tiling_def merged_geom merged_links merged_owns)

text \<open>Splitting a block \<open>t\<close>: its right part becomes the new block \<open>n\<close>.\<close>

definition splitted :: "theap \<Rightarrow> theap \<Rightarrow> u32 set \<Rightarrow> u32 \<Rightarrow> u32 \<Rightarrow> bool" where
  "splitted h h' T t n \<longleftrightarrow> t \<in> T \<and> unat t + 32 \<le> unat n \<and> unat n + 32 \<le> unat t + rsz h t \<and>
     rsz h' t = unat n - unat t \<and> rsz h' n = rsz h t - (unat n - unat t) \<and>
     bt_magic (h' n) = LIBALLOC_MAGIC \<and>
     (\<forall>u \<in> T. bt_magic (h' u) = bt_magic (h u) \<and> (u \<noteq> t \<longrightarrow> bt_real_size (h' u) = bt_real_size (h u))) \<and>
     bt_split_left (h' n) = t \<and> bt_split_right (h' n) = bt_split_right (h t) \<and>
     (\<forall>u \<in> T. bt_split_right (h' u) = (if u = t then n else bt_split_right (h u)) \<and>
        bt_split_left (h' u) = (if u = bt_split_right (h t) then n else bt_split_left (h u)))"

lemma splittedD:
  assumes "splitted h h' T t n" and "geom h T"
  shows "t \<in> T" "n \<notin> T" "n \<noteq> 0" "t \<noteq> 0" "t \<noteq> n" "32 \<le> rsz h' t" "32 \<le> rsz h' n"
    "unat t + rsz h' t = unat n" "unat n + rsz h' n = unat t + rsz h t"
    "\<And>u. u \<in> T \<Longrightarrow> u \<noteq> t \<Longrightarrow> rsz h' u = rsz h u"
    "\<And>u. u \<in> insert n T \<Longrightarrow> bt_magic (h' u) = LIBALLOC_MAGIC"
    "bt_split_left (h' n) = t" "bt_split_right (h' n) = bt_split_right (h t)"
    "\<And>u. u \<in> T \<Longrightarrow> bt_split_right (h' u) = (if u = t then n else bt_split_right (h u))"
    "\<And>u. u \<in> T \<Longrightarrow> bt_split_left (h' u) = (if u = bt_split_right (h t) then n else bt_split_left (h u))"
proof -
  note gD = geomD [OF assms(2)]
  have s: "t \<in> T" "unat t + 32 \<le> unat n" "unat n + 32 \<le> unat t + rsz h t"
    "rsz h' t = unat n - unat t" "rsz h' n = rsz h t - (unat n - unat t)"
    using assms(1) by (auto simp: splitted_def)
  show "n \<notin> T" using gD(6) [of n t] gD(4) [of n] s by force
  show "n \<noteq> 0" "t \<noteq> n" using s by auto
  show "t \<noteq> 0" using s gD(2) by auto
  show "32 \<le> rsz h' t" "32 \<le> rsz h' n" "unat t + rsz h' t = unat n" "unat n + rsz h' n = unat t + rsz h t"
    using s by auto
  show "bt_magic (h' u) = LIBALLOC_MAGIC" if "u \<in> insert n T" for u
    using assms(1) gD(3) that by (auto simp: splitted_def)
qed (use assms(1) in \<open>auto simp: splitted_def\<close>)

lemma splitted_geom:
  assumes "splitted h h' T t n" and "geom h T"
  shows "geom h' (insert n T)"
  unfolding geom_def
proof (intro conjI ballI impI)
  note gD = geomD [OF assms(2)] and s = splittedD [OF assms]
  fix u v assume uv: "u \<in> insert n T" "v \<in> insert n T" "u \<noteq> v"
  have "unat u + rsz h' u \<le> unat n \<or> unat n + rsz h' n \<le> unat u" if "u \<in> T" "u \<noteq> t" for u
    using gD(6) [OF that(1) s(1) that(2)] s(6-9) s(10) [OF that] by linarith
  moreover have "unat u + rsz h' u \<le> unat t \<or> unat t + rsz h' t \<le> unat u" if "u \<in> T" "u \<noteq> t" for u
    using gD(6) [OF that(1) s(1) that(2)] s(6-9) s(10) [OF that] by linarith
  ultimately show "unat u + rsz h' u \<le> unat v \<or> unat v + rsz h' v \<le> unat u"
    using uv gD(6) [of u v] s(2,5,8) s(10)
    by (cases "u = t"; cases "v = t"; cases "u = n"; cases "v = n") (auto dest: meta_spec)
next
  note gD = geomD [OF assms(2)] and s = splittedD [OF assms]
  fix u assume u: "u \<in> insert n T"
  then show "bt_magic (h' u) = LIBALLOC_MAGIC" by (rule s(11))
  show "32 \<le> rsz h' u" using u s gD(4) [of u] by (cases "u = t"; cases "u = n") auto
  show "unat u + rsz h' u \<le> 4294967296"
    using u s gD(5) [of u] gD(5) [OF s(1)] by (cases "u = t"; cases "u = n") auto
qed (use geomD [OF assms(2)] splittedD [OF assms] in auto)

lemma splitted_links:
  assumes "splitted h h' T t n" and "geom h T" and "links h T"
  shows "links h' (insert n T)"
  unfolding links_def
proof (intro conjI ballI impI)
  note lD = linksD [OF assms(3)] and s = splittedD [OF assms(1,2)]
  fix u assume u: "u \<in> insert n T" and nz: "bt_split_right (h' u) \<noteq> 0"
  have inj: "bt_split_right (h u) \<noteq> bt_split_right (h t)"
    if "u \<in> T" "u \<noteq> t" "bt_split_right (h u) \<noteq> 0" for u
    using lD(2) [OF that(1)] lD(2) [OF s(1)] that by auto
  have r: "bt_split_right (h' u) = (if u = n then bt_split_right (h t) else if u = t then n else bt_split_right (h u))"
    using u s by auto
  show "bt_split_right (h' u) \<in> insert n T" using u nz r lD(1) s(1) by auto
  show "bt_split_left (h' (bt_split_right (h' u))) = u"
    using u nz r s lD(1,2) inj by (cases "u = n"; cases "u = t") auto
  show "unat (bt_split_right (h' u)) = unat u + rsz h' u"
    using u nz r s lD(3) by (cases "u = n"; cases "u = t") auto
next
  note lD = linksD [OF assms(3)] and s = splittedD [OF assms(1,2)]
  fix u assume u: "u \<in> insert n T" and nz: "bt_split_left (h' u) \<noteq> 0"
  have la: "bt_split_left (h u) \<noteq> t" if "u \<in> T" "u \<noteq> bt_split_right (h t)" for u
    using lD(5) [OF that(1)] that s(4) by auto
  have l: "bt_split_left (h' u) = (if u = n then t else if u = bt_split_right (h t) then n else bt_split_left (h u))"
    using u s by auto
  show "bt_split_left (h' u) \<in> insert n T" using u nz l lD(4) s(1) by auto
  show "bt_split_right (h' (bt_split_left (h' u))) = u"
    using u nz l s lD(4,5) la by (cases "u = n"; cases "u = bt_split_right (h t)") auto
qed

lemma splitted_owns:
  assumes "splitted h h' T t n" and "geom h T" and "links h T" and o: "owns h T W"
  shows "owns h' (insert n T) W"
proof (rule ownsI)
  note s = splittedD [OF assms(1,2)]
  fix u assume u: "u \<in> insert n T"
  obtain x k where A: "(x, k) \<in> W" "unat x \<le> unat t" "unat t + rsz h t \<le> unat x + k"
    "bt_split_left (h t) = 0 \<longleftrightarrow> x = t" "bt_split_right (h t) = 0 \<longleftrightarrow> unat t + rsz h t = unat x + k"
    using ownsD [OF o s(1)] .
  have tl: "bt_split_left (h' t) = bt_split_left (h t)"
    using s(1,15) tiling_neq(1) [OF assms(2,3) s(1)] by auto
  consider "u = n" | "u = t" | "u \<in> T" "u \<noteq> t" "u \<noteq> n" using u by blast
  then show "\<exists>a k. (a, k) \<in> W \<and> unat a \<le> unat u \<and> unat u + rsz h' u \<le> unat a + k \<and>
    (bt_split_left (h' u) = 0 \<longleftrightarrow> a = u) \<and> (bt_split_right (h' u) = 0 \<longleftrightarrow> unat u + rsz h' u = unat a + k)"
  proof cases
    case 1
    have "x \<noteq> n" using A(2) s(6,8) by auto
    with 1 A s(4,6,8,9,12,13) show ?thesis by (intro exI [of _ x] exI [of _ k]) simp
  next
    case 2
    with A s(1,3,6,7,8,9) s(14) [of t] tl show ?thesis by (intro exI [of _ x] exI [of _ k]) simp
  next
    case 3
    have "bt_split_left (h' u) = 0 \<longleftrightarrow> bt_split_left (h u) = 0"
      using s(1,3,4,15) 3 linksD(2) [OF assms(3) s(1)] geomD(2) [OF assms(2)] by metis
    moreover obtain x k where "(x, k) \<in> W" "unat x \<le> unat u" "unat u + rsz h u \<le> unat x + k"
      "bt_split_left (h u) = 0 \<longleftrightarrow> x = u" "bt_split_right (h u) = 0 \<longleftrightarrow> unat u + rsz h u = unat x + k"
      using ownsD [OF o] 3 by blast
    ultimately show ?thesis
      using 3 s(14) [of u] s(10) [of u] by (intro exI [of _ x] exI [of _ k]) simp
  qed
qed

lemma tiling_split: "splitted h h' T t n \<Longrightarrow> tiling h T W \<Longrightarrow> tiling h' (insert n T) W"
  by (simp add: tiling_def splitted_geom splitted_links splitted_owns)

end
