(* ===== verification/Liballoc_Lists.thy ===== *)
theory Liballoc_Lists
  imports Liballoc_Tiling
begin

text \<open>
  The size classes of \<open>getexp\<close> and the array of free lists: what it means for the 24 lists to be
  consistent with the tags, and that taking a block out of its list and putting a block at the front
  of a list keep them so.
\<close>

section \<open>The size classes\<close>

lemma unat_two_power:
  assumes "k < 32"
  shows "unat (2 ^ k :: u32) = 2 ^ k"
proof -
  have "(2 :: nat) ^ k < 2 ^ 32" using assms by (intro power_strict_increasing) auto
  moreover have "unat (of_nat (2 ^ k) :: u32) = 2 ^ k mod 2 ^ 32" by (simp only: unat_of_nat len_num1) simp
  ultimately show ?thesis by simp
qed

lemma getexp_loop_spec:
  "1 \<le> k \<Longrightarrow> k \<le> 32 \<Longrightarrow> 2 ^ (k - 1) \<le> unat sz \<Longrightarrow>
   (let r = getexp_loop k sz in k \<le> r \<and> r \<le> 32 \<and> 2 ^ (r - 1) \<le> unat sz \<and> unat sz < 2 ^ r)"
proof (induction k sz rule: getexp_loop.induct)
  case (1 k sz)
  show ?case
  proof (cases "k < 32")
    case True
    show ?thesis
      using 1 True by (subst getexp_loop.simps)
        (auto simp: MAXEXP_def word_less_nat_alt unat_two_power Let_def)
  next
    case False
    with 1 have "k = 32" by simp
    then show ?thesis
      using 1 unat_u32_lt [of sz] by (subst getexp_loop.simps) (simp add: MAXEXP_def)
  qed
qed

lemma getexp_bounds:
  assumes "256 \<le> unat sz"
  shows "8 \<le> getexp sz" "getexp sz \<le> 31"
    "2 ^ nat (getexp sz) \<le> unat sz" "unat sz < 2 ^ (nat (getexp sz) + 1)"
proof -
  define r where "r = getexp_loop 8 sz"
  have "9 \<le> r \<and> r \<le> 32 \<and> 2 ^ (r - 1) \<le> unat sz \<and> unat sz < 2 ^ r"
  proof (cases "push_bit 8 1 > sz")
    case True
    then show ?thesis using assms by (simp add: word_less_nat_alt)
  next
    case False
    then have "r = getexp_loop 9 sz"
      by (subst r_def, subst getexp_loop.simps) (simp add: MAXEXP_def)
    then show ?thesis using getexp_loop_spec [of 9 sz] assms by (simp add: Let_def)
  qed
  moreover have g: "getexp sz = int r - 1"
    using assms by (simp add: getexp_def MINEXP_def word_less_nat_alt r_def)
  moreover have "nat (int r - 1) = r - 1" by simp
  ultimately show "8 \<le> getexp sz" "getexp sz \<le> 31"
    "2 ^ nat (getexp sz) \<le> unat sz" "unat sz < 2 ^ (nat (getexp sz) + 1)"
    by (auto simp: Suc_diff_Suc)
qed

lemma cls_range: "8 \<le> cls w \<and> cls w \<le> 31"
proof (cases "256 \<le> unat w")
  case True
  then show ?thesis using getexp_bounds [of w] by (simp add: cls_def MINEXP_def)
next
  case False
  then show ?thesis by (simp add: cls_def MINEXP_def getexp_def word_less_nat_alt)
qed

lemma getexp_nonneg: "0 \<le> getexp w \<longleftrightarrow> 256 \<le> unat w"
  using getexp_bounds(1) [of w] by (auto simp: getexp_def MINEXP_def word_less_nat_alt)

lemma sint_cls [simp]: "i \<in> {8..31} \<Longrightarrow> sint (word_of_int i :: u32) = i"
  by (simp add: signed_take_bit_int_eq_self sint_sbintrunc')

lemma cls_not_minus_one [simp]: "i \<in> {8..31} \<Longrightarrow> (word_of_int i :: u32) \<noteq> - 1"
  using sint_cls [of i] by fastforce

section \<open>The free lists\<close>

text \<open>
  \<open>F i\<close> is the free list of size class \<open>i\<close>: doubly linked from \<open>l_freePages[i]\<close>, its members carry the
  index \<open>i\<close>; a block in no list has index \<open>-1\<close> and no list links.
\<close>

definition freelists :: "theap \<Rightarrow> (int \<Rightarrow> u32) \<Rightarrow> (int \<Rightarrow> u32 list) \<Rightarrow> u32 set \<Rightarrow> bool" where
  "freelists h fp F T \<longleftrightarrow>
     (\<forall>i \<in> {8..31}. dll h (fp i) (F i) \<and> (\<forall>t \<in> set (F i). t \<in> T \<and> bt_index (h t) = word_of_int i)) \<and>
     (\<forall>t \<in> T. (\<exists>i \<in> {8..31}. t \<in> set (F i)) \<or>
        bt_index (h t) = - 1 \<and> bt_next (h t) = 0 \<and> bt_prev (h t) = 0)"

lemma freelistsD:
  assumes "freelists h fp F T"
  shows "i \<in> {8..31} \<Longrightarrow> dll h (fp i) (F i)"
    "i \<in> {8..31} \<Longrightarrow> t \<in> set (F i) \<Longrightarrow> t \<in> T \<and> bt_index (h t) = word_of_int i"
    "t \<in> T \<Longrightarrow> bt_index (h t) \<noteq> - 1 \<Longrightarrow> \<exists>i \<in> {8..31}. t \<in> set (F i)"
    "t \<in> T \<Longrightarrow> bt_index (h t) = - 1 \<Longrightarrow> bt_next (h t) = 0 \<and> bt_prev (h t) = 0"
    "i \<in> {8..31} \<Longrightarrow> t \<in> T \<Longrightarrow> bt_index (h t) = - 1 \<Longrightarrow> t \<notin> set (F i)"
  using assms cls_not_minus_one unfolding freelists_def by fastforce+

lemma freelists_disjoint:
  assumes "freelists h fp F T" "i \<in> {8..31}" "j \<in> {8..31}" "t \<in> set (F i)" "t \<in> set (F j)"
  shows "i = j"
  using freelistsD(2) [OF assms(1)] assms(2-) sint_cls by metis

lemma freelists_sint:
  assumes "freelists h fp F T" "t \<in> T"
  shows "0 \<le> sint (bt_index (h t)) \<longleftrightarrow> bt_index (h t) \<noteq> - 1"
proof (cases "bt_index (h t) = - 1")
  case False
  then obtain i where "i \<in> {8..31}" "t \<in> set (F i)" using freelistsD(3) [OF assms] by blast
  then show ?thesis using freelistsD(2) [OF assms(1)] False by force
qed simp

lemma freelists_cong:
  assumes "freelists h fp F T"
    and "\<And>t. t \<in> T' \<Longrightarrow> bt_index (h' t) = bt_index (h t) \<and> bt_next (h' t) = bt_next (h t) \<and>
       bt_prev (h' t) = bt_prev (h t)"
    and "T' \<subseteq> T" and "\<And>t. t \<in> T - T' \<Longrightarrow> bt_index (h t) = - 1"
  shows "freelists h' fp F T'"
proof -
  have sub: "t \<in> T'" if "i \<in> {8..31}" "t \<in> set (F i)" for i t
    using freelistsD(2) [OF assms(1) that] assms(4) [of t] cls_not_minus_one [OF that(1)] by auto
  have "dll h' (fp i) (F i) = dll h (fp i) (F i)" if "i \<in> {8..31}" for i
    using sub [OF that] assms(2) by (intro dll_cong) auto
  then show ?thesis
    using assms(1-3) sub unfolding freelists_def by (auto 4 3)
qed

text \<open>Taking a block out of its list, and putting one at the front of a list.\<close>

definition unlink :: "u32 \<Rightarrow> theap \<Rightarrow> theap" where
  "unlink t h = (\<lambda>u. if u = t then (h t)\<lparr>bt_next := 0, bt_prev := 0, bt_index := - 1\<rparr>
      else (h u)\<lparr>bt_next := (if u = bt_prev (h t) then bt_next (h t) else bt_next (h u)),
        bt_prev := (if u = bt_next (h t) then bt_prev (h t) else bt_prev (h u))\<rparr>)"

definition link :: "u32 \<Rightarrow> int \<Rightarrow> u32 \<Rightarrow> theap \<Rightarrow> theap" where
  "link t i p h = (\<lambda>u. if u = t then (h t)\<lparr>bt_index := word_of_int i, bt_next := p\<rparr>
      else (h u)\<lparr>bt_prev := (if u = p then t else bt_prev (h u))\<rparr>)"

lemma freelists_neighbours:
  assumes "freelists h fp F T" "i \<in> {8..31}" "t \<in> set (F i)"
  shows "bt_prev (h t) \<noteq> 0 \<Longrightarrow> bt_prev (h t) \<in> set (F i)"
    and "bt_next (h t) \<noteq> 0 \<Longrightarrow> bt_next (h t) \<in> set (F i)"
    and "bt_prev (h t) \<noteq> t" and "bt_next (h t) \<noteq> t" and "t \<noteq> 0"
proof -
  obtain xs ys where F: "F i = xs @ t # ys" using assms(3) by (auto simp: in_set_conv_decomp)
  have d: "dll h (fp i) (xs @ t # ys)" using freelistsD(1) [OF assms(1,2)] F by simp
  note nb = dll_neighbours [OF d] and dist = dll_distinct [OF d]
  show "bt_prev (h t) \<noteq> 0 \<Longrightarrow> bt_prev (h t) \<in> set (F i)"
    using nb(1) F by (auto split: if_splits)
  show "bt_next (h t) \<noteq> 0 \<Longrightarrow> bt_next (h t) \<in> set (F i)"
    using nb(2) F by (auto split: if_splits)
  show "bt_prev (h t) \<noteq> t" using nb(1,4) dist by (auto split: if_splits dest: last_in_set)
  show "bt_next (h t) \<noteq> t" using nb(2,4) dist by (auto split: if_splits dest: hd_in_set)
  show "t \<noteq> 0" by (rule nb(4))
qed

lemma freelists_unlink:
  assumes fl: "freelists h fp F T" and i: "i \<in> {8..31}" and t: "t \<in> set (F i)" and z: "0 \<notin> T"
  shows "freelists (unlink t h) (if fp i = t then fp(i := bt_next (h t)) else fp)
     (F(i := remove1 t (F i))) T"
    (is "freelists ?h ?fp ?F T")
proof -
  obtain xs ys where F: "F i = xs @ t # ys" using t by (auto simp: in_set_conv_decomp)
  have d: "dll h (fp i) (xs @ t # ys)" using freelistsD(1) [OF fl i] F by simp
  note nb = freelists_neighbours [OF fl i t]
  have dist: "distinct (xs @ t # ys)" using dll_distinct [OF d] .
  then have r1: "remove1 t (F i) = xs @ ys" using F by (simp add: remove1_append)
  have other: "u \<noteq> t \<and> u \<noteq> bt_prev (h t) \<and> u \<noteq> bt_next (h t)"
    if "j \<in> {8..31}" "j \<noteq> i" "u \<in> set (F j)" for j u
    using freelists_disjoint [OF fl i that(1), of u] freelistsD(2) [OF fl that(1,3)] that z nb(1,2) t
    by metis
  have dl: "dll ?h (?fp j) (?F j)" if j: "j \<in> {8..31}" for j
  proof (cases "j = i")
    case True
    have "dll ?h (if fp i = t then bt_next (h t) else fp i) (xs @ ys)"
      using dist by (intro dll_remove [OF d]) (auto simp: unlink_def)
    then show ?thesis using True r1 by (auto split: if_splits)
  next
    case False
    have "dll ?h (fp j) (F j) = dll h (fp j) (F j)"
      using other [OF j False] by (intro dll_cong) (auto simp: unlink_def)
    then show ?thesis using freelistsD(1) [OF fl j] False by simp
  qed
  have mem: "u \<in> set (?F j) \<longleftrightarrow> u \<in> set (F j) \<and> u \<noteq> t" if "j \<in> {8..31}" for j u
    using other [OF that] r1 F dist by (cases "j = i") auto
  have rest: "(\<exists>j \<in> {8..31}. u \<in> set (?F j)) \<or>
      bt_index (?h u) = - 1 \<and> bt_next (?h u) = 0 \<and> bt_prev (?h u) = 0" if u: "u \<in> T" for u
  proof (cases "bt_index (h u) = - 1")
    case True
    then have "u \<notin> set (F i)" using freelistsD(5) [OF fl i u] by simp
    then have "u \<noteq> bt_prev (h t)" "u \<noteq> bt_next (h t)" using nb(1,2) u z by metis+
    then show ?thesis using freelistsD(4) [OF fl u True] True by (simp add: unlink_def)
  next
    case False
    then show ?thesis using freelistsD(3) [OF fl u False] mem by (auto simp: unlink_def)
  qed
  show ?thesis
    unfolding freelists_def
    using dl mem rest freelistsD(2) [OF fl] by (auto simp: unlink_def)
qed

lemma freelists_link:
  assumes fl: "freelists h fp F T" and i: "i \<in> {8..31}" and t: "t \<in> T" "bt_index (h t) = - 1"
    and z: "0 \<notin> T"
  shows "freelists (link t i (fp i) h) (fp(i := t)) (F(i := t # F i)) T"
    (is "freelists ?h ?fp ?F T")
proof -
  have tn: "t \<notin> set (F j)" if "j \<in> {8..31}" for j using freelistsD(5) [OF fl that t] .
  have hd: "fp i = 0 \<or> fp i \<in> set (F i)" using dll_hd [OF freelistsD(1) [OF fl i]] by force
  have sub: "u \<in> T" "bt_index (h u) = word_of_int j" if "j \<in> {8..31}" "u \<in> set (F j)" for j u
    using freelistsD(2) [OF fl that] by auto
  have dl: "dll ?h (?fp j) (?F j)" if j: "j \<in> {8..31}" for j
  proof (cases "j = i")
    case True
    have "dll ?h t (t # F i)"
      using freelistsD(1) [OF fl i] t z freelistsD(4) [OF fl t] tn [OF i]
      by (intro dll_insert) (auto simp: link_def)
    then show ?thesis using True by simp
  next
    case False
    have "u \<noteq> fp i" if "u \<in> set (F j)" for u
      using hd freelists_disjoint [OF fl i j, of u] that False sub [OF j that] z by metis
    then have "dll ?h (fp j) (F j) = dll h (fp j) (F j)"
      using tn [OF j] by (intro dll_cong) (auto simp: link_def)
    then show ?thesis using freelistsD(1) [OF fl j] False by simp
  qed
  have mem: "u \<in> T \<and> bt_index (?h u) = word_of_int j" if "j \<in> {8..31}" "u \<in> set (?F j)" for j u
    using that sub [of j u] tn [of j] t i by (cases "j = i") (auto simp: link_def)
  have rest: "(\<exists>j \<in> {8..31}. u \<in> set (?F j)) \<or>
      bt_index (?h u) = - 1 \<and> bt_next (?h u) = 0 \<and> bt_prev (?h u) = 0" if u: "u \<in> T" for u
  proof (cases "bt_index (h u) = - 1 \<and> u \<noteq> t")
    case True
    then have "u \<notin> set (F i)" using freelistsD(5) [OF fl i u] by simp
    then have "u \<noteq> fp i" using hd u z by auto
    then show ?thesis using freelistsD(4) [OF fl u] True by (simp add: link_def)
  next
    case False
    then show ?thesis using freelistsD(3) [OF fl u] i by (cases "u = t") auto
  qed
  show ?thesis
    unfolding freelists_def using dl mem rest by blast
qed

end
