(* ===== verification/Liballoc_Inv.thy ===== *)
theory Liballoc_Inv
  imports Liballoc_Lists
begin

text \<open>
  The invariant of the allocator over the typed heap of tags: tiling, consistent free lists, room for
  every payload, every free block in its size class, no two free neighbours, exact counters. Each
  abstract step (unlink, link, join, split, a new region, a dropped region, recording a size) keeps it.
\<close>

section \<open>The invariant of the allocator\<close>

text \<open>A block in use has room for its payload; the blocks in \<open>D\<close> are being worked on.\<close>

definition roomy :: "theap \<Rightarrow> u32 set \<Rightarrow> u32 set \<Rightarrow> bool" where
  "roomy h T D \<longleftrightarrow> (\<forall>t \<in> T - D. bt_index (h t) = - 1 \<longrightarrow> 32 + unat (bt_size (h t)) \<le> rsz h t)"

text \<open>A free block is in the list of its size class.\<close>

definition classed :: "theap \<Rightarrow> u32 set \<Rightarrow> bool" where
  "classed h T \<longleftrightarrow> (\<forall>t \<in> T. bt_index (h t) \<noteq> - 1 \<longrightarrow>
     bt_index (h t) = word_of_int (cls (bt_real_size (h t) - 32)))"

text \<open>No two neighbours are both free.\<close>

definition coalesced :: "theap \<Rightarrow> u32 set \<Rightarrow> bool" where
  "coalesced h T \<longleftrightarrow> (\<forall>t \<in> T. bt_index (h t) \<noteq> - 1 \<longrightarrow> bt_split_right (h t) \<noteq> 0 \<longrightarrow>
     bt_index (h (bt_split_right (h t))) = - 1)"

text \<open>The counters hold the number of whole regions standing by in each list, at most five.\<close>

definition whole :: "boundary_tag \<Rightarrow> bool" where
  "whole b \<longleftrightarrow> bt_split_left b = 0 \<and> bt_split_right b = 0"

definition counted :: "theap \<Rightarrow> (int \<Rightarrow> int) \<Rightarrow> (int \<Rightarrow> u32 list) \<Rightarrow> bool" where
  "counted h cp F \<longleftrightarrow> (\<forall>i \<in> {8..31}. cp i = int (length (filter (\<lambda>t. whole (h t)) (F i))) \<and>
     cp i \<le> MAXCOMPLETE)"

definition heap_ok :: "theap \<Rightarrow> (int \<Rightarrow> u32) \<Rightarrow> (int \<Rightarrow> int) \<Rightarrow> u32 set \<Rightarrow> (int \<Rightarrow> u32 list) \<Rightarrow>
    u32 set \<Rightarrow> (u32 \<times> nat) set \<Rightarrow> bool" where
  "heap_ok h fp cp T F D W \<longleftrightarrow> tiling h T W \<and> freelists h fp F T \<and> roomy h T D \<and> classed h T \<and>
     coalesced h T \<and> counted h cp F"

lemma heap_okD:
  assumes "heap_ok h fp cp T F D W"
  shows "tiling h T W" "geom h T" "links h T" "owns h T W" "freelists h fp F T" "roomy h T D"
    "classed h T" "coalesced h T" "counted h cp F" "0 \<notin> T"
  using assms by (auto simp: heap_ok_def tiling_def geom_def)

lemma counted_cong:
  assumes "counted h cp F" and "\<And>i t. i \<in> {8..31} \<Longrightarrow> t \<in> set (F i) \<Longrightarrow> whole (h' t) = whole (h t)"
  shows "counted h' cp F"
  using assms unfolding counted_def by (metis (no_types, lifting) filter_cong)

lemma heap_ok_cong:
  assumes "heap_ok h fp cp T F D W" and eq: "\<And>t. t \<in> T \<Longrightarrow> h' t = h t"
  shows "heap_ok h' fp cp T F D W"
proof -
  note ok = heap_okD [OF assms(1)]
  have "tiling h' T W" by (rule tiling_cong [OF _ ok(1)]) (simp add: eq)
  moreover have "freelists h' fp F T" by (rule freelists_cong [OF ok(5)]) (simp_all add: eq)
  moreover have "counted h' cp F"
    by (rule counted_cong [OF ok(9)]) (use freelistsD(2) [OF ok(5)] eq in auto)
  moreover have "coalesced h' T"
    using ok(8) linksD(1) [OF ok(3)] eq by (simp add: coalesced_def)
  ultimately show ?thesis
    using ok(6,7) eq by (simp add: heap_ok_def roomy_def classed_def)
qed

section \<open>Unlinking and linking\<close>

lemma unlink_core [simp]:
  "bt_magic (unlink t h u) = bt_magic (h u)" "bt_size (unlink t h u) = bt_size (h u)"
  "bt_real_size (unlink t h u) = bt_real_size (h u)"
  "bt_split_left (unlink t h u) = bt_split_left (h u)"
  "bt_split_right (unlink t h u) = bt_split_right (h u)" "whole (unlink t h u) = whole (h u)"
  "bt_index (unlink t h u) = (if u = t then - 1 else bt_index (h u))"
  by (auto simp: unlink_def whole_def)

lemma link_core [simp]:
  "bt_magic (link t i p h u) = bt_magic (h u)" "bt_size (link t i p h u) = bt_size (h u)"
  "bt_real_size (link t i p h u) = bt_real_size (h u)"
  "bt_split_left (link t i p h u) = bt_split_left (h u)"
  "bt_split_right (link t i p h u) = bt_split_right (h u)" "whole (link t i p h u) = whole (h u)"
  "bt_index (link t i p h u) = (if u = t then word_of_int i else bt_index (h u))"
  by (auto simp: link_def whole_def)

lemma length_filter_remove1:
  "t \<in> set xs \<Longrightarrow> length (filter P xs) = length (filter P (remove1 t xs)) + (if P t then 1 else 0)"
  by (induction xs) auto

lemma heap_ok_unlink:
  assumes ok: "heap_ok h fp cp T F D W" and i: "i \<in> {8..31}" and t: "t \<in> set (F i)"
  shows "heap_ok (unlink t h) (if fp i = t then fp(i := bt_next (h t)) else fp)
     (if whole (h t) then cp(i := cp i - 1) else cp) T (F(i := remove1 t (F i))) (insert t D) W"
proof -
  note ok = heap_okD [OF ok]
  have "counted (unlink t h) (if whole (h t) then cp(i := cp i - 1) else cp) (F(i := remove1 t (F i)))"
    using ok(9) length_filter_remove1 [OF t, of "\<lambda>t. whole (h t)"] by (auto simp: counted_def)
  moreover have "tiling (unlink t h) T W" by (rule tiling_cong [OF _ ok(1)]) simp
  ultimately show ?thesis
    using ok freelists_unlink [OF ok(5) i t ok(10)]
    by (auto simp: heap_ok_def roomy_def classed_def coalesced_def)
qed

lemma heap_ok_link:
  assumes ok: "heap_ok h fp cp T F D W" and t: "t \<in> T" "bt_index (h t) = - 1" and D: "D \<subseteq> {t}"
    and i: "i = cls (bt_real_size (h t) - 32)"
    and nb: "bt_split_left (h t) \<noteq> 0 \<Longrightarrow> bt_index (h (bt_split_left (h t))) = - 1"
      "bt_split_right (h t) \<noteq> 0 \<Longrightarrow> bt_index (h (bt_split_right (h t))) = - 1"
    and full: "whole (h t) \<Longrightarrow> cp i < MAXCOMPLETE"
  shows "heap_ok (link t i (fp i) h) (fp(i := t))
     (if whole (h t) then cp(i := cp i + 1) else cp) T (F(i := t # F i)) {} W"
proof -
  note ok = heap_okD [OF ok]
  have i': "i \<in> {8..31}" using cls_range i by auto
  have "counted (link t i (fp i) h) (if whole (h t) then cp(i := cp i + 1) else cp) (F(i := t # F i))"
    using ok(9) full by (auto simp: counted_def)
  moreover have "tiling (link t i (fp i) h) T W" by (rule tiling_cong [OF _ ok(1)]) simp
  moreover have "classed (link t i (fp i) h) T" using ok(7) i by (auto simp: classed_def)
  moreover have "roomy (link t i (fp i) h) T {}"
    using ok(6) D cls_not_minus_one [OF i'] by (auto simp: roomy_def)
  moreover have "coalesced (link t i (fp i) h) T"
  proof -
    have "bt_split_right (h u) \<noteq> t" if "u \<in> T" "bt_index (h u) \<noteq> - 1" for u
      using linksD(2) [OF ok(3) that(1)] nb(1) that t ok(10) by metis
    then show ?thesis
      using ok(8) nb(2) tiling_neq(1) [OF ok(2,3) t(1)] unfolding coalesced_def by auto
  qed
  ultimately show ?thesis
    using freelists_link [OF ok(5) i' t ok(10)] by (simp add: heap_ok_def)
qed

section \<open>Merging, splitting, new and dropped regions\<close>

definition join :: "u32 \<Rightarrow> u32 \<Rightarrow> theap \<Rightarrow> theap" where
  "join a b h = (\<lambda>u.
     if u = a then (h a)\<lparr>bt_real_size := bt_real_size (h a) + bt_real_size (h b),
           bt_split_right := bt_split_right (h b)\<rparr>
     else if u = bt_split_right (h b) then (h u)\<lparr>bt_split_left := a\<rparr>
     else h u)"

lemma heap_ok_join:
  assumes ok: "heap_ok h fp cp T F D W" and W: "regions_ok W"
    and ab: "a \<in> T" "b \<in> T" "bt_split_right (h a) = b"
    and used: "bt_index (h a) = - 1" "bt_index (h b) = - 1" and D: "D \<subseteq> {a, b}"
  shows "heap_ok (join a b h) fp cp (T - {b}) F {a} W"
proof -
  note ok = heap_okD [OF ok]
  have b0: "b \<noteq> 0" "a \<noteq> 0" using ab ok(10) by auto
  have bl: "bt_split_left (h b) = a" using linksD(2) [OF ok(3) ab(1)] ab b0 by simp
  have ra: "a \<noteq> bt_split_right (h b)" using tiling_neq(3) [OF ok(2,3) ab(2)] bl b0 by auto
  have m: "merged h (join a b h) T a b"
    using ab ra by (auto simp: merged_def join_def)
  have idx: "bt_index (join a b h u) = bt_index (h u)" "bt_next (join a b h u) = bt_next (h u)"
    "bt_prev (join a b h u) = bt_prev (h u)" "bt_size (join a b h u) = bt_size (h u)" for u
    by (auto simp: join_def)
  have "freelists (join a b h) fp F (T - {b})"
    by (rule freelists_cong [OF ok(5)]) (use idx used in auto)
  moreover have "counted (join a b h) cp F"
  proof (rule counted_cong [OF ok(9)])
    fix i t assume "i \<in> {8..31}" "t \<in> set (F i)"
    then have "t \<in> T" "t \<noteq> a" using freelistsD(2) [OF ok(5)] used by force+
    moreover have "bt_split_left (h t) = b" if "t = bt_split_right (h b)"
      using linksD(2) [OF ok(3) ab(2)] that \<open>t \<in> T\<close> ok(10) by metis
    ultimately show "whole (join a b h t) = whole (h t)"
      using b0 by (auto simp: whole_def join_def)
  qed
  moreover have "roomy (join a b h) (T - {b}) {a}"
    using ok(6) D by (auto simp: roomy_def join_def)
  moreover have "classed (join a b h) (T - {b})"
    using ok(7) used by (auto simp: classed_def join_def)
  moreover have "coalesced (join a b h) (T - {b})"
    using ok(8) used idx by (auto simp: coalesced_def join_def)
  ultimately show ?thesis
    using tiling_merge [OF m ok(1) W] by (simp add: heap_ok_def)
qed

lemma heap_ok_split:
  assumes ok: "heap_ok h fp cp T F {} W" and sp: "splitted h h' T t n"
    and used: "bt_index (h t) = - 1" "bt_index (h' n) = - 1" "bt_next (h' n) = 0" "bt_prev (h' n) = 0"
    and same: "\<And>u. u \<in> T \<Longrightarrow> bt_index (h' u) = bt_index (h u) \<and> bt_next (h' u) = bt_next (h u) \<and>
       bt_prev (h' u) = bt_prev (h u) \<and> bt_size (h' u) = bt_size (h u)"
    and room: "32 + unat (bt_size (h t)) \<le> rsz h' t"
  shows "heap_ok h' fp cp (insert n T) F {n} W"
proof -
  note ok = heap_okD [OF ok]
  note s = splittedD [OF sp ok(2)]
  have sz: "bt_real_size (h' u) = bt_real_size (h u)" if "u \<in> T" "u \<noteq> t" for u
    using s(10) [OF that] by (simp add: word_unat_eq_iff)
  have "freelists h' fp F T" by (rule freelists_cong [OF ok(5)]) (use same in auto)
  then have "freelists h' fp F (insert n T)" using used by (auto simp: freelists_def)
  moreover have "counted h' cp F"
  proof (rule counted_cong [OF ok(9)])
    fix i u assume "i \<in> {8..31}" "u \<in> set (F i)"
    then have u: "u \<in> T" "u \<noteq> t" using freelistsD(2) [OF ok(5)] used(1) by force+
    moreover have "bt_split_left (h u) = t" if "u = bt_split_right (h t)"
      using linksD(2) [OF ok(3) s(1)] that u ok(10) by metis
    ultimately show "whole (h' u) = whole (h u)"
      using s(3,4) s(14,15) [OF u(1)] by (auto simp: whole_def)
  qed
  moreover have "roomy h' (insert n T) {n}"
    unfolding roomy_def
  proof (intro ballI impI)
    fix u assume "u \<in> insert n T - {n}" "bt_index (h' u) = - 1"
    then show "32 + unat (bt_size (h' u)) \<le> rsz h' u"
      using ok(6) same [of u] s(10) [of u] room by (cases "u = t") (auto simp: roomy_def)
  qed
  moreover have "classed h' (insert n T)"
    unfolding classed_def
  proof (intro ballI impI)
    fix u assume "u \<in> insert n T" "bt_index (h' u) \<noteq> - 1"
    then have "u \<in> T" "u \<noteq> t" using used same s(1) by auto
    then show "bt_index (h' u) = word_of_int (cls (bt_real_size (h' u) - 32))"
      using ok(7) same [of u] sz [of u] \<open>bt_index (h' u) \<noteq> - 1\<close> by (auto simp: classed_def)
  qed
  moreover have "coalesced h' (insert n T)"
    using ok(8) same used s(2,14) linksD(1) [OF ok(3)] by (auto simp: coalesced_def)
  ultimately show ?thesis
    using tiling_split [OF sp ok(1)] by (simp add: heap_ok_def)
qed

lemma heap_ok_new:
  assumes ok: "heap_ok h fp cp T F D W"
    and W: "\<And>a k. (a, k) \<in> W \<Longrightarrow> unat t + n \<le> unat a \<or> unat a + k \<le> unat t"
    and t: "t \<noteq> 0" "32 \<le> n" "unat t + n \<le> 4294967296"
    and eq: "\<And>u. u \<in> T \<Longrightarrow> h' u = h u"
    and new: "bt_magic (h' t) = LIBALLOC_MAGIC" "rsz h' t = n" "bt_index (h' t) = - 1"
      "bt_split_left (h' t) = 0" "bt_split_right (h' t) = 0" "bt_next (h' t) = 0" "bt_prev (h' t) = 0"
  shows "heap_ok h' fp cp (insert t T) F (insert t D) (insert (t, n) W)"
proof -
  have "heap_ok h' fp cp T F D W" by (rule heap_ok_cong [OF ok eq])
  note ok' = heap_okD [OF this]
  note g = geomD [OF ok'(2)]
  have far: "unat t + n \<le> unat u \<or> unat u + rsz h' u \<le> unat t" if u: "u \<in> T" for u
  proof -
    obtain a k where "(a, k) \<in> W" "unat a \<le> unat u" "unat u + rsz h' u \<le> unat a + k"
      using ownsD [OF ok'(4) u] by blast
    then show ?thesis using W [of a k] by auto
  qed
  have "geom h' (insert t T)"
    using g t new far unfolding geom_def by (auto simp: new dest: far)
  moreover have "links h' (insert t T)"
    using ok'(3) new by (auto simp: links_def)
  moreover have "owns h' (insert t T) (insert (t, n) W)"
    using ok'(4) new t by (auto simp: owns_def)
  moreover have "freelists h' fp F (insert t T)"
    using ok'(5) new by (auto simp: freelists_def)
  moreover have "coalesced h' (insert t T)" "classed h' (insert t T)" "roomy h' (insert t T) (insert t D)"
    using ok'(6-8) new by (auto simp: coalesced_def classed_def roomy_def)
  ultimately show ?thesis using ok'(9) by (simp add: heap_ok_def tiling_def)
qed

text \<open>A block without neighbours is exactly one region.\<close>

lemma whole_region:
  assumes "owns h T W" and "t \<in> T" and "whole (h t)"
  shows "(t, rsz h t) \<in> W"
proof -
  obtain a k where "(a, k) \<in> W" "a = t" "unat t + rsz h t = unat a + k"
    using ownsD [OF assms(1,2)] assms(3) unfolding whole_def by metis
  then show ?thesis by auto
qed

lemma heap_ok_drop:
  assumes ok: "heap_ok h fp cp T F {t} W" and t: "t \<in> T" "bt_index (h t) = - 1" "whole (h t)"
  shows "heap_ok h fp cp (T - {t}) F {} (W - {(t, rsz h t)})"
proof -
  note ok = heap_okD [OF ok]
  have nb: "bt_split_right (h u) \<noteq> t" "bt_split_left (h u) \<noteq> t" if "u \<in> T" for u
    using linksD(2,5) [OF ok(3) that] t ok(10) that unfolding whole_def by metis+
  have "geom h (T - {t})" using ok(2) by (simp add: geom_def)
  moreover have "links h (T - {t})" using ok(3) nb by (auto simp: links_def)
  moreover have "owns h (T - {t}) (W - {(t, rsz h t)})"
  proof (rule ownsI)
    fix u assume u: "u \<in> T - {t}"
    obtain a k where A: "(a, k) \<in> W" "unat a \<le> unat u" "unat u + rsz h u \<le> unat a + k"
      "bt_split_left (h u) = 0 \<longleftrightarrow> a = u" "bt_split_right (h u) = 0 \<longleftrightarrow> unat u + rsz h u = unat a + k"
      using ownsD [OF ok(4), of u] u by blast
    have "(a, k) \<noteq> (t, rsz h t)"
      using A(2,3) u t(1) geomD(6) [OF ok(2), of t u] geomD(4) [OF ok(2), of u] by auto
    then show "\<exists>a k. (a, k) \<in> W - {(t, rsz h t)} \<and> unat a \<le> unat u \<and> unat u + rsz h u \<le> unat a + k \<and>
      (bt_split_left (h u) = 0 \<longleftrightarrow> a = u) \<and> (bt_split_right (h u) = 0 \<longleftrightarrow> unat u + rsz h u = unat a + k)"
      using A by blast
  qed
  moreover have "freelists h fp F (T - {t})"
    by (rule freelists_cong [OF ok(5)]) (use t in auto)
  ultimately show ?thesis
    using ok(6-9) by (auto simp: heap_ok_def tiling_def roomy_def classed_def coalesced_def)
qed

text \<open>Recording the requested size of a block in hand.\<close>

lemma heap_ok_size:
  assumes ok: "heap_ok h fp cp T F {t} W" and room: "32 + unat sz \<le> rsz h t"
    and h': "\<And>u. u \<in> T \<Longrightarrow> h' u = (if u = t then (h t)\<lparr>bt_size := sz\<rparr> else h u)"
  shows "heap_ok h' fp cp T F {} W"
proof -
  note ok = heap_okD [OF ok]
  have "tiling h' T W" by (rule tiling_cong [OF _ ok(1)]) (simp add: h')
  moreover have "freelists h' fp F T" by (rule freelists_cong [OF ok(5)]) (simp_all add: h')
  moreover have "counted h' cp F"
    by (rule counted_cong [OF ok(9)]) (use freelistsD(2) [OF ok(5)] h' in \<open>auto simp: whole_def\<close>)
  moreover have "coalesced h' T" using ok(8) linksD(1) [OF ok(3)] h' by (auto simp: coalesced_def)
  moreover have "classed h' T" "roomy h' T {}" using ok(6,7) h' room by (auto simp: classed_def roomy_def)
  ultimately show ?thesis by (simp add: heap_ok_def)
qed

end
