(* ===== verification/Liballoc_Steps.thy ===== *)
theory Liballoc_Steps
  imports Liballoc_Inv
begin

text \<open>
  The helpers of \<^verbatim>\<open>liballoc.c\<close> on the memory implement the abstract steps of the invariant. Next to the
  invariant each lemma carries the map \<open>live\<close> of the blocks in the hands of the clients and the frame:
  which bytes of memory stay as they were.
\<close>

section \<open>State-level notions\<close>

abbreviation heap_inv :: "'h liballoc \<Rightarrow> u32 set \<Rightarrow> (int \<Rightarrow> u32 list) \<Rightarrow> u32 set \<Rightarrow> (u32 \<times> nat) set \<Rightarrow> bool" where
  "heap_inv s T F D W \<equiv> heap_ok (tag_at (heap_mem s)) (l_freePages s) (l_completePages s) T F D W"

text \<open>The allocated blocks: payload address and requested size; those in \<open>D\<close> are in the allocator's hands.\<close>

definition live :: "theap \<Rightarrow> u32 set \<Rightarrow> u32 set \<Rightarrow> u32 \<rightharpoonup> u32" where
  "live h T D p = (if p - 32 \<in> T - D \<and> bt_index (h (p - 32)) = - 1
     then Some (bt_size (h (p - 32))) else None)"

abbreviation live_of :: "'h liballoc \<Rightarrow> u32 set \<Rightarrow> u32 set \<Rightarrow> u32 \<rightharpoonup> u32" where
  "live_of s T D \<equiv> live (tag_at (heap_mem s)) T D"

text \<open>Only bytes of the tags in \<open>T\<close> change.\<close>

definition tags_only :: "u32 set \<Rightarrow> mem \<Rightarrow> mem \<Rightarrow> bool" where
  "tags_only T m m' \<longleftrightarrow> (\<forall>x. (\<forall>t \<in> T. \<not> in_rng t 32 x) \<longrightarrow> m' x = m x)"

lemma tags_only_refl [simp]: "tags_only T m m"
  by (simp add: tags_only_def)

lemma tags_only_trans: "tags_only T m m1 \<Longrightarrow> tags_only T' m1 m2 \<Longrightarrow> T' \<subseteq> T \<Longrightarrow> tags_only T m m2"
  unfolding tags_only_def by (metis subsetD)

lemma tags_only_mono: "tags_only T m m' \<Longrightarrow> T \<subseteq> T' \<Longrightarrow> tags_only T' m m'"
  unfolding tags_only_def by blast

lemma tags_only_store:
  assumes "tags_only T m m'" "t \<in> T" "unat i + 4 \<le> 32"
  shows "tags_only T m (store32 m' (t + i) v)"
  unfolding tags_only_def
proof (intro allI impI)
  fix x assume x: "\<forall>t \<in> T. \<not> in_rng t 32 x"
  then have "\<not> in_rng (t + i) 4 x" using assms(2,3) in_rng_shift [of t i 4 x 32] by auto
  then show "store32 m' (t + i) v x = m x"
    using assms(1) x by (simp add: store32_outside tags_only_def)
qed

lemma tags_only_set [intro]:
  assumes "tags_only T m m'" "t \<in> T"
  shows "tags_only T m (set_magic t v m')" "tags_only T m (set_size t v m')"
    "tags_only T m (set_real_size t v m')" "tags_only T m (set_index t v m')"
    "tags_only T m (set_split_left t v m')" "tags_only T m (set_split_right t v m')"
    "tags_only T m (set_next t v m')" "tags_only T m (set_prev t v m')"
  using tags_only_store [OF assms(1), of t 0] tags_only_store [OF assms] assms(2)
  by (simp_all add: set_field_defs)

lemma live_cong:
  assumes "\<And>t. t \<in> T - D \<Longrightarrow> bt_index (h' t) = bt_index (h t) \<and> bt_size (h' t) = bt_size (h t)"
  shows "live h' T D = live h T D"
  using assms by (auto simp: live_def fun_eq_iff)

lemma live_shrink:
  assumes "T' - D' \<subseteq> T - D"
    and "\<And>u. u \<in> T' - D' \<Longrightarrow> bt_index (h' u) = bt_index (h u) \<and> bt_size (h' u) = bt_size (h u)"
    and "\<And>u. u \<in> T - D \<Longrightarrow> u \<notin> T' - D' \<Longrightarrow> bt_index (h u) \<noteq> - 1"
  shows "live h' T' D' = live h T D"
proof
  fix p
  show "live h' T' D' p = live h T D p"
    using assms(1) assms(2,3) [of "p - 32"] by (cases "p - 32 \<in> T' - D'") (auto simp: live_def)
qed

section \<open>The helpers implement the abstract steps\<close>

lemma remove_tag_only:
  assumes "sep_tags T" "t \<in> T" and nb: "bt_prev (tagof s t) \<noteq> 0 \<Longrightarrow> bt_prev (tagof s t) \<in> T"
    "bt_next (tagof s t) \<noteq> 0 \<Longrightarrow> bt_next (tagof s t) \<in> T" "bt_prev (tagof s t) \<noteq> t"
  shows "tags_only T (heap_mem s) (heap_mem (remove_tag t s))"
  using assms(2-) by (auto simp: remove_tag_def Let_def tag_view(7) [OF assms(1)] intro!: tags_only_set)

lemma remove_tag_tags:
  assumes ok: "heap_inv s T F D W" and i: "i \<in> {8..31}" and t: "t \<in> set (F i)"
  shows "\<And>u. u \<in> T \<Longrightarrow> tagof (remove_tag t s) u = unlink t (tag_at (heap_mem s)) u"
    and "l_freePages (remove_tag t s) =
      (if l_freePages s i = t then (l_freePages s)(i := bt_next (tagof s t)) else l_freePages s)"
    and "tags_only T (heap_mem s) (heap_mem (remove_tag t s))"
proof -
  note ok = heap_okD [OF ok]
  note nb = freelists_neighbours [OF ok(5) i t]
  have sub: "set (F i) \<subseteq> T" "bt_index (tagof s t) = word_of_int i" using freelistsD(2) [OF ok(5) i] t by auto
  show "tagof (remove_tag t s) u = unlink t (tag_at (heap_mem s)) u" if "u \<in> T" for u
    unfolding unlink_def
    by (rule remove_tag_view [OF geom_sep [OF ok(2)] _ that ok(10)]) (use nb sub t in auto)
  show "l_freePages (remove_tag t s) =
      (if l_freePages s i = t then (l_freePages s)(i := bt_next (tagof s t)) else l_freePages s)"
    using sub(2) i by (simp add: Let_def)
  show "tags_only T (heap_mem s) (heap_mem (remove_tag t s))"
    by (rule remove_tag_only [OF geom_sep [OF ok(2)]]) (use nb sub t in auto)
qed

lemma remove_tag_inv:
  assumes ok: "heap_inv s T F D W" and i: "i \<in> {8..31}" and t: "t \<in> set (F i)"
  shows "heap_ok (tag_at (heap_mem (remove_tag t s))) (l_freePages (remove_tag t s))
     (if whole (tagof s t) then (l_completePages s)(i := l_completePages s i - 1) else l_completePages s)
     T (F(i := remove1 t (F i))) (insert t D) W"
  unfolding remove_tag_tags(2) [OF assms]
  by (rule heap_ok_cong [OF heap_ok_unlink [OF assms] remove_tag_tags(1) [OF assms]])

lemma insert_tag_tags:
  assumes ok: "heap_inv s T F D W" and t: "t \<in> T" "bt_index (tagof s t) = - 1"
    and ix: "i = (if ix < 0 then cls (bt_real_size (tagof s t) - 32) else ix)" "i \<in> {8..31}"
  shows "\<And>u. u \<in> T \<Longrightarrow> tagof (insert_tag t ix s) u = link t i (l_freePages s i) (tag_at (heap_mem s)) u"
    and "tags_only T (heap_mem s) (heap_mem (insert_tag t ix s))"
proof -
  note ok = heap_okD [OF ok]
  have fp: "l_freePages s i \<noteq> 0 \<Longrightarrow> l_freePages s i \<in> set (F i)"
    using dll_hd [OF freelistsD(1) [OF ok(5) ix(2)]] by force
  then have fp: "l_freePages s i \<noteq> 0 \<Longrightarrow> l_freePages s i \<in> T" "l_freePages s i \<noteq> t"
    using freelistsD(2) [OF ok(5) ix(2)] freelistsD(5) [OF ok(5) ix(2) t] t ok(10) by (blast, metis)
  have nx: "bt_next (tagof s t) = 0" using freelistsD(4) [OF ok(5) t] by simp
  show "tagof (insert_tag t ix s) u = link t i (l_freePages s i) (tag_at (heap_mem s)) u" if "u \<in> T" for u
    unfolding link_def
    by (rule insert_tag_view [OF geom_sep [OF ok(2)] t(1) that ok(10) ix(1) fp nx])
  have i': "(if ix < 0 then let r = getexp (bt_real_size (tagof s t) - sizeof_tag)
         in if r < int MINEXP then int MINEXP else r else ix) = i"
    by (simp add: ix cls_def Let_def)
  show "tags_only T (heap_mem s) (heap_mem (insert_tag t ix s))"
    unfolding insert_tag_def i' using fp(1) t(1) by (auto simp: Let_def intro!: tags_only_set)
qed

lemma insert_tag_inv:
  assumes ok: "heap_inv s T F D W" and t: "t \<in> T" "bt_index (tagof s t) = - 1" and D: "D \<subseteq> {t}"
    and i: "i = cls (bt_real_size (tagof s t) - 32)" and ix: "ix = i \<or> ix < 0"
    and nb: "bt_split_left (tagof s t) \<noteq> 0 \<Longrightarrow> bt_index (tagof s (bt_split_left (tagof s t))) = - 1"
      "bt_split_right (tagof s t) \<noteq> 0 \<Longrightarrow> bt_index (tagof s (bt_split_right (tagof s t))) = - 1"
    and full: "whole (tagof s t) \<Longrightarrow> l_completePages s i < MAXCOMPLETE"
  shows "heap_ok (tag_at (heap_mem (insert_tag t ix s))) (l_freePages (insert_tag t ix s))
     (if whole (tagof s t) then (l_completePages s)(i := l_completePages s i + 1) else l_completePages s)
     T (F(i := t # F i)) {} W"
proof -
  have i': "i = (if ix < 0 then cls (bt_real_size (tagof s t) - 32) else ix)" "i \<in> {8..31}"
    using i ix cls_range [of "bt_real_size (tagof s t) - 32"] by auto
  have "l_freePages (insert_tag t ix s) = (l_freePages s)(i := t)" using i' by simp
  then show ?thesis
    using heap_ok_cong [OF heap_ok_link [OF ok t D i nb full] insert_tag_tags(1) [OF ok t i']] by simp
qed

text \<open>One round of each loop of \<open>free\<close>: the free neighbour leaves its list and the two blocks become one.\<close>

definition melt_step :: "u32 \<Rightarrow> 'h liballoc \<Rightarrow> 'h liballoc" where
  "melt_step t s = remove_tag (fst (melt_left t s)) (snd (melt_left t s))"

lemma unlink_join:
  assumes "u \<noteq> b" "b \<noteq> a" "bt_next (h a) \<noteq> b" "bt_prev (h a) \<noteq> b"
  shows "unlink a (join a b h) u = join a b (unlink a h) u"
  using assms by (auto simp: unlink_def join_def)

lemma melt_step_tags:
  assumes ok: "heap_inv s T F D W" and t: "t \<in> T" "bt_index (tagof s t) = - 1"
    and l: "l = bt_split_left (tagof s t)" "l \<noteq> 0" and i: "i \<in> {8..31}" "l \<in> set (F i)"
  shows "\<And>u. u \<in> T - {t} \<Longrightarrow>
      tagof (melt_step t s) u = join l t (unlink l (tag_at (heap_mem s))) u"
    and "l_freePages (melt_step t s) =
      (if l_freePages s i = l then (l_freePages s)(i := bt_next (tagof s l)) else l_freePages s)"
    and "tags_only T (heap_mem s) (heap_mem (melt_step t s))"
    and "l_completePages (melt_step t s) = l_completePages s" "pages (melt_step t s) = pages s"
      "l_initialized (melt_step t s) = l_initialized s"
proof -
  let ?h = "tag_at (heap_mem s)"
  note ok = heap_okD [OF ok]
  note sep = geom_sep [OF ok(2)]
  have lT: "l \<in> T" "bt_split_right (?h l) = t" using linksD(4,5) [OF ok(3) t(1)] l by auto
  note nq = tiling_neq [OF ok(2,3) t(1)]
  have r: "bt_split_right (?h t) \<noteq> 0 \<Longrightarrow> bt_split_right (?h t) \<in> T"
    using linksD(1) [OF ok(3) t(1)] by simp
  have rl: "bt_split_right (?h t) \<noteq> l" using nq(3) l by auto
  note nb = freelists_neighbours [OF ok(5) i]
  have sub: "set (F i) \<subseteq> T" "bt_index (?h l) = word_of_int i" "t \<notin> set (F i)"
    using freelistsD(2) [OF ok(5) i(1)] i(2) freelistsD(5) [OF ok(5) i(1) t] by auto
  have nbt: "bt_next (?h l) \<noteq> t" "bt_prev (?h l) \<noteq> t" using nb(1,2) sub(3) t(1) ok(10) by metis+
  define s1 where "s1 = snd (melt_left t s)"
  have m: "tagof s1 u = join l t ?h u" if "u \<in> T" for u
    unfolding s1_def
    by (subst melt_left_view [OF sep t(1) that ok(10)])
      (use lT(1) nq(1,2) r rl l in \<open>auto simp: join_def Let_def\<close>)
  have fl: "bt_next (tagof s1 l) = bt_next (?h l)" "bt_prev (tagof s1 l) = bt_prev (?h l)"
    "bt_index (tagof s1 l) = bt_index (?h l)" by (simp_all add: m [OF lT(1)] join_def)
  have st: "melt_step t s = remove_tag l s1" using l by (simp add: melt_step_def s1_def)
  have v: "tagof (melt_step t s) u = unlink l (tag_at (heap_mem s1)) u" if "u \<in> T" for u
    unfolding unlink_def st
    by (rule remove_tag_view [OF sep lT(1) that ok(10)]) (use fl nb sub in auto)
  show "tagof (melt_step t s) u = join l t (unlink l ?h) u" if "u \<in> T - {t}" for u
  proof -
    have "unlink l (tag_at (heap_mem s1)) u = unlink l (join l t ?h) u"
      using that m [of u] m [OF lT(1)] fl by (simp add: unlink_def join_def)
    then show ?thesis using unlink_join [of u t l ?h] v [of u] that nbt l(1) nq(2) by auto
  qed
  show "l_freePages (melt_step t s) =
      (if l_freePages s i = l then (l_freePages s)(i := bt_next (?h l)) else l_freePages s)"
    using sub(2) i(1) fl by (simp add: st Let_def) (simp add: s1_def)
  have "tags_only T (heap_mem s) (heap_mem s1)"
    using lT r rl l t nq by (auto simp: s1_def melt_left_def Let_def tag_view [OF sep] intro!: tags_only_set)
  moreover have "tags_only T (heap_mem s1) (heap_mem (remove_tag l s1))"
    by (rule remove_tag_only [OF sep lT(1)]) (use fl nb sub in auto)
  ultimately show "tags_only T (heap_mem s) (heap_mem (melt_step t s))"
    unfolding st by (rule tags_only_trans) simp
qed (simp_all add: melt_step_def)

lemma melt_step_inv:
  assumes ok: "heap_inv s T F {t} W" and W: "regions_ok W" and t: "t \<in> T" "bt_index (tagof s t) = - 1"
    and l: "l = bt_split_left (tagof s t)" "l \<noteq> 0" "bt_index (tagof s l) \<noteq> - 1"
  shows "\<exists>F'. heap_inv (melt_step t s) (T - {t}) F' {l} W"
    and "l \<in> T - {t}" "bt_index (tagof (melt_step t s) l) = - 1"
    and "live_of (melt_step t s) (T - {t}) {l} = live_of s T {t}"
    and "tags_only T (heap_mem s) (heap_mem (melt_step t s))"
    and "pages (melt_step t s) = pages s" "l_initialized (melt_step t s) = l_initialized s"
proof -
  let ?h = "tag_at (heap_mem s)"
  note ok' = heap_okD [OF ok]
  have lT: "l \<in> T" "bt_split_right (?h l) = t" using linksD(4,5) [OF ok'(3) t(1)] l by auto
  obtain i where i: "i \<in> {8..31}" "l \<in> set (F i)" using freelistsD(3) [OF ok'(5) lT(1) l(3)] by blast
  note m = melt_step_tags [OF ok t l(1,2) i]
  show lm: "l \<in> T - {t}" using lT(1) tiling_neq(2) [OF ok'(2,3) t(1)] l(1) by auto
  have nw: "\<not> whole (?h l)" using lT ok'(10) t by (auto simp: whole_def)
  have "heap_ok (join l t (unlink l ?h))
     (if l_freePages s i = l then (l_freePages s)(i := bt_next (tagof s l)) else l_freePages s)
     (l_completePages s) (T - {t}) (F(i := remove1 l (F i))) {l} W"
    by (rule heap_ok_join [OF heap_ok_unlink [OF ok i, simplified nw if_False] W])
      (use lT t l in auto)
  from heap_ok_cong [OF this m(1)] show "\<exists>F'. heap_inv (melt_step t s) (T - {t}) F' {l} W"
    using m(2,4) by auto
  show "bt_index (tagof (melt_step t s) l) = - 1"
    by (simp add: m(1) [OF lm] join_def)
  show "live_of (melt_step t s) (T - {t}) {l} = live_of s T {t}"
    using l(3) lm m(1) by (intro live_shrink) (auto simp: join_def)
  show "tags_only T (heap_mem s) (heap_mem (melt_step t s))" "pages (melt_step t s) = pages s"
    "l_initialized (melt_step t s) = l_initialized s" by (fact m(3,5,6))+
qed

lemma absorb_step_inv:
  assumes ok: "heap_inv s T F {t} W" and W: "regions_ok W" and t: "t \<in> T" "bt_index (tagof s t) = - 1"
    and r: "r = bt_split_right (tagof s t)" "r \<noteq> 0" "bt_index (tagof s r) \<noteq> - 1"
    and s': "s' = snd (absorb_right t s)"
  shows "\<exists>F'. heap_inv s' (T - {r}) F' {t} W"
    and "t \<in> T - {r}" "bt_index (tagof s' t) = - 1" "bt_split_left (tagof s' t) = bt_split_left (tagof s t)"
    and "\<And>u. u \<in> T - {r} \<Longrightarrow> bt_index (tagof s' u) = bt_index (tagof s u)"
    and "live_of s' (T - {r}) {t} = live_of s T {t}"
    and "tags_only T (heap_mem s) (heap_mem s')"
    and "pages s' = pages s" "l_initialized s' = l_initialized s"
proof -
  let ?h = "tag_at (heap_mem s)"
  note ok' = heap_okD [OF ok]
  note sep = geom_sep [OF ok'(2)]
  have rT: "r \<in> T" "bt_split_left (?h r) = t" using linksD(1,2) [OF ok'(3) t(1)] r by auto
  have rt: "r \<noteq> t" using tiling_neq(1) [OF ok'(2,3) t(1)] r(1) by simp
  obtain i where i: "i \<in> {8..31}" "r \<in> set (F i)" using freelistsD(3) [OF ok'(5) rT(1) r(3)] by blast
  define s1 where "s1 = remove_tag r s"
  note m = remove_tag_tags [OF ok i]
  have sr: "bt_split_right (tagof s1 r) = bt_split_right (?h r)" by (simp add: s1_def m(1) rT)
  have rr: "bt_split_right (?h r) \<noteq> 0 \<Longrightarrow> bt_split_right (?h r) \<in> T" "bt_split_right (?h r) \<noteq> t"
    "bt_split_right (?h r) \<noteq> r"
    using linksD(1) [OF ok'(3) rT(1)] tiling_neq [OF ok'(2,3) rT(1)] rT(2) t(1) ok'(10) by metis+
  have v: "tagof s' u = join t r (unlink r ?h) u" if "u \<in> T - {r}" for u
    unfolding s'
    by (subst absorb_right_view [OF sep t(1) _ ok'(10) r(1) s1_def rT(1) rt])
      (use that rr sr m(1) t(1) rT(1) in \<open>auto simp: s1_def join_def\<close>)
  have nw: "\<not> whole (?h r)" using rT ok'(10) t by (auto simp: whole_def)
  have "heap_ok (join t r (unlink r ?h))
     (if l_freePages s i = r then (l_freePages s)(i := bt_next (tagof s r)) else l_freePages s)
     (l_completePages s) (T - {r}) (F(i := remove1 r (F i))) {t} W"
    by (rule heap_ok_join [OF heap_ok_unlink [OF ok i, simplified nw if_False] W])
      (use rT t r in auto)
  from heap_ok_cong [OF this v] show "\<exists>F'. heap_inv s' (T - {r}) F' {t} W"
    using m(2) r(1) unfolding s' by auto
  show tm: "t \<in> T - {r}" using t rt by auto
  show idx: "bt_index (tagof s' u) = bt_index (?h u)" if "u \<in> T - {r}" for u
    using that t(2) by (simp add: v join_def)
  then show "bt_index (tagof s' t) = - 1" using tm t(2) by simp
  show "bt_split_left (tagof s' t) = bt_split_left (?h t)" by (simp add: v [OF tm] join_def)
  have "bt_size (tagof s' u) = bt_size (?h u)" if "u \<in> T - {r}" for u
    using that by (simp add: v join_def)
  then show "live_of s' (T - {r}) {t} = live_of s T {t}"
    using r(3) idx by (intro live_shrink) auto
  have "tags_only T (heap_mem s) (heap_mem s1)" using m(3) by (simp add: s1_def)
  moreover have "tags_only T (heap_mem s1) (heap_mem s')"
    using rT t rr sr rt unfolding s' absorb_right_def Let_def r(1) [symmetric] s1_def [symmetric]
    by (auto simp: tag_view [OF sep] intro!: tags_only_set)
  ultimately show "tags_only T (heap_mem s) (heap_mem s')" by (rule tags_only_trans) simp
  show "pages s' = pages s" "l_initialized s' = l_initialized s" by (simp_all add: s')
qed

section \<open>The loops of free\<close>

lemma melt_left_loop_correct:
  assumes "heap_inv s T F {t} W" and W: "regions_ok W" and "t \<in> T" "bt_index (tagof s t) = - 1"
  shows "\<exists>t' s' T' F'. melt_left_loop t s = Some (t', s') \<and> heap_inv s' T' F' {t'} W \<and> t' \<in> T' \<and>
     T' \<subseteq> T \<and> bt_index (tagof s' t') = - 1 \<and>
     (bt_split_left (tagof s' t') \<noteq> 0 \<longrightarrow> bt_index (tagof s' (bt_split_left (tagof s' t'))) = - 1) \<and>
     live_of s' T' {t'} = live_of s T {t} \<and> tags_only T (heap_mem s) (heap_mem s') \<and>
     pages s' = pages s \<and> l_initialized s' = l_initialized s"
  using assms(1,3,4)
proof (induction "card T" arbitrary: T F t s rule: less_induct)
  case less
  note ok = heap_okD [OF less.prems(1)]
  let ?l = "bt_split_left (tagof s t)"
  show ?case
  proof (cases "?l \<noteq> 0 \<and> bt_index (tagof s ?l) \<noteq> - 1")
    case False
    then have "melt_left_loop t s = Some (t, s)"
      using freelists_sint [OF ok(5)] linksD(4) [OF ok(3) less.prems(2)]
      by (subst melt_left_loop.simps) auto
    then show ?thesis
      using less.prems False by (intro exI [of _ t] exI [of _ s] exI [of _ T] exI [of _ F]) auto
  next
    case True
    have lT: "?l \<in> T" using linksD(4) [OF ok(3) less.prems(2)] True by simp
    have st: "melt_left_loop t s = melt_left_loop ?l (melt_step t s)"
      using True freelists_sint [OF ok(5) lT] by (subst melt_left_loop.simps) (simp add: melt_step_def)
    note m = melt_step_inv [OF less.prems(1) W less.prems(2,3) refl conjunct1 [OF True] conjunct2 [OF True]]
    obtain F1 where F1: "heap_inv (melt_step t s) (T - {t}) F1 {?l} W" using m(1) by blast
    have "card (T - {t}) < card T"
      using less.prems(2) geomD(1) [OF ok(2)] by (intro psubset_card_mono) auto
    from less.hyps [OF this F1 m(2,3)] show ?thesis
      unfolding st m(4,6,7) using tags_only_trans [OF m(5)] by blast
  qed
qed

lemma absorb_right_loop_correct:
  assumes "heap_inv s T F {t} W" and W: "regions_ok W" and "t \<in> T" "bt_index (tagof s t) = - 1"
    "bt_split_left (tagof s t) \<noteq> 0 \<longrightarrow> bt_index (tagof s (bt_split_left (tagof s t))) = - 1"
  shows "\<exists>s' T' F'. absorb_right_loop t s = Some (t, s') \<and> heap_inv s' T' F' {t} W \<and> t \<in> T' \<and>
     T' \<subseteq> T \<and> bt_index (tagof s' t) = - 1 \<and>
     (bt_split_left (tagof s' t) \<noteq> 0 \<longrightarrow> bt_index (tagof s' (bt_split_left (tagof s' t))) = - 1) \<and>
     (bt_split_right (tagof s' t) \<noteq> 0 \<longrightarrow> bt_index (tagof s' (bt_split_right (tagof s' t))) = - 1) \<and>
     live_of s' T' {t} = live_of s T {t} \<and> tags_only T (heap_mem s) (heap_mem s') \<and>
     pages s' = pages s \<and> l_initialized s' = l_initialized s"
  using assms(1,3-5)
proof (induction "card T" arbitrary: T F s rule: less_induct)
  case less
  note ok = heap_okD [OF less.prems(1)]
  let ?r = "bt_split_right (tagof s t)"
  show ?case
  proof (cases "?r \<noteq> 0 \<and> bt_index (tagof s ?r) \<noteq> - 1")
    case False
    then have "absorb_right_loop t s = Some (t, s)"
      using freelists_sint [OF ok(5)] linksD(1) [OF ok(3) less.prems(2)]
      by (subst absorb_right_loop.simps) auto
    then show ?thesis
      using less.prems False by (intro exI [of _ s] exI [of _ T] exI [of _ F]) auto
  next
    case True
    have rT: "?r \<in> T" using linksD(1) [OF ok(3) less.prems(2)] True by simp
    let ?s = "snd (absorb_right t s)"
    have st: "absorb_right_loop t s = absorb_right_loop t ?s"
      using True freelists_sint [OF ok(5) rT] by (subst absorb_right_loop.simps) simp
    note m = absorb_step_inv [OF less.prems(1) W less.prems(2,3) refl conjunct1 [OF True] conjunct2 [OF True] refl]
    obtain F1 where F1: "heap_inv ?s (T - {?r}) F1 {t} W" using m(1) by blast
    have "bt_split_left (tagof s t) \<noteq> 0 \<Longrightarrow> bt_split_left (tagof s t) \<in> T - {?r}"
      using linksD(4) [OF ok(3) less.prems(2)] tiling_neq(3) [OF ok(2,3) less.prems(2)] True by auto
    then have nb: "bt_split_left (tagof ?s t) \<noteq> 0 \<longrightarrow> bt_index (tagof ?s (bt_split_left (tagof ?s t))) = - 1"
      using m(4,5) less.prems(4) by simp
    have "card (T - {?r}) < card T"
      using rT geomD(1) [OF ok(2)] by (intro psubset_card_mono) auto
    from less.hyps [OF this F1 m(2,3) nb] show ?thesis
      unfolding st m(6,8,9) using tags_only_trans [OF m(7)] by blast
  qed
qed

end
