(* ===== verification/Liballoc_Split.thy ===== *)
theory Liballoc_Split
  imports Liballoc_Steps
begin

text \<open>
  The second half of \<open>malloc\<close>: the search of a free list ends with a block that is large enough or with
  none, a block too large is split and the rest goes to its free list, and the block in hand becomes
  an allocated block of the requested size.
\<close>

section \<open>Searching a free list\<close>

lemma find_tag_correct:
  assumes "dseg (tag_at m) q p xs r 0"
  shows "\<exists>f. find_tag m sz p = Some f \<and> (f = 0 \<or> f \<in> set xs \<and> sz + 32 \<le> bt_real_size (tag_at m f) - 32)"
  using assms
proof (induction xs arbitrary: q p)
  case Nil
  then show ?case by (subst find_tag.simps) simp
next
  case (Cons x xs)
  then obtain f where "find_tag m sz (bt_next (tag_at m x)) = Some f"
    "f = 0 \<or> f \<in> set xs \<and> sz + 32 \<le> bt_real_size (tag_at m f) - 32" by fastforce
  then show ?case using Cons.prems by (subst find_tag.simps) auto
qed

section \<open>Splitting\<close>

lemma sep_tags_insert:
  assumes g: "geom h T" and t: "t \<in> T" and n: "unat t + 32 \<le> unat n" "unat n + 32 \<le> unat t + rsz h t"
  shows "sep_tags (insert n T)"
proof -
  note gD = geomD [OF g]
  have d: "disj u 32 n 32" if u: "u \<in> T" for u
  proof -
    have "unat u + 32 \<le> unat n \<or> unat n + 32 \<le> unat u"
      using gD(6) [OF u t] gD(4) [OF u] n by (cases "u = t") auto
    then show ?thesis
    proof
      assume "unat u + 32 \<le> unat n"
      then show ?thesis using n gD(5) [OF t] by (intro disj_lin) auto
    next
      assume "unat n + 32 \<le> unat u"
      then show ?thesis using gD(4,5) [OF u] by (intro disj_sym [OF disj_lin]) auto
    qed
  qed
  then show ?thesis
    using geom_sep [OF g] disj_sym unfolding sep_tags_def by blast
qed

text \<open>The index of the new tag is only written by \<open>insert_tag\<close>; until then it counts as in hand.\<close>

definition in_hand :: "u32 \<Rightarrow> theap \<Rightarrow> theap" where
  "in_hand n h = h(n := (h n)\<lparr>bt_index := - 1\<rparr>)"

lemma split_tag_inv:
  assumes ok: "heap_inv s T F {} W" and t: "t \<in> T" "bt_index (tagof s t) = - 1"
    and room: "unat (bt_size (tagof s t)) + 64 \<le> rsz (tag_at (heap_mem s)) t"
    and nb: "bt_split_right (tagof s t) \<noteq> 0 \<Longrightarrow> bt_index (tagof s (bt_split_right (tagof s t))) = - 1"
    and s': "s' = snd (split_tag t s)"
  shows "\<exists>T' F'. heap_inv s' T' F' {} W \<and> T \<subseteq> T' \<and> tags_only T' (heap_mem s) (heap_mem s') \<and>
     live_of s' T' {} = live_of s T {}"
    and "pages s' = pages s" "l_initialized s' = l_initialized s"
proof -
  let ?h = "tag_at (heap_mem s)" and ?sz = "bt_size (tagof s t)" and ?r = "bt_split_right (tagof s t)"
  note ok' = heap_okD [OF ok]
  note gD = geomD [OF ok'(2)]
  define n where "n = t + 32 + ?sz"
  define s1 where "s1 = split_raw t s"
  define h1 where "h1 = in_hand n (tag_at (heap_mem s1))"
  define i where "i = cls (bt_real_size (h1 n) - 32)"
  have bd: "unat t + rsz ?h t \<le> 4294967296" using gD(5) t by simp
  then have un: "unat n = unat t + 32 + unat ?sz" using room by (simp add: n_def unat_u32_add)
  have rem: "unat (bt_real_size (?h t) - 32 - ?sz) = rsz ?h t - 32 - unat ?sz"
    using room by (simp add: unat_sub_if')
  have st: "s' = insert_tag n (- 1) s1" by (simp add: s' split_tag_raw n_def s1_def Let_def)
  have nT: "n \<notin> T" using gD(6) [of n t] gD(4) [of n] t un room by force
  have nz: "n \<noteq> 0" "n \<noteq> t" using un by auto
  have sep: "sep_tags (insert n T)" using sep_tags_insert [OF ok'(2) t(1)] un room by simp
  have rT: "?r \<noteq> 0 \<Longrightarrow> ?r \<in> T" "?r \<noteq> t" using linksD(1) [OF ok'(3) t(1)] tiling_neq(1) [OF ok'(2,3) t(1)] by auto
  have v: "tagof s1 u = (if u = n then (?h n)\<lparr>bt_magic := LIBALLOC_MAGIC,
           bt_real_size := bt_real_size (?h t) - 32 - ?sz,
           bt_split_left := t, bt_split_right := ?r, bt_next := 0, bt_prev := 0\<rparr>
       else if u = t then (?h t)\<lparr>bt_real_size := bt_real_size (?h t) - (bt_real_size (?h t) - 32 - ?sz), bt_split_right := n\<rparr>
       else if u = ?r then (?h u)\<lparr>bt_split_left := n\<rparr> else ?h u)" if "u \<in> insert n T" for u
    using split_raw_view [OF sep t(1) that ok'(10) nT n_def rT] by (simp add: s1_def Let_def)
  have szt: "unat (32 + ?sz) = 32 + unat ?sz" using room bd by (simp add: unat_u32_add)
  have sp: "splitted ?h h1 T t n"
    using t(1) un room rem szt nT nz v rT gD(3) by (auto simp: splitted_def h1_def in_hand_def)
  have ok1: "heap_ok h1 (l_freePages s) (l_completePages s) (insert n T) F {n} W"
    by (rule heap_ok_split [OF ok sp t(2)]) (use v t nT szt nz in \<open>auto simp: h1_def in_hand_def\<close>)
  have h1: "bt_index (h1 n) = - 1" "bt_split_left (h1 n) = t" "bt_split_right (h1 n) = ?r"
    "bt_index (h1 t) = - 1" "?r \<noteq> 0 \<Longrightarrow> bt_index (h1 ?r) = - 1" "bt_real_size (tagof s1 n) = bt_real_size (h1 n)"
    "bt_next (tagof s1 n) = 0"
    using v nz t nb rT nT by (auto simp: h1_def in_hand_def)
  have ok2: "heap_ok (link n i (l_freePages s i) h1) ((l_freePages s)(i := n)) (l_completePages s)
     (insert n T) (F(i := n # F i)) {} W"
  proof -
    have "\<not> whole (h1 n)" using h1(2) t(1) ok'(10) by (auto simp: whole_def)
    then show ?thesis
      using heap_ok_link [OF ok1 _ h1(1) _ i_def] h1 by auto
  qed
  have i8: "i \<in> {8..31}" using cls_range i_def by auto
  have fp: "l_freePages s i \<noteq> 0 \<Longrightarrow> l_freePages s i \<in> T"
    using dll_hd [OF freelistsD(1) [OF ok'(5) i8]] freelistsD(2) [OF ok'(5) i8] by force
  have w: "tagof s' u = link n i (l_freePages s i) h1 u" if "u \<in> insert n T" for u
    unfolding st
    by (subst insert_tag_view [OF sep _ that, of _ i])
      (use fp h1 ok'(10) nz nT in \<open>auto simp: i_def s1_def link_def h1_def in_hand_def\<close>)
  have "l_freePages s' = (l_freePages s)(i := n)" "l_completePages s' = l_completePages s"
    by (simp_all add: st i_def h1) (simp_all add: s1_def)
  then have inv: "heap_inv s' (insert n T) (F(i := n # F i)) {} W" using heap_ok_cong [OF ok2 w] by simp
  have "tags_only (insert n T) (heap_mem s) (heap_mem s1)"
    using t rT nz nT unfolding s1_def split_raw_def Let_def n_def [symmetric]
    by (auto simp: tag_view [OF sep] intro!: tags_only_set)
  moreover have "tags_only (insert n T) (heap_mem s1) (heap_mem s')"
    using fp h1(6) unfolding st insert_tag_def by (auto simp: Let_def i_def cls_def s1_def intro!: tags_only_set)
  ultimately have "tags_only (insert n T) (heap_mem s) (heap_mem s')" by (rule tags_only_trans) simp
  moreover have "live_of s' (insert n T) {} = live_of s T {}"
  proof (rule sym, rule live_shrink)
    fix u assume u: "u \<in> T - {}"
    then show "bt_index (?h u) = bt_index (tagof s' u) \<and> bt_size (?h u) = bt_size (tagof s' u)"
      using w [of u] v [of u] nT by (auto simp: h1_def in_hand_def)
  next
    fix u assume "u \<in> insert n T - {}" "u \<notin> T - {}"
    then show "bt_index (tagof s' u) \<noteq> - 1" using w [of n] cls_not_minus_one [OF i8] by simp
  qed auto
  ultimately show "\<exists>T' F'. heap_inv s' T' F' {} W \<and> T \<subseteq> T' \<and> tags_only T' (heap_mem s) (heap_mem s') \<and>
     live_of s' T' {} = live_of s T {}" using inv by blast
  show "pages s' = pages s" "l_initialized s' = l_initialized s" by (simp_all add: st s1_def)
qed

section \<open>The end of malloc\<close>

lemma malloc_finish_inv:
  assumes ok: "heap_inv s T F {t} W" and t: "t \<in> T" "bt_index (tagof s t) = - 1"
    and room: "unat sz + 32 \<le> rsz (tag_at (heap_mem s)) t"
    and nb: "bt_split_right (tagof s t) \<noteq> 0 \<Longrightarrow> bt_index (tagof s (bt_split_right (tagof s t))) = - 1"
    and s': "s' = snd (malloc_finish sz t s)"
  shows "\<exists>T' F'. heap_inv s' T' F' {} W \<and> T \<subseteq> T' \<and> tags_only T' (heap_mem s) (heap_mem s') \<and>
     live_of s' T' {} = (live_of s T {t})(t + 32 \<mapsto> sz)"
    and "pages s' = pages s" "l_initialized s' = l_initialized s" "int_enabled s'"
    and "fst (malloc_finish sz t s) = t + 32"
proof -
  define s1 where "s1 = upd_mem (set_size t sz) s"
  note ok' = heap_okD [OF ok]
  have v: "tagof s1 u = (if u = t then (tagof s t)\<lparr>bt_size := sz\<rparr> else tagof s u)" if "u \<in> T" for u
    using tag_view(2) [OF geom_sep [OF ok'(2)] t(1) that] by (simp add: s1_def)
  have ok1: "heap_inv s1 T F {} W"
    using heap_ok_size [OF ok, of sz "tag_at (heap_mem s1)"] room v by (simp add: s1_def)
  have t1: "tags_only T (heap_mem s) (heap_mem s1)" using t by (auto simp: s1_def intro!: tags_only_set)
  have lv: "live_of s1 T {} = (live_of s T {t})(t + 32 \<mapsto> sz)"
  proof
    fix p
    have "p - 32 = t \<longleftrightarrow> p = t + 32" by (auto simp: algebra_simps)
    then show "live_of s1 T {} p = ((live_of s T {t})(t + 32 \<mapsto> sz)) p"
      using v [of "p - 32"] t by (cases "p = t + 32") (auto simp: live_def)
  qed
  define rem where "rem = bt_real_size (tagof s t) - sz - 64"
  define sp where "sp \<longleftrightarrow> sint rem > 0 \<and> getexp rem \<ge> 0"
  have st: "s' = liballoc_unlock (if sp then snd (split_tag t s1) else s1)"
    using v [OF t(1)] by (simp add: s' malloc_finish_def Let_def sp_def rem_def s1_def)
  have eqs: "heap_mem (liballoc_unlock x) = heap_mem x" "l_freePages (liballoc_unlock x) = l_freePages x"
    "l_completePages (liballoc_unlock x) = l_completePages x" "pages (liballoc_unlock x) = pages x"
    "l_initialized (liballoc_unlock x) = l_initialized x" "int_enabled (liballoc_unlock x)"
    for x :: "'a liballoc" by (simp_all add: liballoc_unlock_def)
  show "int_enabled s'" unfolding st by (rule eqs)
  show "fst (malloc_finish sz t s) = t + 32" by (simp add: malloc_finish_def Let_def)
  show "(\<exists>T' F'. heap_inv s' T' F' {} W \<and> T \<subseteq> T' \<and> tags_only T' (heap_mem s) (heap_mem s') \<and>
     live_of s' T' {} = (live_of s T {t})(t + 32 \<mapsto> sz))"
    and "pages s' = pages s" and "l_initialized s' = l_initialized s"
  proof (atomize (full), cases sp)
    case False
    then show "(\<exists>T' F'. heap_inv s' T' F' {} W \<and> T \<subseteq> T' \<and> tags_only T' (heap_mem s) (heap_mem s') \<and>
        live_of s' T' {} = (live_of s T {t})(t + 32 \<mapsto> sz)) \<and>
      pages s' = pages s \<and> l_initialized s' = l_initialized s"
      unfolding st using ok1 t1 lv by (auto simp: eqs s1_def)
  next
    case True
    then have "unat rem < 2147483648" using sint_pos_unat [of rem] by (simp add: sp_def)
    then have "unat sz + 64 \<le> rsz (tag_at (heap_mem s)) t"
      using room unat_u32_lt [of sz] unat_u32_lt [of "bt_real_size (tagof s t)"]
      by (auto simp: rem_def unat_sub_if' split: if_splits)
    then have r1: "unat (bt_size (tagof s1 t)) + 64 \<le> rsz (tag_at (heap_mem s1)) t" using v [OF t(1)] by simp
    have i1: "bt_index (tagof s1 t) = - 1" and rr: "bt_split_right (tagof s1 t) = bt_split_right (tagof s t)"
      using v [OF t(1)] t by auto
    have nb1: "bt_split_right (tagof s1 t) \<noteq> 0 \<Longrightarrow> bt_index (tagof s1 (bt_split_right (tagof s1 t))) = - 1"
      using nb rr v [of "bt_split_right (tagof s t)"] linksD(1) [OF ok'(3) t(1)] t by auto
    note sp = split_tag_inv [OF ok1 t(1) i1 r1 nb1 refl]
    obtain T' F' where "heap_inv (snd (split_tag t s1)) T' F' {} W" "T \<subseteq> T'"
      "tags_only T' (heap_mem s1) (heap_mem (snd (split_tag t s1)))"
      "live_of (snd (split_tag t s1)) T' {} = live_of s1 T {}" using sp(1) by blast
    moreover from this have "tags_only T' (heap_mem s) (heap_mem (snd (split_tag t s1)))"
      using tags_only_trans [OF tags_only_mono [OF t1]] by blast
    ultimately show "(\<exists>T' F'. heap_inv s' T' F' {} W \<and> T \<subseteq> T' \<and> tags_only T' (heap_mem s) (heap_mem s') \<and>
        live_of s' T' {} = (live_of s T {t})(t + 32 \<mapsto> sz)) \<and>
      pages s' = pages s \<and> l_initialized s' = l_initialized s"
      unfolding st using True lv sp(2,3) by (auto simp: eqs s1_def)
  qed
qed

end
