(* ===== verification/Liballoc_Correct.thy ===== *)
theory Liballoc_Correct
  imports Liballoc_Split
begin

text \<open>
  \<open>malloc\<close> and \<open>free\<close> for any supplier of pages that keeps its promises: both end, both keep the invariant,
  \<open>malloc\<close> adds exactly one block to the allocated ones and \<open>free\<close> takes exactly one away.
\<close>

section \<open>The interface of the page supplier\<close>

text \<open>
  What \<open>malloc\<close> and \<open>free\<close> need of the two hooks. \<open>regions\<close> is what the supplier has handed out and not
  yet got back, \<open>good\<close> says for which page counts it keeps its promises.
\<close>

locale page_provider =
  fixes hk :: "'h hooks" and invar :: "'h \<Rightarrow> bool" and regions :: "'h \<Rightarrow> (u32 \<times> nat) set"
    and good :: "nat \<Rightarrow> bool"
  assumes alloc_law: "invar h \<Longrightarrow> good (unat n) \<Longrightarrow> \<exists>p h'. liballoc_alloc hk h n = Some (p, h') \<and> invar h' \<and>
      (if p = 0 then regions h' = regions h
       else regions h' = insert (p, unat n * 4096) (regions h) \<and>
         (\<forall>(a, k) \<in> regions h. unat p + unat n * 4096 \<le> unat a \<or> unat a + k \<le> unat p))"
    and free_law: "invar h \<Longrightarrow> (p, unat n * 4096) \<in> regions h \<Longrightarrow>
      \<exists>r h'. liballoc_free hk h p n = Some (r, h') \<and> invar h' \<and>
        regions h' = regions h - {(p, unat n * 4096)}"
    and regions_law: "invar h \<Longrightarrow> regions_ok (regions h)"
    and pages_law: "invar h \<Longrightarrow> (a, k) \<in> regions h \<Longrightarrow>
      unat a + k < 4294967296 \<and> (\<exists>n. k = n * 4096 \<and> 0 < n)"
begin

definition allocator_ok :: "'h liballoc \<Rightarrow> u32 set \<Rightarrow> (int \<Rightarrow> u32 list) \<Rightarrow> bool" where
  "allocator_ok s T F \<longleftrightarrow> invar (pages s) \<and>
     (if l_initialized s then heap_inv s T F {} (regions (pages s)) else T = {})"

lemma heap_ok_init:
  assumes "allocator_ok s T F"
  shows "\<exists>F'. heap_inv (malloc_init (liballoc_lock s)) T F' {} (regions (pages s))"
proof (cases "l_initialized s")
  case True
  then show ?thesis using assms by (auto simp: allocator_ok_def malloc_init_def liballoc_lock_def)
next
  case False
  then have "T = {}" using assms by (simp add: allocator_ok_def)
  then have "heap_inv (malloc_init (liballoc_lock s)) T (\<lambda>_. []) {} (regions (pages s))"
    using False by (simp add: malloc_init_def liballoc_lock_def heap_ok_def tiling_def geom_def links_def
      owns_def freelists_def roomy_def classed_def coalesced_def counted_def MAXEXP_def MAXCOMPLETE_def)
  then show ?thesis by blast
qed

lemma region_size:
  assumes "invar h" "(a, k) \<in> regions h" "unat r = k"
  shows "(let pages0 = r div l_pageSize;
      pages1 = (if r mod l_pageSize \<noteq> 0 then pages0 + 1 else pages0)
    in unat (if pages1 < l_pageCount then l_pageCount else pages1)) * 4096 = k"
proof -
  obtain n where n: "k = n * 4096" "0 < n" using pages_law [OF assms(1,2)] by blast
  have "unat (r div 4096) = n" "unat (r mod 4096) = 0" using n assms(3) by (simp_all add: unat_div unat_mod)
  moreover from this have "r div 4096 \<noteq> 0" using n by auto
  ultimately show ?thesis
    using n by (simp add: l_pageSize_def l_pageCount_def Let_def word_less_nat_alt unat_eq_0)
qed

lemma payload_nonzero:
  assumes "heap_inv s T F D (regions h)" "invar h" "t \<in> T"
  shows "t + 32 \<noteq> 0"
proof -
  note ok = heap_okD [OF assms(1)]
  obtain a k where A: "(a, k) \<in> regions h" "unat t + rsz (tag_at (heap_mem s)) t \<le> unat a + k"
    using ownsD [OF ok(4) assms(3)] by metis
  then have "unat t + 32 < 4294967296"
    using pages_law [OF assms(2) A(1)] geomD(4) [OF ok(2) assms(3)] by simp
  then have "unat (t + 32) = unat t + 32" using unat_u32_add_le [of t 32] by simp
  then show ?thesis by auto
qed

section \<open>free\<close>


lemma insert_back:
  assumes ok: "heap_inv s T F {t} (regions (pages s))" and inv: "invar (pages s)" "l_initialized s"
    and t: "t \<in> T" "bt_index (tagof s t) = - 1"
    and nb: "bt_split_left (tagof s t) \<noteq> 0 \<Longrightarrow> bt_index (tagof s (bt_split_left (tagof s t))) = - 1"
      "bt_split_right (tagof s t) \<noteq> 0 \<Longrightarrow> bt_index (tagof s (bt_split_right (tagof s t))) = - 1"
    and i: "i = cls (bt_real_size (tagof s t) - 32)"
    and full: "whole (tagof s t) \<Longrightarrow> l_completePages s i < MAXCOMPLETE"
    and s': "s' = liballoc_unlock (insert_tag t i (s\<lparr>l_completePages :=
      (if whole (tagof s t) then (l_completePages s)(i := l_completePages s i + 1) else l_completePages s)\<rparr>))"
  shows "\<exists>F'. allocator_ok s' T F' \<and> int_enabled s' \<and> l_initialized s' \<and>
     live_of s' T {} = live_of s T {t} \<and> tags_only T (heap_mem s) (heap_mem s')"
proof -
  have i8: "i = (if i < 0 then cls (bt_real_size (tagof s t) - 32) else i)" "i \<in> {8..31}"
    using cls_range i by auto
  note tg = insert_tag_tags [OF ok t i8]
  have cp: "heap_mem (insert_tag t i (s\<lparr>l_completePages := c\<rparr>)) = heap_mem (insert_tag t i s)"
    "l_freePages (insert_tag t i (s\<lparr>l_completePages := c\<rparr>)) = l_freePages (insert_tag t i s)" for c
    by (simp_all add: insert_tag_def Let_def)
  have "heap_inv s' T (F(i := t # F i)) {} (regions (pages s))"
    using insert_tag_inv [OF ok t subset_refl i disjI1 [OF refl] nb full] cp
    by (simp add: s' liballoc_unlock_def del: insert_tag_fields(4))
  moreover have "live_of s' T {} = live_of s T {t}"
    by (rule live_shrink [symmetric]) (use tg(1) cls_not_minus_one [OF i8(2)] in
      \<open>auto simp: s' liballoc_unlock_def cp\<close>)
  ultimately show ?thesis
    using inv tg(2) by (auto simp: allocator_ok_def s' liballoc_unlock_def cp(1))
qed

lemma free_finish_correct:
  assumes ok: "heap_inv s T F {t} (regions (pages s))" and inv: "invar (pages s)" "l_initialized s"
    and t: "t \<in> T" "bt_index (tagof s t) = - 1"
    and nb: "bt_split_left (tagof s t) \<noteq> 0 \<Longrightarrow> bt_index (tagof s (bt_split_left (tagof s t))) = - 1"
      "bt_split_right (tagof s t) \<noteq> 0 \<Longrightarrow> bt_index (tagof s (bt_split_right (tagof s t))) = - 1"
  shows "\<exists>s' T' F'. free_finish hk t s = Some s' \<and> allocator_ok s' T' F' \<and> T' \<subseteq> T \<and> int_enabled s' \<and>
     l_initialized s' \<and> live_of s' T' {} = live_of s T {t} \<and> tags_only T (heap_mem s) (heap_mem s')"
proof -
  let ?h = "tag_at (heap_mem s)" and ?i = "cls (bt_real_size (tagof s t) - 32)"
  note ok' = heap_okD [OF ok]
  have i8: "?i \<in> {8..31}" using cls_range by auto
  have le: "l_completePages s ?i \<le> MAXCOMPLETE" using ok'(9) i8 unfolding counted_def by blast
  show ?thesis
  proof (cases "whole (?h t) \<and> l_completePages s ?i = MAXCOMPLETE")
    case True
    have reg: "(t, rsz ?h t) \<in> regions (pages s)" using whole_region [OF ok'(4) t(1)] True by simp
    define n where "n = (let pages0 = bt_real_size (?h t) div l_pageSize;
      pages1 = (if bt_real_size (?h t) mod l_pageSize \<noteq> 0 then pages0 + 1 else pages0)
      in if pages1 < l_pageCount then l_pageCount else pages1)"
    have n: "unat n * 4096 = rsz ?h t" using region_size [OF inv(1) reg refl] by (simp add: n_def Let_def)
    obtain r h' where fr: "liballoc_free hk (pages s) t n = Some (r, h')" "invar h'"
      "regions h' = regions (pages s) - {(t, rsz ?h t)}"
      using free_law [OF inv(1), of t n] reg n by auto
    have ff: "free_finish hk t s = Some (liballoc_unlock (s\<lparr>pages := h'\<rparr>))"
      using True fr(1) by (simp add: free_finish_def Let_def whole_def cls_def n_def)
    have "heap_inv s (T - {t}) F {} (regions h')"
      using heap_ok_drop [OF ok t] True fr(3) by simp
    moreover have "live_of s (T - {t}) {} = live_of s T {t}" by (rule live_shrink) auto
    ultimately show ?thesis
      using fr(2) inv(2) ff by (auto simp: allocator_ok_def liballoc_unlock_def)
  next
    case False
    have "free_finish hk t s = Some (liballoc_unlock (insert_tag t ?i (s\<lparr>l_completePages :=
      (if whole (?h t) then (l_completePages s)(?i := l_completePages s ?i + 1) else l_completePages s)\<rparr>)))"
      using False by (auto simp: free_finish_def Let_def whole_def cls_def)
    moreover have "whole (?h t) \<Longrightarrow> l_completePages s ?i < MAXCOMPLETE" using False le by auto
    ultimately show ?thesis
      using insert_back [OF ok inv t nb refl _ refl] by blast
  qed
qed

text \<open>\<open>free\<close> of an allocated block ends, and takes exactly this block from the allocated ones.\<close>

lemma free_correct:
  assumes ok: "allocator_ok s T F" and p: "live_of s T {} p = Some n"
  shows "\<exists>s' T' F'. free hk p s = Some s' \<and> allocator_ok s' T' F' \<and> T' \<subseteq> T \<and> int_enabled s' \<and>
     live_of s' T' {} = (live_of s T {})(p := None) \<and> tags_only T (heap_mem s) (heap_mem s')"
proof -
  let ?t = "p - 32"
  have t: "?t \<in> T" "bt_index (tagof s ?t) = - 1" using p by (auto simp: live_def split: if_splits)
  then have inv: "l_initialized s" "invar (pages s)" and hi: "heap_inv s T F {} (regions (pages s))"
    using ok by (auto simp: allocator_ok_def split: if_splits)
  note hi' = heap_okD [OF hi]
  have W: "regions_ok (regions (pages s))" using regions_law inv by simp
  have p0: "p \<noteq> 0" using payload_nonzero [OF hi inv(2) t(1)] by simp
  define s0 where "s0 = liballoc_lock s"
  have s0: "heap_mem s0 = heap_mem s" "l_freePages s0 = l_freePages s" "l_completePages s0 = l_completePages s"
    "pages s0 = pages s" "l_initialized s0 = l_initialized s" by (simp_all add: s0_def liballoc_lock_def)
  have "heap_inv s0 T F {?t} (regions (pages s))"
    using hi unfolding s0 by (auto simp: heap_ok_def roomy_def)
  from melt_left_loop_correct [OF this W t(1)] t(2)
  obtain t1 s1 T1 F1 where m: "melt_left_loop ?t s0 = Some (t1, s1)"
    and m': "heap_inv s1 T1 F1 {t1} (regions (pages s))" "t1 \<in> T1" "bt_index (tagof s1 t1) = - 1"
     "bt_split_left (tagof s1 t1) \<noteq> 0 \<longrightarrow> bt_index (tagof s1 (bt_split_left (tagof s1 t1))) = - 1"
    and m2: "T1 \<subseteq> T" "live_of s1 T1 {t1} = live_of s T {?t}" "tags_only T (heap_mem s) (heap_mem s1)"
     "pages s1 = pages s" "l_initialized s1"
    by (auto simp: s0 inv)
  from absorb_right_loop_correct [OF m'(1) W m'(2-)]
  obtain s2 T2 F2 where a: "absorb_right_loop t1 s1 = Some (t1, s2)"
    and a': "heap_inv s2 T2 F2 {t1} (regions (pages s))" "t1 \<in> T2" "bt_index (tagof s2 t1) = - 1"
     "bt_split_left (tagof s2 t1) \<noteq> 0 \<longrightarrow> bt_index (tagof s2 (bt_split_left (tagof s2 t1))) = - 1"
     "bt_split_right (tagof s2 t1) \<noteq> 0 \<longrightarrow> bt_index (tagof s2 (bt_split_right (tagof s2 t1))) = - 1"
    and a2: "T2 \<subseteq> T1" "live_of s2 T2 {t1} = live_of s1 T1 {t1}" "tags_only T1 (heap_mem s1) (heap_mem s2)"
     "pages s2 = pages s1" "l_initialized s2 = l_initialized s1" by blast
  have pg: "invar (pages s2)" "l_initialized s2" "heap_inv s2 T2 F2 {t1} (regions (pages s2))"
    using a' a2 m2 inv by simp_all
  from free_finish_correct [OF pg(3,1,2) a'(2,3)] a'(4,5) obtain s' T' F' where f: "free_finish hk t1 s2 = Some s'"
    "allocator_ok s' T' F'" "T' \<subseteq> T2" "int_enabled s'" "live_of s' T' {} = live_of s2 T2 {t1}"
    "tags_only T2 (heap_mem s2) (heap_mem s')" by blast
  have "tags_only T (heap_mem s) (heap_mem s')"
    by (rule tags_only_trans [OF tags_only_trans [OF m2(3) a2(3) m2(1)] f(6)]) (use m2(1) a2(1) in auto)
  moreover have "live_of s T {?t} = (live_of s T {})(p := None)"
    by (rule ext) (auto simp: live_def)
  moreover have "free hk p s = Some s'"
    using p0 t geomD(3) [OF hi'(2) t(1)] m a f(1) unfolding free_def s0_def [symmetric] by (simp add: s0)
  ultimately show ?thesis using f m2(1,2) a2(1,2) by auto
qed

section \<open>malloc\<close>

lemma ceil_div_4096:
  "((x :: nat) + 4095) div 4096 = (if x mod 4096 \<noteq> 0 then x div 4096 + 1 else x div 4096)"
proof -
  define q r where "q = x div 4096" and "r = x mod 4096"
  have x: "x = q * 4096 + r" "r < 4096" by (simp_all add: q_def r_def)
  have "(x + 4095) div 4096 = (if r \<noteq> 0 then q + 1 else q)"
    by (rule div_nat_eqI) (use x in auto)
  then show ?thesis by (simp add: q_def r_def)
qed

lemma page_count:
  assumes "unat sz + 4160 \<le> 4294967296"
  shows "(let usage = sz + sizeof_tag; pages0 = usage div l_pageSize;
        pages1 = (if usage mod l_pageSize \<noteq> 0 then pages0 + 1 else pages0)
      in unat (if pages1 < l_pageCount then l_pageCount else pages1)) = (unat sz + 4127) div 4096"
proof -
  have u: "unat (sz + 32) = unat sz + 32" using unat_u32_add_le [of sz 32] assms by simp
  have m: "(sz + 32) mod 4096 \<noteq> 0 \<longleftrightarrow> (unat sz + 32) mod 4096 \<noteq> 0"
    by (simp add: unat_eq_0 [symmetric] unat_mod u)
  have d: "unat ((sz + 32) div 4096) = (unat sz + 32) div 4096" by (simp add: unat_div u)
  have "unat ((sz + 32) div 4096 + 1) = (unat sz + 32) div 4096 + 1"
    using unat_u32_add_le [of "(sz + 32) div 4096" 1] d assms by simp
  moreover have "(unat sz + 4127) div 4096 =
      (if (unat sz + 32) mod 4096 \<noteq> 0 then (unat sz + 32) div 4096 + 1 else (unat sz + 32) div 4096)"
    using ceil_div_4096 [of "unat sz + 32"] by simp
  ultimately show ?thesis
    using m d by (auto simp: l_pageSize_def l_pageCount_def Let_def word_less_nat_alt)
qed

lemma allocate_new_tag_correct:
  assumes ok: "heap_inv s T F {} (regions (pages s))" and inv: "invar (pages s)"
    and sz: "unat sz + 4160 \<le> 4294967296" "good ((unat sz + 4127) div 4096)"
  shows "\<exists>t s'. allocate_new_tag hk sz s = Some (t, s') \<and> invar (pages s') \<and>
     l_initialized s' = l_initialized s \<and>
     (if t = 0 then heap_inv s' T F {} (regions (pages s')) \<and> heap_mem s' = heap_mem s
      else heap_inv s' (insert t T) F {t} (regions (pages s')) \<and> t \<notin> T \<and> bt_index (tagof s' t) = - 1 \<and>
        bt_split_right (tagof s' t) = 0 \<and> unat sz + 32 \<le> rsz (tag_at (heap_mem s')) t \<and>
        live_of s' (insert t T) {t} = live_of s T {} \<and> tags_only (insert t T) (heap_mem s) (heap_mem s'))"
proof -
  define np where "np = (let usage = sz + sizeof_tag; pages0 = usage div l_pageSize;
        pages1 = (if usage mod l_pageSize \<noteq> 0 then pages0 + 1 else pages0)
      in (if pages1 < l_pageCount then l_pageCount else pages1))"
  have np: "unat np = (unat sz + 4127) div 4096" using page_count [OF sz(1)] by (simp add: np_def Let_def)
  obtain t h' where al: "liballoc_alloc hk (pages s) np = Some (t, h')" and h': "invar h'"
    "t = 0 \<Longrightarrow> regions h' = regions (pages s)" "t \<noteq> 0 \<Longrightarrow> regions h' = insert (t, unat np * 4096) (regions (pages s))"
    "\<And>a k. t \<noteq> 0 \<Longrightarrow> (a, k) \<in> regions (pages s) \<Longrightarrow> unat t + unat np * 4096 \<le> unat a \<or> unat a + k \<le> unat t"
    using alloc_law [OF inv, of np] sz(2) unfolding np [symmetric] by (fastforce split: if_splits)
  show ?thesis
  proof (cases "t = 0")
    case True
    then have "allocate_new_tag hk sz s = Some (0, s\<lparr>pages := h'\<rparr>)"
      using al by (simp add: allocate_new_tag_def np_def Let_def)
    then show ?thesis using ok h' True by auto
  next
    case False
    define s' where "s' = upd_mem (set_split_right t 0) (upd_mem (set_split_left t 0)
                   (upd_mem (set_prev t 0) (upd_mem (set_next t 0)
                   (upd_mem (set_index t (- 1)) (upd_mem (set_real_size t (np * l_pageSize))
                   (upd_mem (set_size t sz) (upd_mem (set_magic t LIBALLOC_MAGIC) (s\<lparr>pages := h'\<rparr>))))))))"
    have an: "allocate_new_tag hk sz s = Some (t, s')"
      using al False by (simp add: allocate_new_tag_def np_def Let_def s'_def)
    have bd: "unat t + unat np * 4096 < 4294967296" using pages_law [OF h'(1)] h'(3) False by auto
    then have rs: "unat (np * l_pageSize) = unat np * 4096" by (simp add: unat_word_ariths l_pageSize_def)
    have big: "unat sz + 32 \<le> unat np * 4096" 
      using dividend_less_div_times [of 4096 "unat sz + 4127"] unfolding np by simp
    note ok' = heap_okD [OF ok]
    have far: "unat t + unat np * 4096 \<le> unat u \<or> unat u + rsz (tag_at (heap_mem s)) u \<le> unat t"
      if u: "u \<in> T" for u
    proof -
      obtain a k where "(a, k) \<in> regions (pages s)" "unat a \<le> unat u"
        "unat u + rsz (tag_at (heap_mem s)) u \<le> unat a + k" using ownsD [OF ok'(4) u] by metis
      then show ?thesis using h'(4) [OF False, of a k] by auto
    qed
    have dj: "disj t 32 u 32" if u: "u \<in> T" for u
      using far [OF u] geomD(4,5) [OF ok'(2) u] big bd disj_lin [of t 32 u 32] disj_lin [of u 32 t 32] disj_sym
      by fastforce
    have tT: "t \<notin> T" using far [of t] geomD(4) [OF ok'(2), of t] big by fastforce
    have v: "tagof s' u = tagof s u" if "u \<in> T" for u
      using dj [OF that] by (simp add: s'_def tag_at_set_other)
    have vt: "tagof s' t = \<lparr>bt_magic = LIBALLOC_MAGIC, bt_size = sz, bt_real_size = np * l_pageSize,
        bt_index = - 1, bt_split_left = 0, bt_split_right = 0, bt_next = 0, bt_prev = 0\<rparr>"
      by (simp add: s'_def)
    have "heap_inv s' (insert t T) F {t} (regions (pages s'))"
      using heap_ok_new [OF ok h'(4) [OF False] False _ _ v] False bd big rs vt h'(3)
      by (simp add: s'_def)
    moreover have "live_of s' (insert t T) {t} = live_of s T {}"
      using v tT by (intro live_shrink) auto
    moreover have "tags_only (insert t T) (heap_mem s) (heap_mem s')"
      by (auto simp: s'_def intro!: tags_only_set)
    moreover have "invar (pages s')" "l_initialized s' = l_initialized s" using h'(1) by (simp_all add: s'_def)
    ultimately show ?thesis using an False tT vt rs big by (intro exI [of _ t] exI [of _ s']) simp
  qed
qed

text \<open>\<open>malloc\<close> with a block from the free lists.\<close>

lemma malloc_reuse:
  assumes ok: "heap_inv s T F {} W" and i: "i \<in> {8..31}" and f: "f \<in> set (F i)"
    and sz: "unat sz + 4160 \<le> 4294967296" "sz + 32 \<le> bt_real_size (tagof s f) - 32"
    and s1: "s1 = remove_tag f s"
    and s2: "s2 = (if bt_split_left (tagof s1 f) = 0 \<and> bt_split_right (tagof s1 f) = 0
       then s1\<lparr>l_completePages := (l_completePages s1)(i := l_completePages s1 i - 1)\<rparr> else s1)"
  shows "\<exists>F'. heap_inv s2 T F' {f} W" "f \<in> T" "bt_index (tagof s2 f) = - 1" "bt_index (tagof s f) \<noteq> - 1"
    "unat sz + 32 \<le> rsz (tag_at (heap_mem s2)) f"
    "bt_split_right (tagof s2 f) \<noteq> 0 \<Longrightarrow> bt_index (tagof s2 (bt_split_right (tagof s2 f))) = - 1"
    "live_of s2 T {f} = live_of s T {}" "tags_only T (heap_mem s) (heap_mem s2)"
    "pages s2 = pages s" "l_initialized s2 = l_initialized s"
proof -
  note ok' = heap_okD [OF ok]
  note tg = remove_tag_tags [OF ok i f]
  have m: "heap_mem s2 = heap_mem s1" by (simp add: s2)
  show fT: "f \<in> T" and free: "bt_index (tagof s f) \<noteq> - 1"
    using freelistsD(2) [OF ok'(5) i f] cls_not_minus_one [OF i] by auto
  have v: "tagof s2 u = unlink f (tag_at (heap_mem s)) u" if "u \<in> T" for u
    using tg(1) [OF that] m s1 by simp
  have w: "whole (tagof s f) \<longleftrightarrow> bt_split_left (tagof s1 f) = 0 \<and> bt_split_right (tagof s1 f) = 0"
    using v [OF fT] m by (simp add: whole_def)
  show "\<exists>F'. heap_inv s2 T F' {f} W"
    using remove_tag_inv [OF ok i f] by (intro exI [of _ "F(i := remove1 f (F i))"])
      (simp add: s2 s1 [symmetric] w [symmetric] del: remove_tag_fields(4), auto simp: s1)
  show "bt_index (tagof s2 f) = - 1" by (simp add: v [OF fT])
  have "unat sz + 32 \<le> rsz (tag_at (heap_mem s)) f - 32"
    using sz(2) geomD(4) [OF ok'(2) fT] unat_u32_add_le [of sz 32] sz(1)
    by (simp add: word_le_nat_alt unat_sub_if')
  then show "unat sz + 32 \<le> rsz (tag_at (heap_mem s2)) f" by (simp add: v [OF fT])
  show "bt_index (tagof s2 (bt_split_right (tagof s2 f))) = - 1" if "bt_split_right (tagof s2 f) \<noteq> 0"
    using that ok'(8) fT free linksD(1) [OF ok'(3) fT] v by (simp add: coalesced_def)
  show "live_of s2 T {f} = live_of s T {}" using v free by (intro live_shrink) auto
  show "tags_only T (heap_mem s) (heap_mem s2)" using tg(3) m s1 by simp
  show "pages s2 = pages s" "l_initialized s2 = l_initialized s" by (simp_all add: s2 s1)
qed

text \<open>The end of \<open>malloc\<close>, seen from the state \<open>s\<close> at its start.\<close>

lemma malloc_finish_correct:
  assumes hi: "heap_inv x T1 F1 {t} (regions (pages x))" "t \<in> T1" "bt_index (tagof x t) = - 1"
      "unat sz + 32 \<le> rsz (tag_at (heap_mem x)) t"
      "bt_split_right (tagof x t) \<noteq> 0 \<Longrightarrow> bt_index (tagof x (bt_split_right (tagof x t))) = - 1"
    and x: "live_of x T1 {t} = live_of s T {}" "tags_only T1 (heap_mem s) (heap_mem x)"
      "invar (pages x)" "l_initialized x" and T: "T \<subseteq> T1" "live_of s T {} (t + 32) = None"
    and m: "malloc hk sz s = Some (malloc_finish sz t x)"
  shows "\<exists>p s' T' F'. malloc hk sz s = Some (p, s') \<and> allocator_ok s' T' F' \<and> int_enabled s' \<and>
     (if p = 0 then live_of s' T' {} = live_of s T {}
      else live_of s T {} p = None \<and> live_of s' T' {} = (live_of s T {})(p \<mapsto> sz)) \<and>
     T \<subseteq> T' \<and> tags_only T' (heap_mem s) (heap_mem s')"
proof -
  let ?s = "snd (malloc_finish sz t x)"
  note mf = malloc_finish_inv [OF hi refl]
  obtain T' F' where a: "heap_inv ?s T' F' {} (regions (pages x))" "T1 \<subseteq> T'"
    "tags_only T' (heap_mem x) (heap_mem ?s)"
    "live_of ?s T' {} = (live_of x T1 {t})(t + 32 \<mapsto> sz)" using mf(1) by blast
  have "malloc_finish sz t x = (t + 32, ?s)" using mf(5) by (metis prod.collapse)
  moreover have "tags_only T' (heap_mem s) (heap_mem ?s)"
    by (rule tags_only_trans [OF tags_only_mono [OF x(2) a(2)] a(3)]) simp
  moreover have "allocator_ok ?s T' F'" using mf(2,3) a(1) x(3,4) by (simp add: allocator_ok_def)
  ultimately show ?thesis
    using mf(4) m x(1) a(2,4) T payload_nonzero [OF hi(1) x(3) hi(2)]
    by (intro exI [of _ "t + 32"] exI [of _ ?s] exI [of _ T'] exI [of _ F']) auto
qed

text \<open>
  \<open>malloc\<close> ends; a null result leaves the allocated blocks alone, any other adds exactly the new block.
\<close>

lemma malloc_correct:
  assumes ok: "allocator_ok s T F"
    and sz: "unat sz + 4160 \<le> 4294967296" "good ((unat sz + 4127) div 4096)"
  shows "\<exists>p s' T' F'. malloc hk sz s = Some (p, s') \<and> allocator_ok s' T' F' \<and> int_enabled s' \<and>
     (if p = 0 then live_of s' T' {} = live_of s T {}
      else live_of s T {} p = None \<and> live_of s' T' {} = (live_of s T {})(p \<mapsto> sz)) \<and>
     T \<subseteq> T' \<and> tags_only T' (heap_mem s) (heap_mem s')"
proof -
  define s0 where "s0 = malloc_init (liballoc_lock s)"
  have s0: "heap_mem s0 = heap_mem s" "pages s0 = pages s" "l_initialized s0"
    by (simp_all add: s0_def malloc_init_def liballoc_lock_def)
  have inv: "invar (pages s)" using ok by (simp add: allocator_ok_def)
  obtain F0 where hi: "heap_inv s0 T F0 {} (regions (pages s))" using heap_ok_init [OF ok] by (auto simp: s0_def)
  define i where "i = cls sz"
  have i8: "i \<in> {8..31}" using cls_range by (auto simp: i_def)
  obtain r where "dseg (tag_at (heap_mem s0)) 0 (l_freePages s0 i) (F0 i) r 0"
    using freelistsD(1) [OF heap_okD(5) [OF hi] i8] by (auto simp: dll_def)
  then obtain f where f: "find_tag (heap_mem s0) sz (l_freePages s0 i) = Some f"
    "f = 0 \<or> f \<in> set (F0 i) \<and> sz + 32 \<le> bt_real_size (tagof s0 f) - 32"
    using find_tag_correct by blast
  have idx: "(let index0 = getexp sz + MODE in if index0 < int MINEXP then int MINEXP else index0) = i"
    by (simp add: i_def cls_def MODE_def)
  show ?thesis
  proof (cases "f = 0")
    case True
    obtain t s1 where a: "allocate_new_tag hk sz s0 = Some (t, s1)" "invar (pages s1)" "l_initialized s1"
      and a0: "t = 0 \<Longrightarrow> heap_inv s1 T F0 {} (regions (pages s1)) \<and> heap_mem s1 = heap_mem s"
      and a1: "t \<noteq> 0 \<Longrightarrow> heap_inv s1 (insert t T) F0 {t} (regions (pages s1)) \<and> t \<notin> T \<and>
        bt_index (tagof s1 t) = - 1 \<and> bt_split_right (tagof s1 t) = 0 \<and>
        unat sz + 32 \<le> rsz (tag_at (heap_mem s1)) t \<and>
        live_of s1 (insert t T) {t} = live_of s T {} \<and> tags_only (insert t T) (heap_mem s) (heap_mem s1)"
      using allocate_new_tag_correct [of s0 T F0 sz] hi inv sz s0 by (auto split: if_splits)
    show ?thesis
    proof (cases "t = 0")
      case True
      have "malloc hk sz s = Some (0, liballoc_unlock s1)"
        using a(1) f(1) \<open>f = 0\<close> True idx unfolding malloc_def s0_def [symmetric] by (simp add: Let_def)
      then show ?thesis
        using a0 [OF True] a(2,3) by (intro exI [of _ 0] exI [of _ "liballoc_unlock s1"] exI [of _ T] exI [of _ F0])
          (auto simp: allocator_ok_def liballoc_unlock_def)
    next
      case False
      have "malloc hk sz s = Some (malloc_finish sz t s1)"
        using a(1) f(1) \<open>f = 0\<close> False idx unfolding malloc_def s0_def [symmetric] by (simp add: Let_def)
      moreover have "live_of s T {} (t + 32) = None" using a1 [OF False] by (simp add: live_def)
      ultimately show ?thesis
        using a1 [OF False] a(2,3) by (intro malloc_finish_correct [of s1 "insert t T" F0 t]) auto
    qed
  next
    case False
    then have ff: "f \<in> set (F0 i)" "sz + 32 \<le> bt_real_size (tagof s0 f) - 32" using f(2) by auto
    define s2 where "s2 = (let s1 = remove_tag f s0 in
      if bt_split_left (tagof s1 f) = 0 \<and> bt_split_right (tagof s1 f) = 0
       then s1\<lparr>l_completePages := (l_completePages s1)(i := l_completePages s1 i - 1)\<rparr> else s1)"
    note re = malloc_reuse [OF hi i8 ff(1) sz(1) ff(2) refl s2_def [unfolded Let_def]]
    have "malloc hk sz s = Some (malloc_finish sz f s2)"
      using f(1) False idx unfolding malloc_def s0_def [symmetric] s2_def by (simp add: Let_def)
    moreover have "live_of s T {} (f + 32) = None" using re(4) s0(1) by (simp add: live_def)
    moreover obtain F2 where "heap_inv s2 T F2 {f} (regions (pages s2))" using re(1,9) s0(2) by auto
    ultimately show ?thesis
      using re(2,3,5-10) s0 inv by (intro malloc_finish_correct [of s2 T F2 f]) simp_all
  qed
qed

end

end
