(* ===== verification/Liballoc_Client.thy ===== *)
theory Liballoc_Client
  imports Liballoc_Correct
begin

text \<open>
  What a client of the allocator may rely on: allocated blocks overlap neither each other nor a tag,
  writes into a block leave the allocator intact, \<open>calloc\<close> hands out zeros and \<open>realloc\<close> keeps contents.
\<close>

section \<open>The copy and fill loops of liballoc\<close>

lemma liballoc_memset_apply:
  "fst (liballoc_memset m p c n) x = (if in_rng p (unat n) x then ucast c else m x)"
  by (simp add: liballoc_memset_def memset_loop_apply in_rng_def)

lemma store32_load32:
  "store32 m d (load32 m s) x = (if in_rng d 4 x then m (s + (x - d)) else m x)"
proof (cases "in_rng d 4 x")
  case True
  then have "unat (x - d) < 4" by (simp add: in_rng_def)
  then consider "unat (x - d) = unat (0 :: u32)" | "unat (x - d) = unat (1 :: u32)"
    | "unat (x - d) = unat (2 :: u32)" | "unat (x - d) = unat (3 :: u32)" by fastforce
  then show ?thesis
    unfolding addr_offset_iff [symmetric] using True
    by cases (simp_all add: store32_def load32_bytes)
next
  case False
  then show ?thesis by (simp add: store32_outside)
qed

lemma in_rng_rest:
  assumes "unat k \<le> n" "n < 4294967296"
  shows "in_rng (d + k) (n - unat k) x \<longleftrightarrow> in_rng d n x \<and> \<not> in_rng d (unat k) x"
proof -
  have "unat (x - d - k) = (if unat k \<le> unat (x - d) then unat (x - d) - unat k
      else unat (x - d) + 4294967296 - unat k)"
    by (simp add: unat_sub_if' [of "x - d" k])
  then show ?thesis using assms by (auto simp: in_rng_def algebra_simps)
qed

text \<open>A copy of \<open>k\<close> bytes followed by a copy of the rest is a copy of all.\<close>

lemma copy_step:
  assumes "disj d n s n" "unat k \<le> n" "n < 4294967296"
    and m1: "\<And>x. m1 x = (if in_rng d (unat k) x then m (s + (x - d)) else m x)"
  shows "(if in_rng (d + k) (n - unat k) x then m1 (s + k + (x - (d + k))) else m1 x) =
     (if in_rng d n x then m (s + (x - d)) else m x)"
proof -
  have e: "s + k + (x - (d + k)) = s + (x - d)" by simp
  have "\<not> in_rng d (unat k) (s + (x - d))" if "in_rng d n x"
    using disjD [OF disj_sym [OF assms(1)], of "s + (x - d)"] that in_rng_sub assms(2)
    by (force simp: in_rng_def)
  then show ?thesis unfolding e in_rng_rest [OF assms(2,3)] m1
    using in_rng_sub [OF _ assms(2)] by auto
qed

lemma disj_rest:
  assumes "disj d n s n"
  shows "disj (d + k) (n - j) (s + k) (n - j)"
  using assms by (auto simp: disj_def)

lemma memcpy_chars_apply:
  "disj d (unat n) s (unat n) \<Longrightarrow>
   memcpy_chars m d s n x = (if in_rng d (unat n) x then m (s + (x - d)) else m x)"
proof (induction m d s n arbitrary: x rule: memcpy_chars.induct)
  case (1 m d s n)
  show ?case
  proof (cases "n > 0")
    case False
    then have "n = 0" using word_neq_0_conv by blast
    then show ?thesis by (subst memcpy_chars.simps) (simp add: in_rng_def)
  next
    case True
    then have n: "unat (n - 1) = unat n - 1" "1 \<le> unat n" by (auto simp: unat_minus_one unat_gt_0 Suc_le_eq)
    have dj: "disj (d + 1) (unat (n - 1)) (s + 1) (unat (n - 1))" using disj_rest [OF 1(2)] n by simp
    have "memcpy_chars m d s n x = memcpy_chars (m(d := m s)) (d + 1) (s + 1) (n - 1) x"
      using True by (subst memcpy_chars.simps) simp
    also have "\<dots> = (if in_rng (d + 1) (unat n - unat (1 :: u32)) x
        then (m(d := m s)) (s + 1 + (x - (d + 1))) else (m(d := m s)) x)"
      using 1(1) [OF True dj] n by (simp add: fun_upd_def)
    also have "\<dots> = (if in_rng d (unat n) x then m (s + (x - d)) else m x)"
      using n unat_u32_lt [of n] by (intro copy_step [OF 1(2)]) (auto simp: in_rng_def unat_eq_0)
    finally show ?thesis .
  qed
qed

lemma liballoc_memcpy_apply:
  assumes "disj d (unat n) s (unat n)"
  shows "fst (liballoc_memcpy m d s n) x = (if in_rng d (unat n) x then m (s + (x - d)) else m x)"
  using assms
proof (induction m d s n arbitrary: x rule: memcpy_longs.induct)
  case (1 m d s n)
  show ?case
  proof (cases "n \<ge> 4")
    case False
    then show ?thesis
      using 1(2) by (subst liballoc_memcpy_def, subst memcpy_longs.simps) (simp add: memcpy_chars_apply)
  next
    case True
    then have n: "unat (n - 4) = unat n - 4" "4 \<le> unat n" by (auto simp: unat_sub word_le_nat_alt)
    have dj: "disj (d + 4) (unat (n - 4)) (s + 4) (unat (n - 4))" using disj_rest [OF 1(2)] n by simp
    have "fst (liballoc_memcpy m d s n) x =
        fst (liballoc_memcpy (store32 m d (load32 m s)) (d + 4) (s + 4) (n - 4)) x"
      using True unfolding liballoc_memcpy_def by (subst memcpy_longs.simps) (simp add: split_def Let_def)
    also have "\<dots> = (if in_rng (d + 4) (unat n - unat (4 :: u32)) x
        then store32 m d (load32 m s) (s + 4 + (x - (d + 4))) else store32 m d (load32 m s) x)"
      using 1(1) [OF True dj] n by simp
    also have "\<dots> = (if in_rng d (unat n) x then m (s + (x - d)) else m x)"
      using n unat_u32_lt [of n] by (intro copy_step [OF 1(2)]) (auto simp: store32_load32)
    finally show ?thesis .
  qed
qed

section \<open>Payloads\<close>

lemma liveD:
  assumes "heap_inv s T F {} W" "live_of s T {} p = Some n"
  shows "p - 32 \<in> T" "unat (p - 32) + 32 + unat n \<le> unat (p - 32) + rsz (tag_at (heap_mem s)) (p - 32)"
    "unat (p - 32) + rsz (tag_at (heap_mem s)) (p - 32) \<le> 4294967296"
    "0 < unat n \<Longrightarrow> unat p = unat (p - 32) + 32"
proof -
  note ok = heap_okD [OF assms(1)]
  have t: "p - 32 \<in> T" "bt_index (tagof s (p - 32)) = - 1" "bt_size (tagof s (p - 32)) = n"
    using assms(2) by (auto simp: live_def split: if_splits)
  show "p - 32 \<in> T" by (fact t)
  show r: "unat (p - 32) + 32 + unat n \<le> unat (p - 32) + rsz (tag_at (heap_mem s)) (p - 32)"
    using ok(6) t by (auto simp: roomy_def)
  show b: "unat (p - 32) + rsz (tag_at (heap_mem s)) (p - 32) \<le> 4294967296" using geomD(5) [OF ok(2) t(1)] .
  show "unat p = unat (p - 32) + 32" if "0 < unat n"
    using unat_u32_add_le [of "p - 32" 32] r b that by simp
qed

lemma in_rng_linear:
  assumes "in_rng a n x" "unat a + n \<le> 4294967296"
  shows "unat a \<le> unat x" "unat x < unat a + n"
proof -
  have "unat x = unat (a + (x - a))" by simp
  also have "\<dots> = unat a + unat (x - a)" using assms by (intro unat_u32_add_le) (simp add: in_rng_def)
  finally show "unat a \<le> unat x" "unat x < unat a + n" using assms(1) by (simp_all add: in_rng_def)
qed

text \<open>No byte of an allocated block belongs to a tag.\<close>

lemma payload_no_tag:
  assumes hi: "heap_inv s T F {} W" and p: "live_of s T {} p = Some n" "in_rng p (unat n) x" and t: "t \<in> T"
  shows "\<not> in_rng t 32 x"
proof
  assume x: "in_rng t 32 x"
  note ok = heap_okD [OF hi]
  note l = liveD [OF hi p(1)]
  have n: "0 < unat n" using p(2) by (simp add: in_rng_def)
  have "unat p \<le> unat x" "unat x < unat p + unat n" using in_rng_linear [OF p(2)] l n by auto
  moreover have "unat t \<le> unat x" "unat x < unat t + 32"
    using in_rng_linear [OF x] geomD(4,5) [OF ok(2) t] by auto
  ultimately show False
    using l(2) l(4) [OF n] geomD(6) [OF ok(2) t l(1)] geomD(4) [OF ok(2) t] by (cases "t = p - 32") auto
qed

text \<open>Two allocated blocks do not overlap.\<close>

lemma payload_disj:
  assumes hi: "heap_inv s T F {} W" and p: "live_of s T {} p = Some n" and q: "live_of s T {} q = Some k"
    and "p \<noteq> q" "n \<noteq> 0" "k \<noteq> 0"
  shows "disj p (unat n) q (unat k)"
proof -
  note ok = heap_okD [OF hi]
  note lp = liveD [OF hi p] and lq = liveD [OF hi q]
  have pos: "0 < unat n" "0 < unat k" using assms(5,6) by (simp_all add: unat_gt_0)
  have ne: "p - 32 \<noteq> q - 32" using assms(4) by simp
  from geomD(6) [OF ok(2) lp(1) lq(1) ne]
  have "unat p + unat n \<le> unat q \<or> unat q + unat k \<le> unat p"
    using lp(2) lq(2) lp(4) [OF pos(1)] lq(4) [OF pos(2)] by auto
  then show ?thesis
    using disj_lin [of p "unat n" q "unat k"] disj_lin [of q "unat k" p "unat n"] disj_sym pos
      lp(2,3) lq(2,3) lp(4) [OF pos(1)] lq(4) [OF pos(2)] by auto
qed

text \<open>A client that writes only into its block changes no tag.\<close>

lemma payload_write:
  assumes hi: "heap_inv s T F {} W" and p: "live_of s T {} p = Some n"
    and m: "\<And>x. \<not> in_rng p (unat n) x \<Longrightarrow> m' x = heap_mem s x"
  shows "\<And>t. t \<in> T \<Longrightarrow> tag_at m' t = tagof s t"
  by (rule tag_at_cong) (use payload_no_tag [OF hi p] m in blast)

section \<open>calloc and realloc\<close>

context page_provider
begin

lemma allocator_okD:
  assumes "allocator_ok s T F" "live_of s T {} p = Some n"
  shows "heap_inv s T F {} (regions (pages s))" "l_initialized s" "invar (pages s)"
  using assms by (auto simp: allocator_ok_def live_def split: if_splits)

lemma write_ok:
  assumes ok: "allocator_ok s T F" and p: "live_of s T {} p = Some n"
    and m: "\<And>x. \<not> in_rng p (unat n) x \<Longrightarrow> f (heap_mem s) x = heap_mem s x"
  shows "allocator_ok (upd_mem f s) T F" "live_of (upd_mem f s) T {} = live_of s T {}"
proof -
  note hi = allocator_okD [OF ok p]
  have t: "tag_at (f (heap_mem s)) t = tagof s t" if "t \<in> T" for t
    by (rule payload_write [OF hi(1) p m that])
  show "allocator_ok (upd_mem f s) T F"
    using heap_ok_cong [OF hi(1), of "tag_at (f (heap_mem s))"] t hi by (simp add: allocator_ok_def)
  show "live_of (upd_mem f s) T {} = live_of s T {}" using t by (intro live_cong) simp
qed

lemma frame:
  assumes "allocator_ok s' T' F'" "tags_only T' (heap_mem s) (heap_mem s')"
    and "live_of s' T' {} p = Some n" "in_rng p (unat n) x"
  shows "heap_mem s' x = heap_mem s x"
  using assms payload_no_tag [OF allocator_okD(1) [OF assms(1,3)] assms(3,4)] by (simp add: tags_only_def)

text \<open>\<open>calloc\<close>: a fresh block of zeros.\<close>

lemma calloc_correct:
  assumes ok: "allocator_ok s T F" and sz: "unat (nobj * sz) + 4160 \<le> 4294967296"
    "good ((unat (nobj * sz) + 4127) div 4096)"
  shows "\<exists>p s'. calloc hk nobj sz s = Some (p, s') \<and> (p \<noteq> 0 \<longrightarrow> (\<exists>T' F'. allocator_ok s' T' F' \<and>
     int_enabled s' \<and> live_of s T {} p = None \<and> live_of s' T' {} = (live_of s T {})(p \<mapsto> nobj * sz) \<and>
     (\<forall>x. in_rng p (unat (nobj * sz)) x \<longrightarrow> heap_mem s' x = 0) \<and>
     (\<forall>q k x. live_of s T {} q = Some k \<longrightarrow> in_rng q (unat k) x \<longrightarrow> heap_mem s' x = heap_mem s x)))"
proof -
  let ?n = "nobj * sz"
  obtain p s1 T' F' where m: "malloc hk ?n s = Some (p, s1)" and a: "allocator_ok s1 T' F'" "int_enabled s1"
    and l: "p \<noteq> 0 \<Longrightarrow> live_of s T {} p = None \<and> live_of s1 T' {} = (live_of s T {})(p \<mapsto> ?n)"
    and tg: "tags_only T' (heap_mem s) (heap_mem s1)"
    using malloc_correct [OF ok sz] by metis
  let ?f = "\<lambda>m. fst (liballoc_memset m p 0 ?n)"
  have c: "calloc hk nobj sz s = Some (p, upd_mem ?f s1)" using m by (simp add: calloc_def)
  have "\<exists>T' F'. allocator_ok (upd_mem ?f s1) T' F' \<and> int_enabled (upd_mem ?f s1) \<and>
     live_of s T {} p = None \<and> live_of (upd_mem ?f s1) T' {} = (live_of s T {})(p \<mapsto> ?n) \<and>
     (\<forall>x. in_rng p (unat ?n) x \<longrightarrow> heap_mem (upd_mem ?f s1) x = 0) \<and>
     (\<forall>q k x. live_of s T {} q = Some k \<longrightarrow> in_rng q (unat k) x \<longrightarrow> heap_mem (upd_mem ?f s1) x = heap_mem s x)"
    if p0: "p \<noteq> 0"
  proof -
    have lp: "live_of s1 T' {} p = Some ?n" using l [OF p0] by simp
    note w = write_ok [OF a(1) lp, of ?f]
    have "heap_mem (upd_mem ?f s1) x = heap_mem s x"
      if q: "live_of s T {} q = Some k" "in_rng q (unat k) x" for q k x
    proof -
      have q1: "live_of s1 T' {} q = Some k" "q \<noteq> p" using l [OF p0] q(1) by auto
      have "\<not> in_rng p (unat ?n) x"
        using disjD [OF payload_disj [OF allocator_okD(1) [OF a(1) lp] q1(1) lp q1(2)] q(2)] q(2)
        by (force simp: in_rng_def)
      then show ?thesis using frame [OF a(1) tg q1(1) q(2)] by (simp add: liballoc_memset_apply)
    qed
    then show ?thesis
      using w a(2) l [OF p0] by (intro exI [of _ T'] exI [of _ F']) (auto simp: liballoc_memset_apply)
  qed
  then show ?thesis using c by blast
qed

lemma frame_before:
  assumes "allocator_ok s T F" "tags_only T (heap_mem s) m'"
    and "live_of s T {} p = Some n" "in_rng p (unat n) x"
  shows "m' x = heap_mem s x"
  using assms payload_no_tag [OF allocator_okD(1) [OF assms(1,3)] assms(3,4)] by (simp add: tags_only_def)

text \<open>\<open>realloc\<close> of an allocated block: a fresh block with the old contents, the old block is free.\<close>

lemma realloc_correct:
  assumes ok: "allocator_ok s T F" and p: "live_of s T {} p = Some k" "p \<noteq> 0"
    and sz: "sz \<noteq> 0" "unat sz + 4160 \<le> 4294967296" "good ((unat sz + 4127) div 4096)"
  shows "\<exists>ptr s3. malloc hk sz (s\<lparr>int_enabled := True\<rparr>) = Some (ptr, s3) \<and> (ptr \<noteq> 0 \<longrightarrow> (\<exists>s' T' F'.
     realloc hk p sz s = Some (ptr, s') \<and> allocator_ok s' T' F' \<and> int_enabled s' \<and>
     live_of s T {} ptr = None \<and> live_of s' T' {} = (live_of s T {})(ptr \<mapsto> sz, p := None) \<and>
     (\<forall>i. unat i < min (unat k) (unat sz) \<longrightarrow> heap_mem s' (ptr + i) = heap_mem s (p + i))))"
proof -
  define s2 where "s2 = s\<lparr>int_enabled := True\<rparr>"
  have s2: "liballoc_unlock (liballoc_lock s) = s2" "heap_mem s2 = heap_mem s"
    by (simp_all add: s2_def liballoc_lock_def liballoc_unlock_def)
  have ok2: "allocator_ok s2 T F" using ok by (simp add: allocator_ok_def s2_def)
  obtain ptr s3 T3 F3 where m: "malloc hk sz s2 = Some (ptr, s3)" and a: "allocator_ok s3 T3 F3"
    and l: "ptr \<noteq> 0 \<Longrightarrow> live_of s T {} ptr = None \<and> live_of s3 T3 {} = (live_of s T {})(ptr \<mapsto> sz)"
    and tg: "tags_only T3 (heap_mem s) (heap_mem s3)"
    using malloc_correct [OF ok2 sz(2,3)] s2(2) by metis
  define r where "r = (if k > sz then sz else k)"
  have r: "unat r = min (unat k) (unat sz)" by (auto simp: r_def word_less_nat_alt)
  let ?f = "\<lambda>m. fst (liballoc_memcpy m ptr p r)"
  have kk: "bt_size (tagof (liballoc_lock s) (p - 32)) = k"
    using p(1) by (auto simp: live_def liballoc_lock_def split: if_splits)
  have re: "realloc hk p sz s = (case free hk p (upd_mem ?f s3) of None \<Rightarrow> None | Some s4 \<Rightarrow> Some (ptr, s4))"
    using sz(1) p(2) m unfolding realloc_def s2(1) Let_def kk r_def
    by (simp split: option.splits)
  have "\<exists>s' T' F'. realloc hk p sz s = Some (ptr, s') \<and> allocator_ok s' T' F' \<and> int_enabled s' \<and>
     live_of s T {} ptr = None \<and> live_of s' T' {} = (live_of s T {})(ptr \<mapsto> sz, p := None) \<and>
     (\<forall>i. unat i < min (unat k) (unat sz) \<longrightarrow> heap_mem s' (ptr + i) = heap_mem s (p + i))"
    if p0: "ptr \<noteq> 0"
  proof -
    have lq: "live_of s3 T3 {} ptr = Some sz" "live_of s3 T3 {} p = Some k" "ptr \<noteq> p"
      using l [OF p0] p(1) by auto
    have dj: "disj ptr (unat r) p (unat r)"
    proof (cases "k = 0")
      case True
      then show ?thesis using r by (simp add: disj_def)
    next
      case False
      then have "disj ptr (unat sz) p (unat k)"
        using payload_disj [OF allocator_okD(1) [OF a lq(1)] lq(1,2,3) sz(1)] by simp
      then show ?thesis using r by (auto simp: disj_def)
    qed
    note cp = liballoc_memcpy_apply [OF dj]
    note w = write_ok [OF a lq(1), of ?f]
    have w: "allocator_ok (upd_mem ?f s3) T3 F3" "live_of (upd_mem ?f s3) T3 {} = live_of s3 T3 {}"
      by (rule w; use r cp in_rng_sub in auto)+
    obtain s' T' F' where f: "free hk p (upd_mem ?f s3) = Some s'" "allocator_ok s' T' F'" "int_enabled s'"
      "live_of s' T' {} = (live_of s3 T3 {})(p := None)" "tags_only T3 (heap_mem (upd_mem ?f s3)) (heap_mem s')"
      using free_correct [OF w(1), of p k] w(2) lq(2) by auto
    have "heap_mem s' (ptr + i) = heap_mem s (p + i)" if i: "unat i < min (unat k) (unat sz)" for i
    proof -
      have "heap_mem s' (ptr + i) = ?f (heap_mem s3) (ptr + i)"
        using frame_before [OF w(1) f(5), of ptr sz "ptr + i"] w(2) lq(1) i by (simp add: in_rng_offset)
      also have "\<dots> = heap_mem s3 (p + i)" using i r cp in_rng_offset by simp
      also have "\<dots> = heap_mem s (p + i)" using frame [OF a tg lq(2), of "p + i"] i by (simp add: in_rng_offset)
      finally show ?thesis .
    qed
    then show ?thesis using re f(1-4) l [OF p0] by (intro exI [of _ s'] exI [of _ T'] exI [of _ F']) simp
  qed
  then show ?thesis using m unfolding s2_def by blast
qed

end

end
