(* ===== verification/Kmem.thy ===== *)
theory Kmem
  imports Liballoc_Client Kheap
begin

text \<open>
  The kernel's allocator interface, \<open>kmalloc\<close> and its relatives at the end of \<^verbatim>\<open>paging.c\<close>, with the hooks that
  connect liballoc to the kernel heap. \<open>kbase\<close> says that the areas the heap works on (its bitmap, the bitmap of the frames, the
  first table) do not overlap, and the lemmas follow their words through the writes of the heap; the invariant proper is in \<open>Kmem_Pages\<close>.
  The blocks of liballoc live in the pages of the heap, the bitmaps and tables elsewhere; so the model
  keeps the two memories apart, and what a hook does to a page it hands out or takes back (mapping it to
  another frame) is not visible in the contents of the blocks.
\<close>

section \<open>The hooks\<close>

definition kernel_liballoc_alloc :: "kernel \<Rightarrow> u32 \<Rightarrow> (u32 \<times> kernel) option" where
  "kernel_liballoc_alloc k n = heap_alloc (n * page_getsize) (kernel_heap k) k"

definition kernel_liballoc_free :: "kernel \<Rightarrow> u32 \<Rightarrow> u32 \<Rightarrow> (int \<times> kernel) option" where
  "kernel_liballoc_free k addr n = do {
     (r, k') \<leftarrow> heap_free addr (n * page_getsize) (kernel_heap k) k;
     Some (if r \<noteq> 0 then 0 else 1, k')
   }"

definition kernel_hooks :: "kernel hooks" where
  "kernel_hooks = \<lparr>liballoc_alloc = kernel_liballoc_alloc, liballoc_free = kernel_liballoc_free\<rparr>"

type_synonym kmem_state = "kernel liballoc"

definition kmalloc :: "u32 \<Rightarrow> kmem_state \<Rightarrow> (u32 \<times> kmem_state) option" where
  "kmalloc sz s =
     (if paging_state (pages s) \<noteq> 0 then malloc kernel_hooks sz s
      else (let (p, k) = ponter_move_int sz 0 1 (pages s) in Some (p, s\<lparr>pages := k\<rparr>)))"

definition krealloc :: "u32 \<Rightarrow> u32 \<Rightarrow> kmem_state \<Rightarrow> (u32 \<times> kmem_state) option" where
  "krealloc addr sz s =
     (if paging_state (pages s) \<noteq> 0 then realloc kernel_hooks addr sz s
      else (let (p, k) = ponter_move_int sz 0 0 (pages s) in Some (p, s\<lparr>pages := k\<rparr>)))"

definition kcalloc :: "u32 \<Rightarrow> u32 \<Rightarrow> kmem_state \<Rightarrow> (u32 \<times> kmem_state) option" where
  "kcalloc sizeold sizenew s =
     (if paging_state (pages s) \<noteq> 0 then calloc kernel_hooks sizeold sizenew s
      else (let (p, k) = ponter_move_int sizenew 0 1 (pages s) in Some (p, s\<lparr>pages := k\<rparr>)))"

definition kfree :: "u32 \<Rightarrow> kmem_state \<Rightarrow> kmem_state option" where
  "kfree addr s = (if paging_state (pages s) \<noteq> 0 then free kernel_hooks addr s else Some s)"

definition bitmap_delete :: "u32 \<Rightarrow> kmem_state \<Rightarrow> (int \<times> kmem_state) option" where
  "bitmap_delete bitmap s = do { s1 \<leftarrow> kfree bitmap s; Some (1, s1) }"

section \<open>The areas of the kernel heap\<close>

abbreviation kstart :: "kernel \<Rightarrow> u32" where "kstart k \<equiv> heap_start (kmem k) (kernel_heap k)"
abbreviation kbitmap :: "kernel \<Rightarrow> u32" where "kbitmap k \<equiv> heap_bitmap (kmem k) (kernel_heap k)"

text \<open>The heap has as many pages as fit between its start and address 0; page \<open>i\<close> lies \<open>i\<close> pages below the start.\<close>

definition kpages :: "kernel \<Rightarrow> nat" where "kpages k = unat (kstart k) div 4096"

definition kpage :: "kernel \<Rightarrow> u32 \<Rightarrow> u32" where "kpage k i = kstart k - ADDR_GET i"

text \<open>
  The frames a search looks at: those up to the directory and its first table, which are in use since the start, one for
  each page of the heap, and one more, which is then free.
\<close>

definition kframes :: "kernel \<Rightarrow> nat" where "kframes k = unat (cr3 k) div 4096 + kpages k + 3"

text \<open>
  The first table of the current directory, which covers the heap, and the areas the page operations write: the entries of the
  heap's bitmap for its pages and one more, the entries of the frame bitmap for the \<open>kframes\<close> frames and that table.
\<close>

definition kpt :: "mem \<Rightarrow> u32 \<Rightarrow> u32" where "kpt m pd = PHY_GET (load32 m pd)"

definition written :: "kernel \<Rightarrow> u32 \<Rightarrow> bool" where
  "written k x \<longleftrightarrow>
     (let m = kmem k
      in in_rng (bitmap_entries m (kbitmap k)) (4 * (kpages k + 1)) x \<or>
         in_rng (bitmap_entries m (frame_bitmap k)) (4 * kframes k) x \<or> in_rng (kpt m (cr3 k)) 4096 x)"

text \<open>The areas that are read and must stay as they are.\<close>

definition kept :: "kernel \<Rightarrow> u32 \<Rightarrow> bool" where
  "kept k x \<longleftrightarrow> in_rng (kernel_heap k) 13 x \<or> in_rng (kbitmap k) 8 x \<or> in_rng (frame_bitmap k) 8 x \<or> in_rng (cr3 k) 4096 x"

definition kbase :: "kernel \<Rightarrow> bool" where
  "kbase k \<longleftrightarrow>
     (let m = kmem k; hb = kbitmap k; fb = frame_bitmap k; st = kstart k
      in kernel_heap k \<noteq> 0 \<and> paging_state k \<noteq> 0 \<and> st AND 0xFFF = 0 \<and> st < 0x400000 \<and>
         bitmap_ok m hb \<and> unat st div 4096 < unat (bitmap_size m hb) \<and> unat (bitmap_size m hb) < 0x100000 \<and>
         bitmap_size m fb \<noteq> - 1 \<and> load32 m (cr3 k) AND 1 = 1 \<and>
         (\<forall>x. kept k x \<longrightarrow> \<not> written k x) \<and>
         disj (bitmap_entries m hb) (4 * (kpages k + 1)) (bitmap_entries m fb) (4 * kframes k) \<and>
         disj (bitmap_entries m hb) (4 * (kpages k + 1)) (kpt m (cr3 k)) 4096 \<and>
         disj (bitmap_entries m fb) (4 * kframes k) (kpt m (cr3 k)) 4096 \<and>
         kframes k \<le> unat (bitmap_size m fb) \<and> kframes k < 0x100000)"

text \<open>The pages handed out: those whose bitmap entry is not 0.\<close>

definition kregions :: "kernel \<Rightarrow> (u32 \<times> nat) set" where
  "kregions k = {(heap_start (kmem k) (kernel_heap k) - ADDR_GET i, 4096) | i.
     unat i < unat (heap_start (kmem k) (kernel_heap k)) div 4096 \<and>
     bitmap_entry (kmem k) (heap_bitmap (kmem k) (kernel_heap k)) i \<noteq> 0}"

section \<open>What the page operations write\<close>

definition page_writes :: "kernel \<Rightarrow> kernel \<Rightarrow> bool" where
  "page_writes k k' \<longleftrightarrow> kernel_heap k' = kernel_heap k \<and> cr3 k' = cr3 k \<and> frame_bitmap k' = frame_bitmap k \<and>
     paging_state k' = paging_state k \<and>
     (\<forall>x. \<not> in_rng (bitmap_entries (kmem k) (frame_bitmap k)) (4 * kframes k) x \<longrightarrow>
        \<not> in_rng (kpt (kmem k) (cr3 k)) 4096 x \<longrightarrow> kmem k' x = kmem k x)"

lemma load32_sub:
  assumes "\<And>x. in_rng a n x \<Longrightarrow> m' x = m x" "unat i + 4 \<le> n" "n \<le> 4294967296"
  shows "load32 m' (a + i) = load32 m (a + i)"
  using assms in_rng_shift [of a i 4 _ n] by (intro load32_cong) auto

lemma kbaseD:
  assumes "kbase k"
  defines "m \<equiv> kmem k" and "h \<equiv> kernel_heap k"
  defines "hb \<equiv> heap_bitmap m h" and "fb \<equiv> frame_bitmap k" and "st \<equiv> heap_start m h"
  shows "h \<noteq> 0" "paging_state k \<noteq> 0" "st AND 0xFFF = 0" "unat st < 0x400000" "bitmap_ok m hb"
    "unat st div 4096 < unat (bitmap_size m hb)" "unat (bitmap_size m hb) < 0x100000"
    "bitmap_size m fb \<noteq> - 1" "load32 m (cr3 k) AND 1 = 1" "\<And>x. kept k x \<Longrightarrow> \<not> written k x"
    "disj (bitmap_entries m hb) (4 * (kpages k + 1)) (bitmap_entries m fb) (4 * kframes k)"
    "disj (bitmap_entries m hb) (4 * (kpages k + 1)) (kpt m (cr3 k)) 4096"
    "disj (bitmap_entries m fb) (4 * kframes k) (kpt m (cr3 k)) 4096"
    "kframes k \<le> unat (bitmap_size m fb)" "kframes k < 0x100000"
  using assms(1) unfolding m_def h_def hb_def fb_def st_def by (auto simp: kbase_def Let_def word_less_nat_alt)

text \<open>A change that spares the kept areas spares every pointer and size of the structures.\<close>

lemma kept_fields:
  assumes same: "kernel_heap k' = kernel_heap k" "cr3 k' = cr3 k" "frame_bitmap k' = frame_bitmap k"
    and mem: "\<And>x. kept k x \<Longrightarrow> kmem k' x = kmem k x"
  shows "heap_start (kmem k') (kernel_heap k') = heap_start (kmem k) (kernel_heap k)"
    "heap_bitmap (kmem k') (kernel_heap k') = heap_bitmap (kmem k) (kernel_heap k)"
    "bitmap_entries (kmem k') (heap_bitmap (kmem k) (kernel_heap k)) = bitmap_entries (kmem k) (heap_bitmap (kmem k) (kernel_heap k))"
    "bitmap_size (kmem k') (heap_bitmap (kmem k) (kernel_heap k)) = bitmap_size (kmem k) (heap_bitmap (kmem k) (kernel_heap k))"
    "bitmap_entries (kmem k') (frame_bitmap k) = bitmap_entries (kmem k) (frame_bitmap k)"
    "bitmap_size (kmem k') (frame_bitmap k) = bitmap_size (kmem k) (frame_bitmap k)"
    "load32 (kmem k') (cr3 k) = load32 (kmem k) (cr3 k)" "kpt (kmem k') (cr3 k) = kpt (kmem k) (cr3 k)"
proof -
  have l: "load32 (kmem k') (a + i) = load32 (kmem k) (a + i)"
    if "\<And>x. in_rng a n x \<Longrightarrow> kept k x" "unat i + 4 \<le> n" "n \<le> 4294967296" for a n i
    using that mem by (intro load32_sub [of a n]) auto
  have h: "in_rng (kernel_heap k) 13 x \<Longrightarrow> kept k x" and b: "in_rng (heap_bitmap (kmem k) (kernel_heap k)) 8 x \<Longrightarrow> kept k x"
    and f: "in_rng (frame_bitmap k) 8 x \<Longrightarrow> kept k x" and c: "in_rng (cr3 k) 4096 x \<Longrightarrow> kept k x" for x
    by (auto simp: kept_def)
  show "heap_start (kmem k') (kernel_heap k') = heap_start (kmem k) (kernel_heap k)"
    "heap_bitmap (kmem k') (kernel_heap k') = heap_bitmap (kmem k) (kernel_heap k)"
    using l [of "kernel_heap k" 13 0] l [of "kernel_heap k" 13 9] h by (simp_all add: heap_start_def heap_bitmap_def same)
  show "bitmap_entries (kmem k') (heap_bitmap (kmem k) (kernel_heap k)) = bitmap_entries (kmem k) (heap_bitmap (kmem k) (kernel_heap k))"
    "bitmap_size (kmem k') (heap_bitmap (kmem k) (kernel_heap k)) = bitmap_size (kmem k) (heap_bitmap (kmem k) (kernel_heap k))"
    "bitmap_entries (kmem k') (frame_bitmap k) = bitmap_entries (kmem k) (frame_bitmap k)"
    "bitmap_size (kmem k') (frame_bitmap k) = bitmap_size (kmem k) (frame_bitmap k)"
    using l [of "heap_bitmap (kmem k) (kernel_heap k)" 8 0] l [of "heap_bitmap (kmem k) (kernel_heap k)" 8 4]
      l [of "frame_bitmap k" 8 0] l [of "frame_bitmap k" 8 4] b f
    by (simp_all add: bitmap_entries_def bitmap_size_def)
  show "load32 (kmem k') (cr3 k) = load32 (kmem k) (cr3 k)" "kpt (kmem k') (cr3 k) = kpt (kmem k) (cr3 k)"
    using l [of "cr3 k" 4096 0] c by (simp_all add: kpt_def)
qed

lemma kbase_keep:
  assumes inv: "kbase k" and same: "kernel_heap k' = kernel_heap k" "cr3 k' = cr3 k"
    "frame_bitmap k' = frame_bitmap k" "paging_state k' = paging_state k"
    and mem: "\<And>x. \<not> written k x \<Longrightarrow> kmem k' x = kmem k x"
  shows "kbase k'"
proof -
  note f = kept_fields [OF same(1-3)]
  have f: "heap_start (kmem k') (kernel_heap k') = heap_start (kmem k) (kernel_heap k)"
    "heap_bitmap (kmem k') (kernel_heap k') = heap_bitmap (kmem k) (kernel_heap k)"
    "bitmap_entries (kmem k') (heap_bitmap (kmem k) (kernel_heap k)) = bitmap_entries (kmem k) (heap_bitmap (kmem k) (kernel_heap k))"
    "bitmap_size (kmem k') (heap_bitmap (kmem k) (kernel_heap k)) = bitmap_size (kmem k) (heap_bitmap (kmem k) (kernel_heap k))"
    "bitmap_entries (kmem k') (frame_bitmap k) = bitmap_entries (kmem k) (frame_bitmap k)"
    "bitmap_size (kmem k') (frame_bitmap k) = bitmap_size (kmem k) (frame_bitmap k)"
    "load32 (kmem k') (cr3 k) = load32 (kmem k) (cr3 k)" "kpt (kmem k') (cr3 k) = kpt (kmem k) (cr3 k)"
    using kbaseD(10) [OF inv] mem by (intro f; blast)+
  have n: "kpages k' = kpages k" "kframes k' = kframes k" using f(1) by (simp_all add: kpages_def kframes_def same)
  have "kept k' = kept k" "written k' = written k"
    by (auto simp: kept_def written_def fun_eq_iff Let_def f(2-6,8) same n f [unfolded same])
  then show ?thesis
    using inv unfolding kbase_def Let_def n f same f [unfolded same] by (simp add: bitmap_ok_def f)
qed

lemma page_writes_refl: "page_writes k k"
  by (simp add: page_writes_def)

lemma page_writes_kept:
  assumes "kbase k" "page_writes k k'" "kept k x"
  shows "kmem k' x = kmem k x"
  using kbaseD(10) [OF assms(1,3)] assms(2) by (auto simp: written_def page_writes_def Let_def)

lemma page_writes_fields:
  assumes "kbase k" "page_writes k k'"
  shows "heap_start (kmem k') (kernel_heap k') = heap_start (kmem k) (kernel_heap k)"
    "heap_bitmap (kmem k') (kernel_heap k') = heap_bitmap (kmem k) (kernel_heap k)"
    "bitmap_entries (kmem k') (frame_bitmap k) = bitmap_entries (kmem k) (frame_bitmap k)"
    "kpt (kmem k') (cr3 k) = kpt (kmem k) (cr3 k)"
    "bitmap_entries (kmem k') (heap_bitmap (kmem k) (kernel_heap k)) = bitmap_entries (kmem k) (heap_bitmap (kmem k) (kernel_heap k))"
    "bitmap_size (kmem k') (heap_bitmap (kmem k) (kernel_heap k)) = bitmap_size (kmem k) (heap_bitmap (kmem k) (kernel_heap k))"
    "kpages k' = kpages k" "kframes k' = kframes k"
proof -
  have same: "kernel_heap k' = kernel_heap k" "cr3 k' = cr3 k" "frame_bitmap k' = frame_bitmap k"
    using assms(2) by (simp_all add: page_writes_def)
  note f = kept_fields [OF same page_writes_kept [OF assms]]
  show "kpages k' = kpages k" "kframes k' = kframes k" using f(1) by (simp_all add: kpages_def kframes_def same)
  show "heap_start (kmem k') (kernel_heap k') = heap_start (kmem k) (kernel_heap k)"
    "heap_bitmap (kmem k') (kernel_heap k') = heap_bitmap (kmem k) (kernel_heap k)"
    "bitmap_entries (kmem k') (frame_bitmap k) = bitmap_entries (kmem k) (frame_bitmap k)"
    "kpt (kmem k') (cr3 k) = kpt (kmem k) (cr3 k)"
    "bitmap_entries (kmem k') (heap_bitmap (kmem k) (kernel_heap k)) = bitmap_entries (kmem k) (heap_bitmap (kmem k) (kernel_heap k))"
    "bitmap_size (kmem k') (heap_bitmap (kmem k) (kernel_heap k)) = bitmap_size (kmem k) (heap_bitmap (kmem k) (kernel_heap k))"
    by (rule f; assumption)+
qed

lemma page_writes_inv:
  assumes "kbase k" "page_writes k k'"
  shows "kbase k'"
  by (rule kbase_keep [OF assms(1)]) (use assms(2) in \<open>auto simp: page_writes_def written_def Let_def\<close>)

lemma page_writes_trans:
  assumes "kbase k" "page_writes k k1" "page_writes k1 k2"
  shows "page_writes k k2"
  using assms(2,3) page_writes_fields(3,4,8) [OF assms(1,2)] by (auto simp: page_writes_def)

lemma kregions_cong:
  assumes "kstart k' = kstart k" "kbitmap k' = kbitmap k"
    and e: "\<And>i. unat i < kpages k \<Longrightarrow> bitmap_entry (kmem k') (kbitmap k) i = bitmap_entry (kmem k) (kbitmap k) i"
  shows "kregions k' = kregions k"
  unfolding kregions_def assms(1,2) using e by (auto simp: kpages_def; metis)

lemma page_writes_entries:
  assumes inv: "kbase k" and w: "page_writes k k'" and i: "unat i \<le> kpages k"
  shows "bitmap_entry (kmem k') (kbitmap k) i = bitmap_entry (kmem k) (kbitmap k) i"
proof -
  let ?e = "bitmap_entries (kmem k) (kbitmap k)"
  note kd = kbaseD [OF inv]
  have "kmem k' x = kmem k x" if "in_rng ?e (4 * (kpages k + 1)) x" for x
    using w disjD [OF kd(11) that] disjD [OF kd(12) that] by (simp add: page_writes_def)
  moreover have "in_rng ?e (4 * (kpages k + 1)) x" if "in_rng (?e + 4 * i) 4 x" for x
    using entry_rng [OF _ _ that, of "kpages k + 1"] i kd(6,7) by (simp add: kpages_def)
  ultimately have "load32 (kmem k') (?e + 4 * i) = load32 (kmem k) (?e + 4 * i)" by (intro load32_cong) blast
  then show ?thesis by (simp add: bitmap_entry_def page_writes_fields(5) [OF inv w])
qed

lemma page_writes_regions:
  assumes inv: "kbase k" and w: "page_writes k k'"
  shows "kregions k' = kregions k"
  by (rule kregions_cong [OF page_writes_fields(1,2) [OF inv w]]) (simp add: page_writes_entries [OF inv w])

subsection \<open>The single operations\<close>

lemma index_small: "unat (INDEX_GET a) < 0x100000"
  using unat_u32_lt [of a] by (simp add: INDEX_GET_def PAGE_SIZE_HEX_def unat_div)

lemma frame_entry_writes:
  assumes "kbase k" "unat (INDEX_GET a) < kframes k"
  shows "page_writes k (upd_kmem (\<lambda>m. snd (bitmap_entrie_set (INDEX_GET a) v (frame_bitmap k) m)) k)"
proof -
  let ?e = "bitmap_entries (kmem k) (frame_bitmap k)"
  have "in_rng ?e (4 * kframes k) x" if "in_rng (?e + 4 * INDEX_GET a) 4 x" for x
    using entry_rng [OF assms(2) _ that] kbaseD(15) [OF assms(1)] by simp
  then show ?thesis
    by (auto simp: page_writes_def bitmap_entrie_set_def intro!: store32_outside)
qed

lemma frame_set_writes: "kbase k \<Longrightarrow> unat (INDEX_GET a) < kframes k \<Longrightarrow> page_writes k (frame_set a k)"
  unfolding frame_set_def by (rule frame_entry_writes)

lemma frame_free_writes: "kbase k \<Longrightarrow> unat (INDEX_GET a) < kframes k \<Longrightarrow> page_writes k (frame_free a k)"
  unfolding frame_free_def by (rule frame_entry_writes)

lemma DIR_low:
  assumes "unat v < 0x400000"
  shows "DIR_GET v = 0"
proof -
  have "v div 0x400000 = 0" using assms by (simp add: word_unat_eq_iff unat_div)
  then show ?thesis by (simp add: DIR_GET_def drop_bit_eq_div)
qed

lemma table_write:
  "page_writes k (upd_kmem (\<lambda>m. store32 m (kpt (kmem k) (cr3 k) + 4 * TLB_GET v) (f m)) k)"
proof -
  have "in_rng (kpt (kmem k) (cr3 k)) 4096 x" if "in_rng (kpt (kmem k) (cr3 k) + 4 * TLB_GET v) 4 x" for x
    using in_rng_shift [OF that, of 4096] index_bound(2) [of v] by (simp add: unat_word_ariths)
  then show ?thesis by (auto simp: page_writes_def intro!: store32_outside)
qed

lemma page_map_low:
  assumes "kbase k" "v AND 0xFFF = 0" "p AND 0xFFF = 0" "unat v < 0x400000"
  shows "\<exists>k'. page_map p v flags 0 k = Some (v, k') \<and> page_writes k k'"
  using assms kbaseD(9) [OF assms(1)] DIR_low [OF assms(4)] table_write [of k v "\<lambda>_. p OR flags OR USED"]
  by (simp add: page_map_def page_dir_of_def directory_get_def USED_def kpt_def)

lemma page_unmap_low:
  assumes "kbase k" "unat v < 0x400000"
  shows "page_writes k (snd (page_unmap v 0 k))"
  using kbaseD(9) [OF assms(1)] DIR_low [OF assms(2)] table_write [of k v] page_writes_refl [of k]
  by (auto simp: page_unmap_def page_dir_of_def directory_get_def USED_def kpt_def Let_def)

section \<open>Pages of the heap\<close>

lemma aligned_iff: "(x :: u32) AND 0xFFF = 0 \<longleftrightarrow> unat x mod 4096 = 0"
proof -
  have "unat (x AND 0xFFF) = unat x mod 4096"
    by (simp add: mask_numerals take_bit_eq_mask [symmetric] unsigned_take_bit_eq)
      (simp add: take_bit_eq_mod unat_mod)
  then show ?thesis by (metis unat_eq_0)
qed

lemma kstart_eq: "kbase k \<Longrightarrow> unat (kstart k) = kpages k * 4096 \<and> kpages k < 1024"
  using kbaseD(3,4) [of k] by (auto simp: aligned_iff kpages_def)

lemma unat_ADDR: "unat i < 0x100000 \<Longrightarrow> unat (ADDR_GET i) = unat i * 4096"
  by (simp add: ADDR_GET_def PAGE_SIZE_HEX_def unat_word_ariths)

lemma kpage_addr:
  assumes "kbase k" "unat i < kpages k"
  shows "unat (kpage k i) = (kpages k - unat i) * 4096" "kpage k i AND 0xFFF = 0"
    "unat (kpage k i) + 4096 \<le> 0x400000" "kpage k i \<noteq> 0" "kpage k i \<le> kstart k"
proof -
  note s = kstart_eq [OF assms(1)]
  have a: "unat (ADDR_GET i) = unat i * 4096" using unat_ADDR assms(2) s by simp
  then have "ADDR_GET i \<le> kstart k" using s assms(2) by (simp add: word_le_nat_alt)
  then show u: "unat (kpage k i) = (kpages k - unat i) * 4096"
    using a s by (simp add: kpage_def unat_sub diff_mult_distrib)
  show "kpage k i AND 0xFFF = 0" unfolding aligned_iff u by simp
  show "unat (kpage k i) + 4096 \<le> 0x400000" using u s by simp linarith
  show "kpage k i \<noteq> 0" using u assms(2) by auto
  show "kpage k i \<le> kstart k" using u s by (simp add: word_le_nat_alt)
qed

lemma kpage_inj:
  assumes "kbase k" "unat i < kpages k" "unat j < kpages k" "kpage k i = kpage k j"
  shows "i = j"
proof -
  have "(kpages k - unat i) * 4096 = (kpages k - unat j) * 4096" using kpage_addr(1) assms by metis
  then show ?thesis using assms(2,3) by (simp add: word_unat_eq_iff)
qed

lemma kpage_disj:
  assumes "kbase k" "unat i < kpages k" "unat j < kpages k" "i \<noteq> j"
  shows "unat (kpage k i) + 4096 \<le> unat (kpage k j) \<or> unat (kpage k j) + 4096 \<le> unat (kpage k i)"
proof -
  have "unat i \<noteq> unat j" using assms(4) by (simp add: word_unat_eq_iff)
  then have "kpages k - unat i + 1 \<le> kpages k - unat j \<or> kpages k - unat j + 1 \<le> kpages k - unat i"
    using assms(2,3) by linarith
  then show ?thesis unfolding kpage_addr(1) [OF assms(1,2)] kpage_addr(1) [OF assms(1,3)] by linarith
qed

lemma kregions_eq:
  "kregions k = {(kpage k i, 4096) | i. unat i < kpages k \<and> bitmap_entry (kmem k) (kbitmap k) i \<noteq> 0}"
  by (simp add: kregions_def kpage_def kpages_def)

lemma kpage_size:
  assumes "kbase k" "unat i < kpages k"
  shows "i < bitmap_size (kmem k) (kbitmap k)" "i + 1 \<le> bitmap_size (kmem k) (kbitmap k)" "i < i + 1"
proof -
  show l: "i < bitmap_size (kmem k) (kbitmap k)"
    using assms kbaseD(6) [OF assms(1)] by (simp add: kpages_def word_less_nat_alt)
  show "i + 1 \<le> bitmap_size (kmem k) (kbitmap k)" "i < i + 1"
    using unat_Suc_u32 [OF l] l by (simp_all add: word_le_nat_alt word_less_nat_alt)
qed

text \<open>Marking one page in the bitmap.\<close>

lemma mark_page:
  assumes inv: "kbase k" and i: "unat i < kpages k"
    and k1: "k1 = upd_kmem (bitmap_map i (i + 1) v (kbitmap k)) k"
  shows "kbase k1" "kstart k1 = kstart k" "kbitmap k1 = kbitmap k" "kernel_heap k1 = kernel_heap k"
    "kregions k1 = (if v = 0 then kregions k - {(kpage k i, 4096)} else insert (kpage k i, 4096) (kregions k))"
    "kpages k1 = kpages k" "kframes k1 = kframes k" "kpage k1 = kpage k" "cr3 k1 = cr3 k" "frame_bitmap k1 = frame_bitmap k"
    "unat j < kpages k \<Longrightarrow> bitmap_entry (kmem k1) (kbitmap k) j = (if j = i then v else bitmap_entry (kmem k) (kbitmap k) j)"
    "\<not> in_rng (bitmap_entries (kmem k) (kbitmap k)) (4 * (kpages k + 1)) x \<Longrightarrow> kmem k1 x = kmem k x"
proof -
  note kd = kbaseD [OF inv] and sz = kpage_size [OF inv i]
  have map: "(\<forall>j < bitmap_size (kmem k) (kbitmap k). bitmap_entry (kmem k1) (kbitmap k) j =
       (if j = i then v else bitmap_entry (kmem k) (kbitmap k) j))"
    "\<And>x. \<not> in_rng (bitmap_entries (kmem k) (kbitmap k)) (4 * (kpages k + 1)) x \<Longrightarrow> kmem k1 x = kmem k x"
  proof -
    have m: "kmem k1 = bitmap_map_loop (kmem k) (kbitmap k) v i (i + 1)" using leD [OF sz(2)] by (simp add: k1 bitmap_map_def)
    have l: "unat (i + 1) \<le> unat (bitmap_size (kmem k) (kbitmap k))" using sz(2) by (simp add: word_le_nat_alt)
    have "i \<le> j \<and> j < i + 1 \<longleftrightarrow> j = i" for j
      using unat_Suc_u32 [OF sz(3)] unat_Suc_u32 [OF sz(1)] by (auto simp: word_le_nat_alt word_less_nat_alt word_unat_eq_iff)
    then show "\<forall>j < bitmap_size (kmem k) (kbitmap k). bitmap_entry (kmem k1) (kbitmap k) j =
       (if j = i then v else bitmap_entry (kmem k) (kbitmap k) j)"
      using bitmap_map_loop_correct [OF kd(5) l, of v i] unfolding m by auto
    fix x assume "\<not> in_rng (bitmap_entries (kmem k) (kbitmap k)) (4 * (kpages k + 1)) x"
    then have "\<not> in_rng (bitmap_entries (kmem k) (kbitmap k)) (4 * unat (i + 1)) x"
      using in_rng_sub [of _ "4 * unat (i + 1)" x "4 * (kpages k + 1)"] i unat_Suc_u32 [OF sz(1)] by auto
    then show "kmem k1 x = kmem k x" unfolding m by (rule bitmap_map_loop_below [OF kd(5) l])
  qed
  have same: "kernel_heap k1 = kernel_heap k" "cr3 k1 = cr3 k" "frame_bitmap k1 = frame_bitmap k"
    "paging_state k1 = paging_state k" by (simp_all add: k1)
  show "kbase k1" by (rule kbase_keep [OF inv same]) (use map(2) in \<open>auto simp: written_def Let_def\<close>)
  have kept: "kmem k1 x = kmem k x" if "kept k x" for x
    using kd(10) [OF that] map(2) by (auto simp: written_def Let_def)
  note f = kept_fields [OF same(1-3) kept]
  show st: "kstart k1 = kstart k" "kbitmap k1 = kbitmap k" "kernel_heap k1 = kernel_heap k"
    using f(1,2) same(1) by auto
  have e: "bitmap_entry (kmem k1) (kbitmap k) j = (if j = i then v else bitmap_entry (kmem k) (kbitmap k) j)"
    if "unat j < kpages k" for j using map(1) kpage_size(1) [OF inv that] by blast
  show "cr3 k1 = cr3 k" "frame_bitmap k1 = frame_bitmap k" by (fact same)+
  show "unat j < kpages k \<Longrightarrow> bitmap_entry (kmem k1) (kbitmap k) j = (if j = i then v else bitmap_entry (kmem k) (kbitmap k) j)" by (rule e)
  show "\<not> in_rng (bitmap_entries (kmem k) (kbitmap k)) (4 * (kpages k + 1)) x \<Longrightarrow> kmem k1 x = kmem k x" by (rule map(2))
  show kk: "kpages k1 = kpages k" "kpage k1 = kpage k" using st by (auto simp: kpages_def kpage_def fun_eq_iff)
  then show "kframes k1 = kframes k" by (simp add: kframes_def same)
  show "kregions k1 = (if v = 0 then kregions k - {(kpage k i, 4096)} else insert (kpage k i, 4096) (kregions k))"
  proof -
    have r1: "kregions k1 = {(kpage k j, 4096) | j. unat j < kpages k \<and>
        (if j = i then v else bitmap_entry (kmem k) (kbitmap k) j) \<noteq> 0}"
      unfolding kregions_eq kk st(2) using e by (intro Collect_cong) (metis (no_types, lifting))
    show ?thesis
      unfolding r1 unfolding kregions_eq [of k]
      using i kpage_inj [OF inv _ i] by (auto split: if_splits; metis)
  qed
qed

end
