(* ===== verification/Kmem_Pages.thy ===== *)
theory Kmem_Pages
  imports Kmem
begin

text \<open>
  The frames behind the pages of the kernel heap.  \<open>kinv\<close> adds to the separation of the areas that every frame in use was
  reserved at the start or is the target of a page handed out; so a search for a frame always ends among the first
  \<open>kframes\<close> entries.  \<open>heap_alloc\<close> and \<open>heap_free\<close> of one page keep it, and the kernel's hooks keep the promises of \<open>page_provider\<close>.
\<close>

section \<open>The entries of the first table\<close>

abbreviation kpte :: "kernel \<Rightarrow> u32 \<Rightarrow> u32" where
  "kpte k v \<equiv> load32 (kmem k) (kpt (kmem k) (cr3 k) + 4 * TLB_GET v)"

lemma kpte_walk:
  assumes "kbase k" "unat v < 0x400000"
  shows "walk (kmem k) (cr3 k) v =
    (if kpte k v AND 1 = 0 then None else Some ((kpte k v AND NOT 0xFFF) + (v AND 0xFFF)))"
  using kbaseD(9) [OF assms(1)] DIR_low [OF assms(2)]
  by (simp add: walk_def pde_def pte_def kpt_def PHY_GET_def Let_def)

lemma page_writes_kpt:
  assumes "kbase k" "page_writes k k'"
  shows "kpt (kmem k') (cr3 k') = kpt (kmem k) (cr3 k)" "cr3 k' = cr3 k"
  using page_writes_fields(4) [OF assms] assms(2) by (auto simp: page_writes_def)

lemma TLB_eq_iff:
  assumes "unat v < 0x400000" "unat w < 0x400000"
  shows "TLB_GET v = TLB_GET w \<longleftrightarrow> drop_bit 12 v = drop_bit 12 w"
  using page_eq_iff [of v w] DIR_low assms by auto

lemma same_page_iff:
  fixes i v :: u32
  assumes "unat i = n * 4096"
  shows "drop_bit 12 v = drop_bit 12 i \<longleftrightarrow> unat i \<le> unat v \<and> unat v < unat i + 4096"
proof -
  have "drop_bit 12 v = drop_bit 12 i \<longleftrightarrow> unat v div 4096 = n"
    using assms by (simp add: drop_bit_eq_div word_unat_eq_iff unat_div)
  also have "\<dots> \<longleftrightarrow> unat i \<le> unat v \<and> unat v < unat i + 4096"
    unfolding assms by (auto intro: div_nat_eqI)
  finally show ?thesis .
qed

text \<open>Writes to the frame bitmap leave the table alone, mapping or unmapping a page changes its entry only.\<close>

lemma frame_entry_kpte:
  assumes inv: "kbase k" and f: "unat (INDEX_GET a) < kframes k"
    and k': "k' = upd_kmem (\<lambda>m. snd (bitmap_entrie_set (INDEX_GET a) b (frame_bitmap k) m)) k"
  shows "kpte k' v = kpte k v"
proof -
  let ?e = "bitmap_entries (kmem k) (frame_bitmap k)" and ?pt = "kpt (kmem k) (cr3 k)"
  have pt: "kpt (kmem k') (cr3 k') = ?pt" unfolding k' by (rule page_writes_kpt(1) [OF inv frame_entry_writes [OF inv f]])
  have "unat (4 * INDEX_GET a) + 4 \<le> 4 * kframes k" "unat (4 * TLB_GET v) + 4 \<le> 4096" "4 * kframes k \<le> 2 ^ 32"
    using f kbaseD(15) [OF inv] index_small [of a] index_bound(2) [of v] by (simp_all add: unat_word_ariths)
  then have "disj (?e + 4 * INDEX_GET a) 4 (?pt + 4 * TLB_GET v) 4"
    by (intro disj_sub [OF kbaseD(13) [OF inv]]) simp_all
  then show ?thesis unfolding pt unfolding k' by (simp add: bitmap_entrie_set_def load32_store32_disj)
qed

lemma table_write_kpte:
  assumes inv: "kbase k" and i: "unat i < 0x400000" and v: "unat v < 0x400000"
    and k': "k' = upd_kmem (\<lambda>m. store32 m (kpt (kmem k) (cr3 k) + 4 * TLB_GET i) (e m)) k"
  shows "kpte k' v = (if drop_bit 12 v = drop_bit 12 i then e (kmem k) else kpte k v)"
proof -
  let ?pt = "kpt (kmem k) (cr3 k)"
  have pt: "kpt (kmem k') (cr3 k') = ?pt" unfolding k' by (rule page_writes_kpt(1) [OF inv table_write])
  show ?thesis
    unfolding pt unfolding k' using TLB_eq_iff [OF v i] entry_disj [OF index_bound(2) index_bound(2), of i v ?pt]
    by (auto simp: load32_store32_disj)
qed

lemma page_unmap_eq:
  assumes "kbase k" "unat i < 0x400000" "i AND 0xFFF = 0"
  shows "snd (page_unmap i 0 k) = upd_kmem (\<lambda>m. store32 m (kpt (kmem k) (cr3 k) + 4 * TLB_GET i) 0) k"
  using kbaseD(9) [OF assms(1)] DIR_low [OF assms(2)] assms(3)
  by (simp add: page_unmap_def page_dir_of_def directory_get_def USED_def kpt_def Let_def upd_kmem_def)

lemma page_map_eq:
  assumes "kbase k" "v AND 0xFFF = 0" "unat v < 0x400000" "p AND 0xFFF = 0"
  shows "page_map p v 3 0 k = Some (v, upd_kmem (\<lambda>m. store32 m (kpt (kmem k) (cr3 k) + 4 * TLB_GET v) (p OR 3 OR 1)) k)"
  using kbaseD(9) [OF assms(1)] DIR_low [OF assms(3)] assms(2,4)
  by (simp add: page_map_def page_dir_of_def directory_get_def USED_def kpt_def Let_def upd_kmem_def)

section \<open>The invariant\<close>

definition frame_used :: "kernel \<Rightarrow> nat \<Rightarrow> bool" where
  "frame_used k f \<longleftrightarrow> bitmap_entry (kmem k) (frame_bitmap k) (of_nat f) \<noteq> 0"

text \<open>The page at \<open>v\<close> is present; the number of the frame it is mapped to.\<close>

definition present :: "kernel \<Rightarrow> u32 \<Rightarrow> bool" where "present k v \<longleftrightarrow> kpte k v AND 1 \<noteq> 0"
definition pframe :: "kernel \<Rightarrow> u32 \<Rightarrow> nat" where "pframe k v = unat (kpte k v) div 4096"

definition in_use :: "kernel \<Rightarrow> u32 set" where
  "in_use k = {i. bitmap_entry (kmem k) (kbitmap k) i \<noteq> 0}"

text \<open>The frames in use are those of the start or belong to the pages in \<open>A\<close>; no page of the heap is mapped to a frame beyond.\<close>

definition held :: "kernel \<Rightarrow> u32 set \<Rightarrow> bool" where
  "held k A \<longleftrightarrow> (\<forall>f < kframes k. frame_used k f \<longrightarrow> f < unat (cr3 k) div 4096 + 2 \<or>
     (\<exists>i \<in> A. unat i < kpages k \<and> present k (kpage k i) \<and> pframe k (kpage k i) = f))"

definition targets_ok :: "kernel \<Rightarrow> bool" where
  "targets_ok k \<longleftrightarrow> (\<forall>v. v AND 0xFFF = 0 \<longrightarrow> v \<le> kstart k \<longrightarrow> present k v \<longrightarrow> pframe k v < kframes k)"

definition kinv :: "kernel \<Rightarrow> bool" where
  "kinv k \<longleftrightarrow> kbase k \<and> held k (in_use k) \<and> targets_ok k"

lemma held_mono: "held k A \<Longrightarrow> (\<And>i. i \<in> A \<Longrightarrow> unat i < kpages k \<Longrightarrow> i \<in> B) \<Longrightarrow> held k B"
  unfolding held_def by blast

text \<open>There are more frames than those of the start and those of pages, so one is free.\<close>

lemma held_free_frame:
  assumes "held k A"
  shows "\<exists>f < kframes k. \<not> frame_used k f"
proof (rule ccontr)
  let ?n = "unat (cr3 k) div 4096 + 2"
  let ?P = "(\<lambda>i. pframe k (kpage k (of_nat i))) ` {..<kpages k}"
  assume "\<not> ?thesis"
  then have u: "frame_used k f" if "f < kframes k" for f using that by blast
  have "f < ?n \<or> f \<in> ?P" if "f < kframes k" for f
  proof -
    have "f < ?n \<or> (\<exists>i \<in> A. unat i < kpages k \<and> present k (kpage k i) \<and> pframe k (kpage k i) = f)"
      using assms u [OF that] that unfolding held_def by blast
    moreover have "pframe k (kpage k i) \<in> ?P" if "unat i < kpages k" for i
      using that by (intro image_eqI [of _ _ "unat i"]) simp_all
    ultimately show ?thesis by blast
  qed
  then have "{..<kframes k} \<subseteq> {..<?n} \<union> ?P" by auto
  then have "kframes k \<le> card ({..<?n} \<union> ?P)" using card_mono [of "{..<?n} \<union> ?P" "{..<kframes k}"] by simp
  also have "\<dots> \<le> ?n + kpages k"
    using card_Un_le [of "{..<?n}" ?P] card_image_le [of "{..<kpages k}" "\<lambda>i. pframe k (kpage k (of_nat i))"] by simp
  finally show False by (simp add: kframes_def)
qed

lemma frame_alloc_low:
  assumes inv: "kbase k" and h: "held k A"
  shows "\<exists>r. unat r < kframes k \<and> INDEX_GET (ADDR_GET r) = r \<and> frame_alloc k = Some (ADDR_GET r, frame_set (ADDR_GET r) k)"
proof -
  note kd = kbaseD [OF inv]
  obtain f where f: "f < kframes k" "bitmap_entry (kmem k) (frame_bitmap k) (of_nat f) = 0"
    using held_free_frame [OF h] by (auto simp: frame_used_def)
  have u: "unat (of_nat f :: u32) = f" using f(1) kd(15) by (intro unat_of_nat_u32) simp
  then have le: "of_nat f \<le> bitmap_size (kmem k) (frame_bitmap k)" using f(1) kd(14) by (simp add: word_le_nat_alt)
  obtain r where r: "frame_find k = Some (ADDR_GET r)"
    "r = - 1 \<Longrightarrow> \<forall>j \<le> bitmap_size (kmem k) (frame_bitmap k). bitmap_entry (kmem k) (frame_bitmap k) j \<noteq> 0"
    "r \<noteq> - 1 \<Longrightarrow> \<forall>j < r. bitmap_entry (kmem k) (frame_bitmap k) j \<noteq> 0"
    using frame_find_correct [OF kd(8)] by metis
  have "r \<noteq> - 1" using r(2) f(2) le by blast
  then have "\<not> of_nat f < r" using r(3) f(2) by blast
  then have ur: "unat r < kframes k" using f(1) u by (simp add: word_less_nat_alt)
  then have "INDEX_GET (ADDR_GET r) = r" using kd(15) by (intro INDEX_ADDR) (simp add: word_less_nat_alt)
  then show ?thesis using r(1) ur ADDR_not_max by (auto simp: frame_alloc_def)
qed

section \<open>What the operations do to it\<close>

lemma frame_used_cong:
  assumes inv: "kbase k" and f: "f < kframes k" and same: "frame_bitmap k' = frame_bitmap k"
    "bitmap_entries (kmem k') (frame_bitmap k) = bitmap_entries (kmem k) (frame_bitmap k)"
    and mem: "\<And>x. in_rng (bitmap_entries (kmem k) (frame_bitmap k)) (4 * kframes k) x \<Longrightarrow> kmem k' x = kmem k x"
  shows "frame_used k' f = frame_used k f"
proof -
  have u: "unat (of_nat f :: u32) = f" using f kbaseD(15) [OF inv] by (intro unat_of_nat_u32) simp
  have "load32 (kmem k') (bitmap_entries (kmem k) (frame_bitmap k) + 4 * of_nat f) = load32 (kmem k) (bitmap_entries (kmem k) (frame_bitmap k) + 4 * of_nat f)"
    using f u kbaseD(15) [OF inv] by (intro load32_cong mem entry_rng [of "of_nat f" "kframes k"]) auto
  then show ?thesis by (simp add: frame_used_def bitmap_entry_def same)
qed

lemma frame_entry_used:
  assumes inv: "kbase k" and a: "unat (INDEX_GET a) < kframes k" and f: "f < kframes k"
    and k': "k' = upd_kmem (\<lambda>m. snd (bitmap_entrie_set (INDEX_GET a) b (frame_bitmap k) m)) k"
  shows "frame_used k' f = (if f = unat (INDEX_GET a) then b \<noteq> 0 else frame_used k f)"
proof -
  let ?e = "bitmap_entries (kmem k) (frame_bitmap k)" and ?i = "INDEX_GET a" and ?f = "of_nat f :: u32"
  have e: "bitmap_entries (kmem k') (frame_bitmap k') = ?e" unfolding k'
    using page_writes_fields(3) [OF inv frame_entry_writes [OF inv a]] by simp
  have u: "unat ?f = f" using f kbaseD(15) [OF inv] by (intro unat_of_nat_u32) simp
  have eq: "?f = ?i \<longleftrightarrow> f = unat ?i" using u by (auto simp: word_unat_eq_iff)
  have "disj (?e + 4 * ?i) 4 (?e + 4 * ?f) 4" if "f \<noteq> unat ?i"
  proof -
    have u4: "unat (4 * ?i) = 4 * unat ?i" "unat (4 * ?f) = 4 * f"
      using a f u kbaseD(15) [OF inv] by (simp_all add: unat_word_ariths)
    have "4 \<le> unat (4 * ?f - 4 * ?i)" "4 \<le> unat (4 * ?i - 4 * ?f)"
      using that a f kbaseD(15) [OF inv] by (auto simp: unat_sub_if' u4)
    then show ?thesis by (simp add: disj_def)
  qed
  then show ?thesis using eq
    by (auto simp: frame_used_def bitmap_entry_def e) (simp_all add: k' bitmap_entrie_set_def load32_store32_disj)
qed

lemma table_write_used:
  assumes inv: "kbase k" and f: "f < kframes k"
    and k': "k' = upd_kmem (\<lambda>m. store32 m (kpt (kmem k) (cr3 k) + 4 * TLB_GET i) (e m)) k"
  shows "frame_used k' f = frame_used k f"
proof (rule frame_used_cong [OF inv f])
  show "frame_bitmap k' = frame_bitmap k" by (simp add: k')
  show "bitmap_entries (kmem k') (frame_bitmap k) = bitmap_entries (kmem k) (frame_bitmap k)"
    unfolding k' by (rule page_writes_fields(3) [OF inv table_write])
  fix x assume "in_rng (bitmap_entries (kmem k) (frame_bitmap k)) (4 * kframes k) x"
  then have "\<not> in_rng (kpt (kmem k) (cr3 k)) 4096 x" by (rule disjD [OF kbaseD(13) [OF inv]])
  then have "\<not> in_rng (kpt (kmem k) (cr3 k) + 4 * TLB_GET i) 4 x"
    using in_rng_shift [of "kpt (kmem k) (cr3 k)" "4 * TLB_GET i" 4 x 4096] index_bound(2) [of i] by (auto simp: unat_word_ariths)
  then show "kmem k' x = kmem k x" by (simp add: k' store32_outside)
qed

lemma page_writes_kpage:
  assumes "kbase k" "page_writes k k'"
  shows "kpage k' = kpage k" "kpages k' = kpages k" "kframes k' = kframes k" "kstart k' = kstart k" "cr3 k' = cr3 k"
  using page_writes_fields [OF assms] assms(2) by (auto simp: kpage_def fun_eq_iff page_writes_def)

text \<open>Unmapping a page after releasing its frame: what the page held is held no more.\<close>

lemma mask_push: "w AND NOT 0xFFF = push_bit 12 (drop_bit 12 (w :: u32))"
  by (rule bit_word_eqI) (auto simp: mask_numerals bit_simps)

lemma aligned_page_eq:
  fixes v w :: u32
  assumes "v AND 0xFFF = 0" "w AND 0xFFF = 0"
  shows "drop_bit 12 v = drop_bit 12 w \<longleftrightarrow> v = w"
proof -
  have "u = push_bit 12 (drop_bit 12 u)" if "u AND 0xFFF = 0" for u :: u32
  proof -
    have "u = (u AND 0xFFF) OR (u AND NOT 0xFFF)" by (simp add: bit.conj_disj_distrib [symmetric])
    then show ?thesis using that mask_push [of u] by simp
  qed
  then show ?thesis using assms by metis
qed

lemma masked_index: "unat (INDEX_GET (w AND NOT 0xFFF)) = unat w div 4096"
proof -
  have "unat w div 4096 * 4096 < 4294967296"
    by (rule le_less_trans [OF div_times_less_eq_dividend unat_u32_lt])
  then show ?thesis unfolding mask_push
    by (simp add: INDEX_GET_def PAGE_SIZE_HEX_def unat_div push_bit_eq_mult drop_bit_eq_div unat_word_ariths)
qed

lemma pframe_index:
  assumes "present k v" "v AND 0xFFF = 0" "kbase k" "unat v < 0x400000"
  shows "unat (INDEX_GET (page_physaddr v 0 k)) = pframe k v"
proof -
  have "page_physaddr v 0 k = kpte k v AND NOT 0xFFF"
    using assms kbaseD(9) [OF assms(3)] DIR_low [OF assms(4)] and_one_eq [of "kpte k v"]
    by (auto simp: page_physaddr_def page_dir_of_def directory_get_def USED_def kpt_def Let_def present_def)
  then show ?thesis by (simp only: pframe_def masked_index)
qed

lemma physaddr_low:
  assumes inv: "kbase k" and t: "targets_ok k" and v: "v AND 0xFFF = 0" "v \<le> kstart k" "unat v < 0x400000"
  shows "unat (INDEX_GET (page_physaddr v 0 k)) < kframes k"
proof (cases "present k v")
  case True
  then show ?thesis using t v pframe_index [OF True v(1) inv v(3)] by (simp add: targets_ok_def)
next
  case False
  then have "page_physaddr v 0 k = 0"
    using v kbaseD(9) [OF inv] DIR_low [OF v(3)] and_one_eq [of "kpte k v"]
    by (auto simp: page_physaddr_def page_dir_of_def directory_get_def USED_def kpt_def Let_def present_def)
  then show ?thesis by (simp add: INDEX_GET_def kframes_def)
qed

lemma free_one:
  assumes inv: "kbase k" and t: "targets_ok k" and i: "i AND 0xFFF = 0" "i \<le> kstart k"
  defines "k2 \<equiv> snd (page_unmap i 0 (frame_free (page_physaddr i 0 k) k))"
  shows "page_writes k k2" "kbase k2"
    "unat v < 0x400000 \<Longrightarrow> kpte k2 v = (if drop_bit 12 v = drop_bit 12 i then 0 else kpte k v)"
    "f < kframes k \<Longrightarrow> frame_used k2 f \<longleftrightarrow> frame_used k f \<and> f \<noteq> unat (INDEX_GET (page_physaddr i 0 k))"
proof -
  let ?a = "page_physaddr i 0 k"
  let ?k1 = "frame_free ?a k"
  have lo: "unat i < 0x400000" using i(2) kbaseD(4) [OF inv] by (simp add: word_le_nat_alt)
  have a: "unat (INDEX_GET ?a) < kframes k" by (rule physaddr_low [OF inv t i lo])
  have w1: "page_writes k ?k1" by (rule frame_free_writes [OF inv a])
  note i1 = page_writes_inv [OF inv w1]
  have k1: "?k1 = upd_kmem (\<lambda>m. snd (bitmap_entrie_set (INDEX_GET ?a) FREE (frame_bitmap k) m)) k" by (simp add: frame_free_def)
  have k2: "k2 = upd_kmem (\<lambda>m. store32 m (kpt (kmem ?k1) (cr3 ?k1) + 4 * TLB_GET i) ((\<lambda>_. 0) m)) ?k1"
    unfolding k2_def by (rule page_unmap_eq [OF i1 lo i(1)])
  have fr: "kframes ?k1 = kframes k" by (rule page_writes_fields(8) [OF inv w1])
  show w2: "page_writes k k2" unfolding k2_def by (rule page_writes_trans [OF inv w1 page_unmap_low [OF i1 lo]])
  show "kbase k2" by (rule page_writes_inv [OF inv w2])
  show "unat v < 0x400000 \<Longrightarrow> kpte k2 v = (if drop_bit 12 v = drop_bit 12 i then 0 else kpte k v)"
    using table_write_kpte [OF i1 lo _ k2, of v] frame_entry_kpte [OF inv a k1, of v] by simp
  show "f < kframes k \<Longrightarrow> frame_used k2 f \<longleftrightarrow> frame_used k f \<and> f \<noteq> unat (INDEX_GET ?a)"
    using table_write_used [OF i1 _ k2, of f] frame_entry_used [OF inv a _ k1, of f] fr by (simp add: FREE_def)
qed

lemma free_one_held:
  assumes inv: "kbase k" and t: "targets_ok k" and h: "held k A" and i: "i AND 0xFFF = 0" "i \<le> kstart k"
  defines "k2 \<equiv> snd (page_unmap i 0 (frame_free (page_physaddr i 0 k) k))"
  shows "held k2 (A - {j. kpage k j = i})" "targets_ok k2"
proof -
  note f = free_one [OF inv t i, folded k2_def]
  note e = page_writes_kpage [OF inv f(1)]
  have pg: "present k2 v \<longleftrightarrow> present k v \<and> v \<noteq> i" "v \<noteq> i \<Longrightarrow> pframe k2 v = pframe k v"
    if v: "v AND 0xFFF = 0" "v \<le> kstart k" for v
  proof -
    have lo: "unat v < 0x400000" using v(2) kbaseD(4) [OF inv] by (simp add: word_le_nat_alt)
    have "drop_bit 12 v = drop_bit 12 i \<longleftrightarrow> v = i" by (rule aligned_page_eq [OF v(1) i(1)])
    then show "present k2 v \<longleftrightarrow> present k v \<and> v \<noteq> i" "v \<noteq> i \<Longrightarrow> pframe k2 v = pframe k v"
      using f(3) [OF lo] by (simp_all add: present_def pframe_def)
  qed
  show "targets_ok k2" unfolding targets_ok_def e
  proof (intro allI impI)
    fix v assume v: "v AND 0xFFF = 0" "v \<le> kstart k" "present k2 v"
    then have "present k v" "pframe k2 v = pframe k v" using pg [OF v(1,2)] by simp_all
    then show "pframe k2 v < kframes k" using t v(1,2) by (simp add: targets_ok_def)
  qed
  show "held k2 (A - {j. kpage k j = i})" unfolding held_def e
  proof (intro allI impI)
    fix n assume n: "n < kframes k" "frame_used k2 n"
    then have u: "frame_used k n" "n \<noteq> unat (INDEX_GET (page_physaddr i 0 k))" using f(4) by blast+
    show "n < unat (cr3 k) div 4096 + 2 \<or> (\<exists>j \<in> A - {j. kpage k j = i}. unat j < kpages k \<and> present k2 (kpage k j) \<and> pframe k2 (kpage k j) = n)"
    proof (cases "n < unat (cr3 k) div 4096 + 2")
      case False
      then obtain j where j: "j \<in> A" "unat j < kpages k" "present k (kpage k j)" "pframe k (kpage k j) = n"
        using h n(1) u(1) unfolding held_def by blast
      note p = kpage_addr [OF inv j(2)]
      have "kpage k j \<noteq> i" using pframe_index [OF j(3) p(2) inv] p(3) j(4) u(2) by auto
      then show ?thesis using j pg [OF p(2,5)] by blast
    qed blast
  qed
qed

text \<open>The loop of \<open>heap_free\<close> goes down to address 0 and takes every page on its way.\<close>

lemma heap_free_loop_down:
  assumes "kbase k" "targets_ok k" "held k A" "unat i = n * 4096" "i \<le> a" "i \<le> kstart k" "unat a + 4096 \<le> 0x400000"
  shows "\<exists>k'. heap_free_loop a 4096 i k = Some k' \<and> page_writes k k' \<and> targets_ok k' \<and> held k' (A - {j. kpage k j = i}) \<and>
    (\<forall>v. unat v < 0x400000 \<longrightarrow> kpte k' v = (if unat v < unat i + 4096 then 0 else kpte k v))"
  using assms(1-6)
proof (induction n arbitrary: i k A)
  case (Suc n)
  have ua: "unat (a + 4096) = unat a + 4096" using assms(7) unat_u32_add_le [of a 4096] by simp
  have lt: "i < a + 4096" using Suc.prems(5) ua by (simp add: word_less_nat_alt word_le_nat_alt)
  have al: "i AND 0xFFF = 0" using Suc.prems(4) by (simp add: aligned_iff)
  have ni: "unat (i - 4096) = n * 4096" using Suc.prems(4) by (simp add: unat_sub_if')
  then have nl: "i - 4096 \<le> a" "i - 4096 \<le> kstart k" using Suc.prems(4-6) by (auto simp: word_le_nat_alt)
  note f = free_one [OF Suc.prems(1,2) al Suc.prems(6)] and h = free_one_held [OF Suc.prems(1-3) al Suc.prems(6)]
  let ?k2 = "snd (page_unmap i 0 (frame_free (page_physaddr i 0 k) k))"
  note e = page_writes_kpage [OF Suc.prems(1) f(1)]
  have st: "heap_free_loop a 4096 i k = heap_free_loop a 4096 (i - 4096) ?k2"
    using lt by (subst heap_free_loop.simps) (simp add: page_getsize_def PAGE_SIZE_HEX_def)
  obtain k' where k': "heap_free_loop a 4096 (i - 4096) ?k2 = Some k'" "page_writes ?k2 k'" "targets_ok k'"
    "held k' (A - {j. kpage k j = i} - {j. kpage ?k2 j = i - 4096})"
    "\<forall>v. unat v < 0x400000 \<longrightarrow> kpte k' v = (if unat v < unat (i - 4096) + 4096 then 0 else kpte ?k2 v)"
    using Suc.IH [OF f(2) h(2,1) ni nl(1)] nl(2) unfolding e by blast
  have "held k' (A - {j. kpage k j = i})" by (rule held_mono [OF k'(4)]) blast
  moreover have "kpte k' v = (if unat v < unat i + 4096 then 0 else kpte k v)" if v: "unat v < 0x400000" for v
    using k'(5) v f(3) [OF v] ni(1) Suc.prems(4) same_page_iff [OF Suc.prems(4), of v] by auto
  ultimately show ?case unfolding st using k'(1,3) page_writes_trans [OF Suc.prems(1) f(1) k'(2)] by blast
next
  case 0
  have i: "i = 0" using 0 by (simp add: unat_eq_0)
  have ua: "unat (a + 4096) = unat a + 4096" using assms(7) unat_u32_add_le [of a 4096] by simp
  have al: "i AND 0xFFF = 0" using i by simp
  note f = free_one [OF 0(1,2) al 0(6)] and h = free_one_held [OF 0(1-3) al 0(6)]
  let ?k2 = "snd (page_unmap i 0 (frame_free (page_physaddr i 0 k) k))"
  have "i < a + 4096" using ua i by (simp add: word_less_nat_alt)
  moreover have "\<not> i - 4096 < a + 4096" using ua i assms(7) by (simp add: word_less_nat_alt unat_sub_if')
  then have "heap_free_loop a 4096 (i - 4096) ?k2 = Some ?k2" by (subst heap_free_loop.simps) simp
  ultimately have "heap_free_loop a 4096 i k = Some ?k2"
    by (subst heap_free_loop.simps) (simp add: page_getsize_def PAGE_SIZE_HEX_def)
  moreover have "drop_bit 12 v = drop_bit 12 i \<longleftrightarrow> unat v < unat i + 4096" for v :: u32
    using i same_page_iff [OF 0(4), of v] by simp
  ultimately show ?case using f h by (intro exI [of _ ?k2]) auto
qed

text \<open>A frame is found and the page is mapped to it; the page must not be one that held a frame before.\<close>

lemma alloc_one:
  assumes inv: "kbase k" and t: "targets_ok k" and h: "held k A" and i: "unat i < kpages k" "i \<notin> A"
  shows "\<exists>f k'. frame_alloc k = Some (f, frame_set f k) \<and> page_map f (kpage k i) 3 0 (frame_set f k) = Some (kpage k i, k') \<and>
    f AND 0xFFF = 0 \<and> page_writes k k' \<and> held k' (insert i A) \<and> targets_ok k' \<and>
    (\<forall>v. unat v < 0x400000 \<longrightarrow> kpte k' v = (if drop_bit 12 v = drop_bit 12 (kpage k i) then f OR 3 OR 1 else kpte k v))"
proof -
  obtain r where r: "unat r < kframes k" "INDEX_GET (ADDR_GET r) = r" "frame_alloc k = Some (ADDR_GET r, frame_set (ADDR_GET r) k)"
    using frame_alloc_low [OF inv h] by blast
  let ?k1 = "frame_set (ADDR_GET r) k" and ?p = "kpage k i"
  have a: "unat (INDEX_GET (ADDR_GET r)) < kframes k" using r(1,2) by simp
  have w1: "page_writes k ?k1" by (rule frame_set_writes [OF inv a])
  note i1 = page_writes_inv [OF inv w1] and e1 = page_writes_kpage [OF inv w1]
  note p = kpage_addr [OF inv i(1)]
  have lo: "unat ?p < 0x400000" using p(3) by simp
  have k1: "?k1 = upd_kmem (\<lambda>m. snd (bitmap_entrie_set (INDEX_GET (ADDR_GET r)) USED (frame_bitmap k) m)) k" by (simp add: frame_set_def)
  define k' where "k' = upd_kmem (\<lambda>m. store32 m (kpt (kmem ?k1) (cr3 ?k1) + 4 * TLB_GET ?p) ((\<lambda>_. ADDR_GET r OR 3 OR 1) m)) ?k1"
  have pm: "page_map (ADDR_GET r) ?p 3 0 ?k1 = Some (?p, k')"
    unfolding k'_def by (rule page_map_eq [OF i1 p(2) lo ADDR_aligned])
  have w2: "page_writes ?k1 k'" unfolding k'_def by (rule table_write)
  have w: "page_writes k k'" by (rule page_writes_trans [OF inv w1 w2])
  note e = page_writes_kpage [OF inv w]
  have pt: "kpte k' v = (if drop_bit 12 v = drop_bit 12 ?p then ADDR_GET r OR 3 OR 1 else kpte k v)" if "unat v < 0x400000" for v
    using table_write_kpte [OF i1 lo that k'_def] frame_entry_kpte [OF inv a k1, of v] by simp
  have u: "frame_used k' f \<longleftrightarrow> f = unat r \<or> frame_used k f" if "f < kframes k" for f
    using table_write_used [OF i1 _ k'_def, of f] frame_entry_used [OF inv a that k1] that e1(3) r(2) by (simp add: USED_def)
  have three: "(3 :: u32) AND NOT 0xFFF = 0" by simp
  have new: "present k' ?p" "pframe k' ?p = unat r"
    using pt [OF lo] aligned_frame [OF ADDR_aligned three] masked_index [of "kpte k' ?p"] r(2) by (simp_all add: present_def pframe_def)
  have old: "present k' v = present k v" "pframe k' v = pframe k v" if "v AND 0xFFF = 0" "v \<le> kstart k" "v \<noteq> ?p" for v
  proof -
    have "unat v < 0x400000" using that(2) kbaseD(4) [OF inv] by (simp add: word_le_nat_alt)
    then show "present k' v = present k v" "pframe k' v = pframe k v"
      using pt [of v] aligned_page_eq [OF that(1) p(2)] that(3) by (simp_all add: present_def pframe_def)
  qed
  have t': "targets_ok k'" unfolding targets_ok_def e
  proof (intro allI impI)
    fix v assume "v AND 0xFFF = 0" "v \<le> kstart k" "present k' v"
    then show "pframe k' v < kframes k" using old [of v] new r(1) t by (cases "v = ?p") (simp_all add: targets_ok_def)
  qed
  have "held k' (insert i A)" unfolding held_def e
  proof (intro allI impI)
    fix n assume n: "n < kframes k" "frame_used k' n"
    show "n < unat (cr3 k) div 4096 + 2 \<or> (\<exists>j \<in> insert i A. unat j < kpages k \<and> present k' (kpage k j) \<and> pframe k' (kpage k j) = n)"
    proof (cases "n = unat r \<or> n < unat (cr3 k) div 4096 + 2")
      case True
      then show ?thesis using new i(1) by blast
    next
      case False
      then obtain j where j: "j \<in> A" "unat j < kpages k" "present k (kpage k j)" "pframe k (kpage k j) = n"
        using h n u [OF n(1)] unfolding held_def by blast
      note q = kpage_addr [OF inv j(2)]
      have "kpage k j \<noteq> ?p" using kpage_inj [OF inv j(2) i(1)] j(1) i(2) by blast
      then show ?thesis using j old [OF q(2,5)] by blast
    qed
  qed
  then show ?thesis using r(3) pm w t' pt ADDR_aligned by blast
qed

text \<open>Writes to the entries of the heap's bitmap change neither frames nor tables.\<close>

lemma heap_entries_keep:
  assumes inv: "kbase k" and same: "kernel_heap k1 = kernel_heap k" "cr3 k1 = cr3 k" "frame_bitmap k1 = frame_bitmap k" "paging_state k1 = paging_state k"
    and mem: "\<And>x. \<not> in_rng (bitmap_entries (kmem k) (kbitmap k)) (4 * (kpages k + 1)) x \<Longrightarrow> kmem k1 x = kmem k x"
  shows "kbase k1" "kpte k1 v = kpte k v" "held k1 A = held k A" "targets_ok k1 = targets_ok k" "kstart k1 = kstart k" "kbitmap k1 = kbitmap k"
proof -
  note kd = kbaseD [OF inv]
  show "kbase k1" by (rule kbase_keep [OF inv same]) (use mem in \<open>auto simp: written_def Let_def\<close>)
  have kept: "kmem k1 x = kmem k x" if "kept k x" for x
    using kd(10) [OF that] mem by (auto simp: written_def Let_def)
  note f = kept_fields [OF same(1-3) kept]
  show st: "kstart k1 = kstart k" "kbitmap k1 = kbitmap k" using f(1,2) same(1) by auto
  have n: "kpages k1 = kpages k" "kframes k1 = kframes k" "kpage k1 = kpage k" using st by (simp_all add: kpages_def kframes_def kpage_def fun_eq_iff same)
  have e: "kpte k1 v = kpte k v" for v
  proof -
    have "kmem k1 x = kmem k x" if "in_rng (kpt (kmem k) (cr3 k)) 4096 x" for x
      using disjD [OF disj_sym [OF kd(12)] that] mem by blast
    moreover have "unat (4 * TLB_GET v) + 4 \<le> 4096" using index_bound(2) [of v] by (simp add: unat_word_ariths)
    ultimately have "load32 (kmem k1) (kpt (kmem k) (cr3 k) + 4 * TLB_GET v) = kpte k v"
      by (intro load32_sub [of _ 4096]) simp_all
    then show ?thesis using f(8) by (simp add: same(2))
  qed
  have u: "frame_used k1 f = frame_used k f" if "f < kframes k" for f
  proof (rule frame_used_cong [OF inv that same(3) f(5)])
    show "kmem k1 x = kmem k x" if "in_rng (bitmap_entries (kmem k) (frame_bitmap k)) (4 * kframes k) x" for x
      by (rule mem [OF disjD [OF disj_sym [OF kd(11)] that]])
  qed
  have p: "present k1 v = present k v" "pframe k1 v = pframe k v" for v by (simp_all only: present_def pframe_def e)
  show "kpte k1 v = kpte k v" by (rule e)
  show "held k1 A = held k A" "targets_ok k1 = targets_ok k"
    using u by (simp_all add: held_def targets_ok_def p n st same(2))
qed

lemma mark_page_keeps:
  assumes inv: "kbase k" and i: "unat i < kpages k"
    and k1: "k1 = upd_kmem (bitmap_map i (i + 1) v (kbitmap k)) k"
  shows "held k1 A = held k A" "targets_ok k1 = targets_ok k" "kpte k1 w = kpte k w"
  using heap_entries_keep [OF inv, of k1] mark_page [OF inv i k1] by (auto simp: k1)

lemma in_use_mark:
  assumes "kbase k" "unat i < kpages k" "k1 = upd_kmem (bitmap_map i (i + 1) v (kbitmap k)) k" "unat j < kpages k"
  shows "j \<in> in_use k1 \<longleftrightarrow> (if j = i then v \<noteq> 0 else j \<in> in_use k)"
  using mark_page(3,11) [OF assms(1-3)] assms(4) by (simp add: in_use_def)

lemma in_use_page_writes: "kbase k \<Longrightarrow> page_writes k k' \<Longrightarrow> unat j < kpages k \<Longrightarrow> j \<in> in_use k' \<longleftrightarrow> j \<in> in_use k"
  using page_writes_entries [of k k' j] page_writes_fields(2) [of k k'] by (simp add: in_use_def)

section \<open>The hooks keep their promises for single pages\<close>

lemma heap_alloc_loop_one:
  assumes inv: "kbase k" "targets_ok k" "held k A" and i: "unat i < kpages k" "i \<notin> A"
  shows "\<exists>f k'. heap_alloc_loop (kpage k i) 4096 (kpage k i) k = Some (kpage k i, k') \<and> f AND 0xFFF = 0 \<and> page_writes k k' \<and>
    held k' (insert i A) \<and> targets_ok k' \<and>
    (\<forall>v. unat v < 0x400000 \<longrightarrow> drop_bit 12 v = drop_bit 12 (kpage k i) \<longrightarrow> kpte k' v = f OR 3 OR 1)"
proof -
  let ?a = "kpage k i"
  note a = kpage_addr [OF inv(1) i(1)]
  have lt: "?a < ?a + 4096" using a(3) unat_u32_add_le [of ?a 4096] by (simp add: word_less_nat_alt)
  obtain f k' where f: "frame_alloc k = Some (f, frame_set f k)" "page_map f ?a 3 0 (frame_set f k) = Some (?a, k')"
    "f AND 0xFFF = 0" "page_writes k k'" "held k' (insert i A)" "targets_ok k'"
    "\<forall>v. unat v < 0x400000 \<longrightarrow> kpte k' v = (if drop_bit 12 v = drop_bit 12 ?a then f OR 3 OR 1 else kpte k v)"
    using alloc_one [OF inv i] by blast
  have "heap_alloc_loop ?a 4096 (?a + 4096) k' = Some (?a, k')" by (subst heap_alloc_loop.simps) simp
  then have "heap_alloc_loop ?a 4096 ?a k = Some (?a, k')"
    using lt f(1,2) a(4) by (subst heap_alloc_loop.simps) (simp add: page_getsize_def PAGE_SIZE_HEX_def)
  then show ?thesis using f(3-7) by (intro exI [of _ f] exI [of _ k']) simp
qed

lemma print_fields: "kernel_heap (print msg k) = kernel_heap k" "cr3 (print msg k) = cr3 k" "frame_bitmap (print msg k) = frame_bitmap k"
    "paging_state (print msg k) = paging_state k" "kmem (print msg k) = kmem k"
  by (simp_all add: print_def)

lemma kregions_print: "kregions (print msg k) = kregions k"
  by (simp add: kregions_def print_fields)

lemma kinv_print: "kinv (print msg k) = kinv k"
  by (simp add: kinv_def kbase_def held_def targets_ok_def in_use_def frame_used_def present_def pframe_def kept_def written_def
    kframes_def kpages_def kpage_def print_fields)

lemma heap_alloc_page:
  assumes inv: "kinv k"
  shows "\<exists>p k'. heap_alloc 4096 (kernel_heap k) k = Some (p, k') \<and> kinv k' \<and> kstart k' = kstart k \<and>
      (if p = 0 then kregions k' = kregions k
       else \<exists>i. unat i < kpages k \<and> p = kpage k i \<and> bitmap_entry (kmem k) (kbitmap k) i = 0 \<and>
         kregions k' = insert (p, 4096) (kregions k) \<and>
         (\<exists>f. f AND 0xFFF = 0 \<and> (\<forall>v. unat v < 0x400000 \<longrightarrow> drop_bit 12 v = drop_bit 12 p \<longrightarrow> kpte k' v = f OR 3 OR 1)))"
proof -
  have kb: "kbase k" "held k (in_use k)" "targets_ok k" using inv by (simp_all add: kinv_def)
  note kd = kbaseD [OF kb(1)] and ks = kstart_eq [OF kb(1)]
  have "bitmap_size (kmem k) (kbitmap k) \<noteq> - 1" using kd(7) by (auto simp: word_unat_eq_iff)
  then obtain r where r: "find_from (kmem k) (kbitmap k) 0 1 0 = Some r"
    "r \<noteq> - 1 \<Longrightarrow> r \<le> bitmap_size (kmem k) (kbitmap k) \<and> bitmap_entry (kmem k) (kbitmap k) r = 0"
    using find_from_correct [of "kmem k" "kbitmap k" 0 1 0] run_at_first by metis
  have al: "heap_alloc 4096 (kernel_heap k) k =
      (if kpage k r = 0 \<or> kpage k r > kstart k then Some (0, print ''-- NO FREE MEMORY --'' k)
       else heap_alloc_loop (kpage k r) 4096 (kpage k r) (upd_kmem (bitmap_map r (r + 1) 1 (kbitmap k)) k))"
    using kd(1) r(1) by (simp add: heap_alloc_def bitmap_entrie_find_def INDEX_GET_def PAGE_SIZE_HEX_def kpage_def Let_def)
  show ?thesis
  proof (cases "unat r < kpages k")
    case True
    note a = kpage_addr [OF kb(1) True]
    have e: "bitmap_entry (kmem k) (kbitmap k) r = 0" using r(2) True ks by (cases "r = - 1") auto
    define k1 where "k1 = upd_kmem (bitmap_map r (r + 1) 1 (kbitmap k)) k"
    note m = mark_page [OF kb(1) True k1_def] and mk = mark_page_keeps [OF kb(1) True k1_def]
    have "r \<notin> in_use k" using e by (simp add: in_use_def)
    then obtain f k' where k': "heap_alloc_loop (kpage k r) 4096 (kpage k r) k1 = Some (kpage k r, k')" "f AND 0xFFF = 0" "page_writes k1 k'"
      "held k' (insert r (in_use k))" "targets_ok k'"
      "\<forall>v. unat v < 0x400000 \<longrightarrow> drop_bit 12 v = drop_bit 12 (kpage k r) \<longrightarrow> kpte k' v = f OR 3 OR 1"
      using heap_alloc_loop_one [OF m(1), of "in_use k" r] kb mk(1,2) True unfolding m(6,8) by blast
    have "heap_alloc 4096 (kernel_heap k) k = Some (kpage k r, k')"
      using al a(4,5) k'(1) by (simp add: k1_def)
    moreover have "kbase k'" "kregions k' = insert (kpage k r, 4096) (kregions k)"
      using page_writes_inv [OF m(1) k'(3)] page_writes_regions [OF m(1) k'(3)] m(5) by auto
    moreover have "held k' (in_use k')"
      by (rule held_mono [OF k'(4)])
        (use in_use_page_writes [OF m(1) k'(3)] in_use_mark [OF kb(1) True k1_def] page_writes_kpage(2) [OF m(1) k'(3)] m(6) in auto)
    moreover have "kstart k' = kstart k" using page_writes_fields(1) [OF m(1) k'(3)] m(2) by simp
    ultimately show ?thesis using a(4) e True k'(2,5,6)
      by (intro exI [of _ "kpage k r"] exI [of _ k']) (auto simp: kinv_def)
  next
    case False
    have "kpage k r = 0 \<or> kpage k r > kstart k"
    proof (cases "r = - 1")
      case True
      then have "kpage k r = kstart k + 4096" by (simp add: kpage_def ADDR_GET_def PAGE_SIZE_HEX_def)
      then show ?thesis using unat_u32_add_le [of "kstart k" 4096] ks by (simp add: word_less_nat_alt)
    next
      case nm: False
      then have "unat r < 0x100000" using r(2) kd(7) by (auto simp: word_le_nat_alt)
      then have ur: "unat (ADDR_GET r) = unat r * 4096" by (rule unat_ADDR)
      have b: "unat r * 4096 < 4294967296" using \<open>unat r < 0x100000\<close> by simp
      consider "unat r = kpages k" | "kpages k < unat r" using False by linarith
      then show ?thesis
      proof cases
        case 1
        then have "ADDR_GET r = kstart k" using ur ks by (simp add: word_unat_eq_iff)
        then show ?thesis by (simp add: kpage_def)
      next
        case 2
        then have "unat (kpage k r) = unat (kstart k) + 4294967296 - unat r * 4096"
          using ur ks by (simp add: kpage_def unat_sub_if')
        then show ?thesis using b by (auto simp: word_less_nat_alt)
      qed
    qed
    then have "heap_alloc 4096 (kernel_heap k) k = Some (0, print ''-- NO FREE MEMORY --'' k)" using al by simp
    moreover have "kinv (print msg k)" "kregions (print msg k) = kregions k" "kstart (print msg k) = kstart k" for msg
      using inv by (simp_all only: kinv_print kregions_print) (simp add: print_def)
    ultimately show ?thesis by auto
  qed
qed

lemma heap_free_page:
  assumes inv: "kinv k" and i: "unat i < kpages k"
  shows "\<exists>k'. heap_free (kpage k i) 4096 (kernel_heap k) k = Some (1, k') \<and> kinv k' \<and> kstart k' = kstart k \<and>
      kregions k' = kregions k - {(kpage k i, 4096)} \<and>
      (\<forall>v. unat v < unat (kpage k i) + 4096 \<longrightarrow> kpte k' v = 0)"
proof -
  have kb: "kbase k" "held k (in_use k)" "targets_ok k" using inv by (simp_all add: kinv_def)
  note kd = kbaseD [OF kb(1)] and ks = kstart_eq [OF kb(1)] and a = kpage_addr [OF kb(1) i]
  define k1 where "k1 = upd_kmem (bitmap_map i (i + 1) 0 (kbitmap k)) k"
  note m = mark_page [OF kb(1) i k1_def] and mk = mark_page_keeps [OF kb(1) i k1_def]
  have "INDEX_GET (kstart k - kpage k i) = i"
    unfolding kpage_def using INDEX_ADDR [of i] i ks by (simp add: word_less_nat_alt)
  moreover obtain k' where k': "heap_free_loop (kpage k i) 4096 (kpage k i) k1 = Some k'" "page_writes k1 k'"
    "targets_ok k'" "held k' (in_use k - {j. kpage k j = kpage k i})"
    "\<forall>v. unat v < 0x400000 \<longrightarrow> kpte k' v = (if unat v < unat (kpage k i) + 4096 then 0 else kpte k1 v)"
    using heap_free_loop_down [OF m(1), of "in_use k" "kpage k i" "kpages k - unat i" "kpage k i"] mk(1,2) kb a m(2) unfolding m(8) by auto
  ultimately have f: "heap_free (kpage k i) 4096 (kernel_heap k) k = Some (1, k')"
    using kd(1) by (simp add: heap_free_def k1_def INDEX_GET_def PAGE_SIZE_HEX_def)
  have "held k' (in_use k')"
    by (rule held_mono [OF k'(4)])
      (use in_use_page_writes [OF m(1) k'(2)] in_use_mark [OF kb(1) i k1_def] page_writes_kpage(2) [OF m(1) k'(2)] m(6) in auto)
  moreover have "kstart k' = kstart k" using page_writes_fields(1) [OF m(1) k'(2)] m(2) by simp
  ultimately show ?thesis
    using f page_writes_inv [OF m(1) k'(2)] page_writes_regions [OF m(1) k'(2)] m(5) k'(3,5) a(3) by (auto simp: kinv_def)
qed

lemma kernel_provider: "page_provider kernel_hooks (\<lambda>k. kinv k \<and> Q (kstart k)) kregions (\<lambda>n. n = 1)"
proof
  fix h :: kernel and n :: u32
  assume inv': "kinv h \<and> Q (kstart h)" and "unat n = 1"
  then have inv: "kinv h" and kb: "kbase h" and n: "n = 1" "unat n = 1" by (simp_all add: word_unat_eq_iff kinv_def)
  have al: "liballoc_alloc kernel_hooks h n = heap_alloc 4096 (kernel_heap h) h"
    by (simp add: kernel_hooks_def kernel_liballoc_alloc_def n page_getsize_def PAGE_SIZE_HEX_def)
  obtain p h' where h': "heap_alloc 4096 (kernel_heap h) h = Some (p, h')" "kinv h'" "kstart h' = kstart h"
    "p = 0 \<Longrightarrow> kregions h' = kregions h"
    "p \<noteq> 0 \<Longrightarrow> \<exists>i. unat i < kpages h \<and> p = kpage h i \<and> bitmap_entry (kmem h) (kbitmap h) i = 0 \<and>
       kregions h' = insert (p, 4096) (kregions h)"
    using heap_alloc_page [OF inv] by metis
  have "\<forall>(a, k) \<in> kregions h. unat p + 4096 \<le> unat a \<or> unat a + k \<le> unat p" if p: "p \<noteq> 0"
  proof -
    obtain i where i: "unat i < kpages h" "p = kpage h i" "bitmap_entry (kmem h) (kbitmap h) i = 0"
      using h'(5) [OF p] by blast
    then show ?thesis unfolding kregions_eq using kpage_disj [OF kb i(1)] by fastforce
  qed
  then show "\<exists>p h'. liballoc_alloc kernel_hooks h n = Some (p, h') \<and> (kinv h' \<and> Q (kstart h')) \<and>
      (if p = 0 then kregions h' = kregions h
       else kregions h' = insert (p, unat n * 4096) (kregions h) \<and>
         (\<forall>(a, k) \<in> kregions h. unat p + unat n * 4096 \<le> unat a \<or> unat a + k \<le> unat p))"
    unfolding al n(2) using h' inv' by (intro exI [of _ p] exI [of _ h']) auto
next
  fix h :: kernel and p n :: u32
  assume inv': "kinv h \<and> Q (kstart h)" and "(p, unat n * 4096) \<in> kregions h"
  then obtain i where i: "unat i < kpages h" "p = kpage h i" "unat n * 4096 = 4096" and inv: "kinv h"
    by (auto simp: kregions_eq)
  then have n: "n = 1" by (simp add: word_unat_eq_iff)
  show "\<exists>r h'. liballoc_free kernel_hooks h p n = Some (r, h') \<and> (kinv h' \<and> Q (kstart h')) \<and>
        kregions h' = kregions h - {(p, unat n * 4096)}"
    using heap_free_page [OF inv i(1)] i(2) inv'
    by (auto simp: kernel_hooks_def kernel_liballoc_free_def n page_getsize_def PAGE_SIZE_HEX_def)
next
  fix h :: kernel assume inv: "kinv h \<and> Q (kstart h)"
  then have kb: "kbase h" by (simp add: kinv_def)
  have "0 < k \<and> unat a + k \<le> 4294967296" if "(a, k) \<in> kregions h" for a k
    using that kpage_addr(3) [OF kb] by (fastforce simp: kregions_eq)
  moreover have "unat a + k \<le> unat b \<or> unat b + l \<le> unat a"
    if "(a, k) \<in> kregions h" "(b, l) \<in> kregions h" "(a, k) \<noteq> (b, l)" for a b k l
    using that kpage_disj [OF kb] by (auto simp: kregions_eq)
  ultimately show "regions_ok (kregions h)" unfolding regions_ok_def
    by (simp add: split_paired_all case_prod_beta)
  fix a k assume "(a, k) \<in> kregions h"
  then show "unat a + k < 4294967296 \<and> (\<exists>n. k = n * 4096 \<and> 0 < n)"
    using kpage_addr(3) [OF kb] by (fastforce simp: kregions_eq)
qed

interpretation kernel: page_provider kernel_hooks kinv kregions "\<lambda>n. n = 1"
  using kernel_provider [of "\<lambda>_. True"] by simp

end
