(* ===== verification/Kalloc.thy ===== *)
theory Kalloc
  imports Kmem_Pages
begin

text \<open>
  The allocator on the kernel heap: the lemmas of \<open>page_provider\<close> for the kernel's own hooks, written out over
  the model, with a concrete kernel on which their hypotheses hold.
\<close>

section \<open>The state of the allocator on the kernel heap\<close>

text \<open>
  \<open>kheap_ok s T F\<close>: before the first \<open>malloc\<close> there are no tags; after it the tags \<open>T\<close> and the free lists \<open>F\<close>
  satisfy the invariant of the allocator over the pages obtained from the kernel heap.
\<close>

definition kheap_ok :: "kmem_state \<Rightarrow> u32 set \<Rightarrow> (int \<Rightarrow> u32 list) \<Rightarrow> bool" where
  "kheap_ok s T F \<longleftrightarrow> kinv (pages s) \<and> (if l_initialized s then heap_inv s T F {} (kregions (pages s)) else T = {})"

lemma kheap_ok_eq: "kernel.allocator_ok = kheap_ok"
  by (simp add: fun_eq_iff kernel.allocator_ok_def kheap_ok_def)

abbreviation blocks :: "kmem_state \<Rightarrow> u32 set \<Rightarrow> u32 \<rightharpoonup> u32" where
  "blocks s T \<equiv> live_of s T {}"

lemmas kernel_malloc = kernel.malloc_correct [unfolded kheap_ok_eq]
lemmas kernel_free = kernel.free_correct [unfolded kheap_ok_eq]
lemmas kernel_calloc = kernel.calloc_correct [unfolded kheap_ok_eq]
lemmas kernel_realloc = kernel.realloc_correct [unfolded kheap_ok_eq]
lemmas kernel_frame = kernel.frame [unfolded kheap_ok_eq] kernel.frame_before [unfolded kheap_ok_eq]
lemmas kernel_okD = kernel.allocator_okD [unfolded kheap_ok_eq]

lemma one_page: "unat sz \<le> 4064 \<Longrightarrow> unat sz + 4160 \<le> 4294967296 \<and> (unat sz + 4127) div 4096 = 1"
  using div_nat_eqI [of 4096 1 "unat sz + 4127"] by simp

section \<open>A concrete kernel\<close>

text \<open>
  Directory at \<open>0x1000\<close>, its first table at \<open>0x2000\<close>, the heap structure at \<open>0x100\<close> with start \<open>0x10000\<close>, its
  bitmap at \<open>0x200\<close> with 32 entries at \<open>0x3000\<close> of which the first is in use, the frame bitmap at \<open>0x300\<close> with
  1024 entries at \<open>0x1000000\<close>.
\<close>

definition sample_kmem :: mem where
  "sample_kmem = (\<lambda>_. 0)(0x1000 := 3, 0x1001 := 0x20, 0x102 := 1, 0x10A := 2, 0x201 := 0x30, 0x204 := 32,
     0x303 := 1, 0x305 := 4, 0x3000 := 1)"

definition sample_kernel :: kernel where
  "sample_kernel = \<lparr>kmem = sample_kmem, cr0 = 0x80000000, cr3 = 0x1000, kernel_pointer = 0x8000, frame_bitmap = 0x300,
     kernel_heap = 0x100, paging_state = 1, isr_routine = (\<lambda>_. 0), console = []\<rparr>"

lemma sample_kernel_fields:
  "kmem sample_kernel = sample_kmem" "cr3 sample_kernel = 0x1000" "frame_bitmap sample_kernel = 0x300"
  "kernel_heap sample_kernel = 0x100" "paging_state sample_kernel = 1"
  "heap_start sample_kmem 0x100 = 0x10000" "heap_bitmap sample_kmem 0x100 = 0x200"
  "bitmap_entries sample_kmem 0x200 = 0x3000" "bitmap_size sample_kmem 0x200 = 32"
  "bitmap_entries sample_kmem 0x300 = 0x1000000" "bitmap_size sample_kmem 0x300 = 0x400"
  "load32 sample_kmem 0x1000 = 0x2003" "kpt sample_kmem 0x1000 = 0x2000"
  by (simp_all add: sample_kernel_def sample_kmem_def heap_start_def heap_bitmap_def bitmap_entries_def bitmap_size_def
    load32_def kpt_def PHY_GET_def)

lemma sample_kernel_areas: "kpages sample_kernel = 16" "kframes sample_kernel = 20"
  by (simp_all add: kpages_def kframes_def sample_kernel_fields)

lemma sample_kernel_sep:
  "kept sample_kernel x \<Longrightarrow> \<not> written sample_kernel x"
proof -
  have d: "disj a n b l \<Longrightarrow> \<not> (in_rng a n x \<and> in_rng b l x)" for a n b l using disjD by blast
  note ds = d [of "0x100" 13 "0x3000" 68] d [of "0x100" 13 "0x1000000" 80] d [of "0x100" 13 "0x2000" 4096]
    d [of "0x200" 8 "0x3000" 68] d [of "0x200" 8 "0x1000000" 80] d [of "0x200" 8 "0x2000" 4096]
    d [of "0x300" 8 "0x3000" 68] d [of "0x300" 8 "0x1000000" 80] d [of "0x300" 8 "0x2000" 4096]
    d [of "0x1000" 4096 "0x3000" 68] d [of "0x1000" 4096 "0x1000000" 80] d [of "0x1000" 4096 "0x2000" 4096]
  show "kept sample_kernel x \<Longrightarrow> \<not> written sample_kernel x"
    using ds unfolding kept_def written_def Let_def sample_kernel_fields sample_kernel_areas by (auto simp: disj_def)
qed

lemma sample_kernel_base: "kbase sample_kernel"
  using sample_kernel_sep unfolding kbase_def Let_def sample_kernel_fields sample_kernel_areas
  by (auto simp: bitmap_ok_def sample_kernel_fields disj_def)

lemma sample_zero: "in_rng 0x1000000 80 x \<or> in_rng 0x2000 4096 x \<Longrightarrow> sample_kmem x = 0"
  by (auto simp: sample_kmem_def in_rng_def)

lemma sample_kernel_inv: "kinv sample_kernel"
proof -
  have "load32 sample_kmem (0x2000 + 4 * TLB_GET v) = 0" for v
  proof -
    have "load32 sample_kmem (0x2000 + 4 * TLB_GET v) = load32 (\<lambda>_. 0) (0x2000 + 4 * TLB_GET v)"
      using in_rng_shift [of "0x2000" "4 * TLB_GET v" 4 _ 4096] index_bound(2) [of v]
      by (intro load32_cong sample_zero disjI2) (simp add: unat_word_ariths)
    then show ?thesis by (simp add: load32_def)
  qed
  then have p: "\<not> present sample_kernel v" for v by (simp add: present_def sample_kernel_fields)
  have "\<not> frame_used sample_kernel f" if "f < 20" for f
  proof -
    have "unat (of_nat f :: u32) = f" using that by (intro unat_of_nat_u32) simp
    then have "load32 sample_kmem (0x1000000 + 4 * of_nat f) = load32 (\<lambda>_. 0) (0x1000000 + 4 * of_nat f)"
      using that in_rng_shift [of "0x1000000" "4 * of_nat f" 4 _ 80]
      by (intro load32_cong sample_zero disjI1) (simp add: unat_word_ariths)
    then show ?thesis by (simp add: frame_used_def bitmap_entry_def sample_kernel_fields) (simp add: load32_def)
  qed
  then show ?thesis using sample_kernel_base p by (simp add: kinv_def held_def targets_ok_def sample_kernel_areas)
qed

text \<open>The allocator before its first call.\<close>

definition sample_fresh :: kmem_state where
  "sample_fresh = \<lparr>heap_mem = (\<lambda>_. 0), l_freePages = (\<lambda>_. 0), l_completePages = (\<lambda>_. 0), l_initialized = False,
     int_enabled = True, pages = sample_kernel\<rparr>"

lemma sample_fresh_ok: "kheap_ok sample_fresh {} F"
  by (simp add: kheap_ok_def sample_fresh_def sample_kernel_inv)

text \<open>The allocator with one allocated block of 100 bytes, which holds the first page of the heap.\<close>

definition sample_tag :: boundary_tag where
  "sample_tag = \<lparr>bt_magic = LIBALLOC_MAGIC, bt_size = 100, bt_real_size = 4096, bt_index = - 1, bt_split_left = 0,
     bt_split_right = 0, bt_next = 0, bt_prev = 0\<rparr>"

definition sample_used :: kmem_state where
  "sample_used = \<lparr>heap_mem = set_index 0x10000 (- 1) (set_real_size 0x10000 4096 (set_size 0x10000 100
       (set_magic 0x10000 LIBALLOC_MAGIC (\<lambda>_. 0)))),
     l_freePages = (\<lambda>_. 0), l_completePages = (\<lambda>_. 0), l_initialized = True, int_enabled = True, pages = sample_kernel\<rparr>"

lemma sample_used_tag: "tagof sample_used 0x10000 = sample_tag"
  by (simp add: sample_used_def sample_tag_def) (simp add: tag_at_def load32_def)

lemma sample_region: "(0x10000, 4096) \<in> kregions sample_kernel"
  unfolding kregions_def sample_kernel_fields
  by (rule CollectI, rule exI [of _ 0]) (simp add: bitmap_entry_def sample_kernel_fields ADDR_GET_def,
    simp add: sample_kmem_def load32_def)

lemma sample_used_ok: "kheap_ok sample_used {0x10000} (\<lambda>_. [])"
proof -
  have "heap_ok (tag_at (heap_mem sample_used)) (\<lambda>_. 0) (\<lambda>_. 0) {0x10000} (\<lambda>_. []) {} (kregions sample_kernel)"
  proof -
    have "owns (tag_at (heap_mem sample_used)) {0x10000} (kregions sample_kernel)"
      unfolding owns_def by (rule ballI, rule bexI [OF _ sample_region]) (simp add: sample_used_tag sample_tag_def)
    then show ?thesis
      unfolding heap_ok_def tiling_def geom_def links_def freelists_def roomy_def classed_def coalesced_def counted_def
      by (simp add: sample_used_tag sample_tag_def MAXCOMPLETE_def)
  qed
  then show ?thesis by (simp add: kheap_ok_def) (simp add: sample_used_def sample_kernel_inv)
qed

lemma sample_used_block: "blocks sample_used {0x10000} 0x10020 = Some 100"
  using sample_used_tag by (simp add: live_def sample_tag_def)

section \<open>Properties of the allocator\<close>









text \<open>
  \<open>calloc\<close> on the kernel heap: when the result is not null it is a new block of \<open>nobj * size\<close> zero bytes, and
  the contents of all other blocks are unchanged.
\<close>

theorem calloc_on_kernel_heap:
  assumes "kheap_ok s T F" and "unat (nobj * sz) \<le> 4064"
  shows "\<exists>p s'. calloc kernel_hooks nobj sz s = Some (p, s') \<and> (p \<noteq> 0 \<longrightarrow> (\<exists>T' F'. kheap_ok s' T' F' \<and>
     int_enabled s' \<and> blocks s T p = None \<and> blocks s' T' = (blocks s T)(p \<mapsto> nobj * sz) \<and>
     (\<forall>x. in_rng p (unat (nobj * sz)) x \<longrightarrow> heap_mem s' x = 0) \<and>
     (\<forall>q k x. blocks s T q = Some k \<longrightarrow> in_rng q (unat k) x \<longrightarrow> heap_mem s' x = heap_mem s x)))"
  using kernel_calloc [OF assms(1)] one_page [OF assms(2)] by blast

theorem calloc_on_kernel_heap_witness: "\<exists>p s'. calloc kernel_hooks 10 10 sample_fresh = Some (p, s')"
  using calloc_on_kernel_heap [OF sample_fresh_ok, of 10 10] by auto



end
