(* ===== verification/Kheap_Pages.thy ===== *)
theory Kheap_Pages
  imports Kalloc
begin

text \<open>
  What \<open>heap_alloc\<close> and \<open>heap_free\<close> do to the translation of addresses: the page handed out is mapped to a
  frame; the loop of \<open>heap_free\<close> unmaps every page below; requests of several pages overlap pages in use.
\<close>

section \<open>heap_free takes every page below\<close>

text \<open>A kernel whose first two heap pages are in use and mapped: \<open>0x10000\<close> and \<open>0xF000\<close>.\<close>

lemma sample_kernel_pages: "kpages sample_kernel = 16" "kpage sample_kernel 0 = 0x10000"
  by (simp_all add: sample_kernel_areas kpage_def sample_kernel_fields ADDR_GET_def PAGE_SIZE_HEX_def)

text \<open>
  C16: \<open>heap_free\<close> of one page ends and takes the page out of the bitmap, but its loop runs downwards: after it
  no address below the end of the page is mapped, whether or not it belongs to a page still handed out.
\<close>

theorem heap_free_unmaps_below:
  assumes inv: "kinv k" and i: "unat i < kpages k"
  shows "\<exists>k'. heap_free (kpage k i) 4096 (kernel_heap k) k = Some (1, k') \<and> kinv k' \<and>
     kregions k' = kregions k - {(kpage k i, 4096)} \<and>
     (\<forall>v. unat v < unat (kpage k i) + 4096 \<longrightarrow> walk (kmem k') (cr3 k') v = None)"
proof -
  have kb: "kbase k" using inv by (simp add: kinv_def)
  obtain k' where k': "heap_free (kpage k i) 4096 (kernel_heap k) k = Some (1, k')" "kinv k'"
    "kregions k' = kregions k - {(kpage k i, 4096)}" "\<forall>v. unat v < unat (kpage k i) + 4096 \<longrightarrow> kpte k' v = 0"
    using heap_free_page [OF inv i] by blast
  have "walk (kmem k') (cr3 k') v = None" if "unat v < unat (kpage k i) + 4096" for v
    using kpte_walk [of k' v] k'(2,4) that kpage_addr(3) [OF kb i] by (simp add: kinv_def)
  then show ?thesis using k' by blast
qed

theorem heap_free_unmaps_below_witness:
  "kinv sample_kernel \<and> (\<exists>k'. heap_free 0x10000 4096 0x100 sample_kernel = Some (1, k') \<and>
     walk (kmem k') (cr3 k') 0x5000 = None)"
proof -
  have "unat (0 :: u32) < kpages sample_kernel" by (simp add: sample_kernel_pages)
  from heap_free_unmaps_below [OF sample_kernel_inv this] show ?thesis
    using sample_kernel_inv unfolding sample_kernel_pages sample_kernel_fields by (auto dest!: spec [of _ "0x5000"])
qed

section \<open>What heap_alloc maps\<close>

text \<open>
  when \<open>heap_alloc\<close> hands out a page, the page was not handed out before and lies between 0 and the start of
  the heap, and the processor translates every address in it to one page-aligned frame.
\<close>

theorem heap_alloc_maps:
  assumes inv: "kinv k"
  shows "\<exists>p k'. heap_alloc 4096 (kernel_heap k) k = Some (p, k') \<and> kinv k' \<and>
     (if p = 0 then kregions k' = kregions k
      else (p, 4096) \<notin> kregions k \<and> kregions k' = insert (p, 4096) (kregions k) \<and> p \<le> kstart k \<and>
        (\<exists>f. f AND 0xFFF = 0 \<and> (\<forall>v. drop_bit 12 v = drop_bit 12 p \<longrightarrow>
           walk (kmem k') (cr3 k') v = Some (f + (v AND 0xFFF)))))"
proof -
  have kb: "kbase k" using inv by (simp add: kinv_def)
  obtain p k' where h: "heap_alloc 4096 (kernel_heap k) k = Some (p, k')" "kinv k'" "p = 0 \<Longrightarrow> kregions k' = kregions k"
    and h2: "p \<noteq> 0 \<Longrightarrow> \<exists>i. unat i < kpages k \<and> p = kpage k i \<and> bitmap_entry (kmem k) (kbitmap k) i = 0 \<and>
         kregions k' = insert (p, 4096) (kregions k) \<and>
         (\<exists>f. f AND 0xFFF = 0 \<and> (\<forall>v. unat v < 0x400000 \<longrightarrow> drop_bit 12 v = drop_bit 12 p \<longrightarrow> kpte k' v = f OR 3 OR 1))"
    using heap_alloc_page [OF inv] by metis
  have "(p, 4096) \<notin> kregions k \<and> kregions k' = insert (p, 4096) (kregions k) \<and> p \<le> kstart k \<and>
        (\<exists>f. f AND 0xFFF = 0 \<and> (\<forall>v. drop_bit 12 v = drop_bit 12 p \<longrightarrow>
           walk (kmem k') (cr3 k') v = Some (f + (v AND 0xFFF))))" if p0: "p \<noteq> 0"
  proof -
    obtain i f where i: "unat i < kpages k" "p = kpage k i" "bitmap_entry (kmem k) (kbitmap k) i = 0"
      "kregions k' = insert (p, 4096) (kregions k)" and f: "f AND 0xFFF = 0"
      "\<forall>v. unat v < 0x400000 \<longrightarrow> drop_bit 12 v = drop_bit 12 p \<longrightarrow> kpte k' v = f OR 3 OR 1"
      using h2 [OF p0] by blast
    note a = kpage_addr [OF kb i(1)]
    have three: "(3 :: u32) AND NOT 0xFFF = 0" by simp
    have "walk (kmem k') (cr3 k') v = Some (f + (v AND 0xFFF))" if v: "drop_bit 12 v = drop_bit 12 p" for v
    proof -
      have "unat v < unat p + 4096" using v same_page_iff [of p "kpages k - unat i" v] a(1) i(2) by simp
      then have lv: "unat v < 0x400000" using a(3) i(2) by simp
      then show ?thesis using kpte_walk [of k' v] h(2) f(2) v aligned_frame [OF f(1) three] by (simp add: kinv_def)
    qed
    moreover have "(p, 4096) \<notin> kregions k"
      using i(1-3) kpage_inj [OF kb i(1)] by (auto simp: kregions_eq)
    ultimately show ?thesis using i f(1) a(5) by blast
  qed
  then show ?thesis using h by (intro exI [of _ p] exI [of _ k']) auto
qed

theorem heap_alloc_maps_witness: "\<exists>p k'. heap_alloc 4096 0x100 sample_kernel = Some (p, k') \<and> kinv k'"
  using heap_alloc_maps [OF sample_kernel_inv] by (auto simp: sample_kernel_fields)

section \<open>Requests of two pages\<close>

lemma mark_two_keeps:
  assumes inv: "kbase k" and r: "unat r < kpages k"
    and k1: "k1 = upd_kmem (bitmap_map r (r + 2) 1 (kbitmap k)) k"
  shows "kbase k1" "held k1 A = held k A" "targets_ok k1 = targets_ok k" "kstart k1 = kstart k"
proof -
  note kd = kbaseD [OF inv]
  have out: "kmem k1 x = kmem k x" if "\<not> in_rng (bitmap_entries (kmem k) (kbitmap k)) (4 * (kpages k + 1)) x" for x
  proof (cases "r + 2 \<le> bitmap_size (kmem k) (kbitmap k)")
    case True
    have "unat (r + 2) = unat r + 2" using r kstart_eq [OF inv] unat_u32_add_le [of r 2] by simp
    then have "\<not> in_rng (bitmap_entries (kmem k) (kbitmap k)) (4 * unat (r + 2)) x"
      using that r in_rng_sub [of _ "4 * unat (r + 2)" x "4 * (kpages k + 1)"] by auto
    then show ?thesis using bitmap_map_loop_below [OF kd(5) _, of "r + 2" x 1 r] True leD [OF True]
      by (simp add: k1 bitmap_map_def word_le_nat_alt)
  next
    case False
    then show ?thesis by (simp add: k1 bitmap_map_def not_le)
  qed
  note h = heap_entries_keep [OF inv, of k1, OF _ _ _ _ out]
  show "kbase k1" "held k1 A = held k A" "targets_ok k1 = targets_ok k" "kstart k1 = kstart k"
    by (rule h; simp add: k1)+
qed

lemma heap_alloc_loop_step:
  assumes inv: "kbase k" "targets_ok k" "held k A" and p: "p AND 0xFFF = 0" "p \<noteq> 0" "unat p < 0x400000" "p < a + n"
  shows "\<exists>k2. heap_alloc_loop a n p k = heap_alloc_loop a n (p + 4096) k2"
proof -
  obtain r where r: "unat r < kframes k" "INDEX_GET (ADDR_GET r) = r" "frame_alloc k = Some (ADDR_GET r, frame_set (ADDR_GET r) k)"
    using frame_alloc_low [OF inv(1,3)] by blast
  have "kbase (frame_set (ADDR_GET r) k)" by (rule page_writes_inv [OF inv(1) frame_set_writes [OF inv(1)]]) (simp add: r)
  then obtain k2 where "page_map (ADDR_GET r) p 3 0 (frame_set (ADDR_GET r) k) = Some (p, k2)"
    using page_map_eq [OF _ p(1,3) ADDR_aligned] by blast
  then have "heap_alloc_loop a n p k = heap_alloc_loop a n (p + 4096) k2"
    using p(2,4) r(3) by (subst heap_alloc_loop.simps) (simp add: page_getsize_def PAGE_SIZE_HEX_def)
  then show ?thesis by blast
qed

text \<open>
  a request of two pages goes wrong: pages with a higher index lie lower, yet the two pages mapped start at
  the page of the index found and go up. When the first free run of two entries is not at index 0, the
  second page returned is a page that is handed out already.
\<close>

theorem heap_alloc_two_pages_overlap:
  assumes inv: "kinv k" and find: "bitmap_entrie_find 2 0 (kbitmap k) (kmem k) = Some r"
    and r: "r \<noteq> 0" "unat r < kpages k"
  shows "\<exists>k'. heap_alloc 8192 (kernel_heap k) k = Some (kpage k r, k') \<and> (kpage k r + 4096, 4096) \<in> kregions k"
proof -
  have kb: "kbase k" "held k (in_use k)" "targets_ok k" using inv by (simp_all add: kinv_def)
  note a = kpage_addr [OF kb(1) r(2)] and ks = kstart_eq [OF kb(1)] and kd = kbaseD [OF kb(1)]
  have ur: "unat (r - 1) = unat r - 1" "0 < unat r" using r(1) by (auto simp: unat_minus_one unat_gt_0)
  have r1: "unat (r - 1) < kpages k" using ur r(2) by simp
  note a1 = kpage_addr [OF kb(1) r1]
  have up: "unat (kpage k r + 4096) = unat (kpage k r) + 4096"
    using a(3) unat_u32_add_le [of "kpage k r" 4096] by simp
  have nxt: "kpage k r + 4096 = kpage k (r - 1)"
    using up a(1) a1(1) ur r(2) by (simp add: word_unat_eq_iff diff_mult_distrib)
  have "bitmap_size (kmem k) (kbitmap k) \<noteq> - 1" using kd(7) by (auto simp: word_unat_eq_iff)
  from find_from_correct [OF this, of 0 2 0] find
  have run: "run_at (kmem k) (kbitmap k) 0 2 r" "\<not> run_at (kmem k) (kbitmap k) 0 2 (r - 1)"
    using r(2) ks ur by (auto simp: bitmap_entrie_find_def word_less_nat_alt split: if_splits)
  have "bitmap_entry (kmem k) (kbitmap k) (r - 1) \<noteq> 0"
  proof
    assume "bitmap_entry (kmem k) (kbitmap k) (r - 1) = 0"
    then have "bitmap_entry (kmem k) (kbitmap k) (r - 1 + of_nat l) = 0" if "l < 2" for l
      using that run_at_first [OF run(1)] by (cases l) (auto simp: less_Suc_eq)
    then show False using run(2) by (simp add: run_at_def)
  qed
  then have reg: "(kpage k r + 4096, 4096) \<in> kregions k" unfolding nxt kregions_eq using r1 by blast
  define k1 where "k1 = upd_kmem (bitmap_map r (r + 2) 1 (kbitmap k)) k"
  have "heap_alloc 8192 (kernel_heap k) k = heap_alloc_loop (kpage k r) 8192 (kpage k r) k1"
    using kd(1) find a(4) leD [OF a(5)] unfolding kpage_def
    by (simp add: heap_alloc_def INDEX_GET_def PAGE_SIZE_HEX_def k1_def Let_def)
  moreover have "\<exists>k'. heap_alloc_loop (kpage k r) 8192 (kpage k r) k1 = Some (kpage k r, k')"
  proof -
    have u2: "unat (kpage k r + 8192) = unat (kpage k r) + 8192"
      using a(3) unat_u32_add_le [of "kpage k r" 8192] by simp
    note mk = mark_two_keeps [OF kb(1) r(2) k1_def]
    have "r \<notin> in_use k" using run_at_first [OF run(1)] by (simp add: in_use_def)
    then obtain f k2 where f: "frame_alloc k1 = Some (f, frame_set f k1)" "page_map f (kpage k r) 3 0 (frame_set f k1) = Some (kpage k r, k2)"
      "page_writes k1 k2" "held k2 (insert r (in_use k))" "targets_ok k2"
      using alloc_one [OF mk(1), of "in_use k" r] mk(2-4) kb(2,3) r(2) by (auto simp: kpages_def kpage_def)
    have k2: "heap_alloc_loop (kpage k r) 8192 (kpage k r) k1 = heap_alloc_loop (kpage k r) 8192 (kpage k r + 4096) k2"
      using f(1,2) a(4) u2 by (subst heap_alloc_loop.simps) (simp add: page_getsize_def PAGE_SIZE_HEX_def word_less_nat_alt)
    obtain k3 where k3: "heap_alloc_loop (kpage k r) 8192 (kpage k r + 4096) k2 = heap_alloc_loop (kpage k r) 8192 (kpage k r + 4096 + 4096) k3"
      using heap_alloc_loop_step [OF page_writes_inv [OF mk(1) f(3)] f(5,4), of "kpage k r + 4096" "kpage k r" 8192] a1 u2 up nxt
      by (auto simp: word_less_nat_alt)
    have "heap_alloc_loop (kpage k r) 8192 (kpage k r + 4096 + 4096) k3 = Some (kpage k r, k3)"
      by (subst heap_alloc_loop.simps) (simp add: add.commute)
    then show ?thesis using k2 k3 by auto
  qed
  ultimately show ?thesis using reg by auto
qed

theorem heap_alloc_two_pages_overlap_witness:
  "\<exists>k'. heap_alloc 8192 0x100 sample_kernel = Some (0xF000, k') \<and> (0x10000, 4096) \<in> kregions sample_kernel"
proof -
  have e: "bitmap_entry sample_kmem 0x200 0 = 1" "bitmap_entry sample_kmem 0x200 1 = 0" "bitmap_entry sample_kmem 0x200 2 = 0"
    by (simp_all add: bitmap_entry_def sample_kernel_fields) (simp_all add: sample_kmem_def load32_def)
  have "find_run sample_kmem 0x200 0 2 1 0"
    by (subst find_run.simps, subst find_run.simps) (simp add: e)
  then have "bitmap_entrie_find 2 0 (kbitmap sample_kernel) (kmem sample_kernel) = Some 1"
    unfolding bitmap_entrie_find_def sample_kernel_fields
    by (subst find_from.simps, subst find_from.simps) (simp add: e sample_kernel_fields)
  from heap_alloc_two_pages_overlap [OF sample_kernel_inv this] show ?thesis
    by (simp add: sample_kernel_pages kpage_def sample_kernel_fields ADDR_GET_def PAGE_SIZE_HEX_def)
qed

end
