(* ===== verification/Boot_Heap.thy ===== *)
theory Boot_Heap
  imports Boot_Paging Kheap_Pages
begin

text \<open>
  The kernel heap after the start: the pages it hands out, the invariant of the allocator, which \<open>paging_initialize\<close> establishes, and
  with it the states a client of \<open>kmalloc\<close> and \<open>kfree\<close> can reach.
\<close>

section \<open>The pages of the kernel heap after the start\<close>

lemma bitmap_map_one:
  assumes "word_at m p = at (p + 4096)" "word_at m (p + 4) = at S" "p + 4096 + 4 * S < 4294967296" "j < S"
  shows "bitmap_map (at j) (at j + 1) v (at p) m = store32 m (at (p + 4096 + 4 * j)) v"
proof -
  note ok = fresh_bitmap_ok [OF assms(1-3)]
  have u: "unat (at j) = j" "unat (at j + 1) = j + 1"
    using assms(3,4) unat_of_nat_u32 [of j] unat_of_nat_u32 [of "j + 1"] by (simp_all add: ac_simps)
  have "\<not> at j + 1 > bitmap_size m (at p)" using ok(4) u assms(4) by (simp add: word_less_nat_alt)
  moreover have "at j < at j + 1" using u by (simp add: word_less_nat_alt)
  ultimately show ?thesis
    by (simp add: bitmap_map_def bitmap_map_loop.simps [of m] bitmap_map_loop.simps [of "store32 _ _ _"] bitmap_entrie_set_def ok(3) ac_simps)
qed

lemma boot_tables_keep:
  assumes w: "boot_window K U" and t: "boot_tables K U j m" and a: "a + 4 \<le> boot_end K U"
  shows "boot_tables K U j (store32 m (at a) v)"
proof -
  note l = boot_windowD [OF w]
  have "word_at (store32 m (at a) v) b = word_at m b" if "4096 * boot_frames K U \<le> b" "b + 4 \<le> 4096 * (boot_frames K U + 2)" for b
    using that l(4,8) a by (intro word_at_store) auto
  then show ?thesis using t by (simp add: boot_tables_def del: of_nat_add of_nat_mult)
qed

lemma boot_tables_map:
  assumes w: "boot_window K U" and t: "boot_tables K U j m" and j: "j < U div 4096"
  shows "boot_tables K U (j + 1)
    (store32 m (at (4096 * (boot_frames K U + 1) + 4 * (U div 4096 - j))) (at (4096 * (boot_frames K U + 2 + j)) OR 3))"
proof -
  let ?a = "4096 * (boot_frames K U + 1) + 4 * (U div 4096 - j)"
  let ?m = "store32 m (at ?a) (at (4096 * (boot_frames K U + 2 + j)) OR 3)"
  note l = boot_windowD [OF w]
  have U: "U div 4096 < 1024" using l(2) by simp
  have d: "word_at ?m (4096 * boot_frames K U) = word_at m (4096 * boot_frames K U)"
    using l(4) U by (intro word_at_store) auto
  have "word_at ?m (4096 * (boot_frames K U + 1) + 4 * i) = at (4096 * boot_target K U (j + 1) i) OR 3" if i: "i < 1024" for i
  proof (cases "i = U div 4096 - j")
    case True
    then show ?thesis using j by (simp add: boot_target_def del: of_nat_add of_nat_mult)
  next
    case False
    then have "word_at ?m (4096 * (boot_frames K U + 1) + 4 * i) = word_at m (4096 * (boot_frames K U + 1) + 4 * i)"
      using l(4) U i j by (intro word_at_store) auto
    moreover have "boot_target K U (j + 1) i = boot_target K U j i" using False j by (auto simp: boot_target_def)
    ultimately show ?thesis using t i by (simp add: boot_tables_def del: of_nat_add of_nat_mult)
  qed
  then show ?thesis using t d unfolding boot_tables_def by simp
qed

lemma boot_find:
  assumes w: "boot_window K U" and k: "booted K U j k" and j: "j \<le> U div 4096"
  shows "bitmap_entrie_find 1 0 (heap_bitmap (kmem k) (kernel_heap k)) (kmem k) = Some (at j)"
    "heap_start (kmem k) (kernel_heap k) = at (4096 * (U div 4096))" "heap_bitmap (kmem k) (kernel_heap k) = at (pages_at K U)"
    "kernel_heap k \<noteq> 0"
proof -
  note l = boot_windowD [OF w]
  have m: "boot_mem K U (boot_frames K U + 2 + j) j (kmem k)" and h: "kernel_heap k = at (heap_at K U)" using k by (simp_all add: booted_def)
  show hb: "heap_bitmap (kmem k) (kernel_heap k) = at (pages_at K U)" using m by (simp add: h heap_bitmap_def boot_mem_def)
  show "heap_start (kmem k) (kernel_heap k) = at (4096 * (U div 4096))" using m by (simp add: h heap_start_def boot_mem_def mult.commute)
  show "kernel_heap k \<noteq> 0" unfolding h by (rule at_nonzero) (use l(3,4,6-8) in linarith)+
  show "bitmap_entrie_find 1 0 (heap_bitmap (kmem k) (kernel_heap k)) (kmem k) = Some (at j)" unfolding hb
  proof (rule find_first)
    show "word_at (kmem k) (pages_at K U) = at (pages_at K U + 4096)" "word_at (kmem k) (pages_at K U + 4) = at (U div 4)"
      using m by (simp_all add: boot_mem_def)
    show "pages_at K U + 4096 + 4 * (U div 4) < 4294967296" using l(2,4,7,8) by simp
    show "j < U div 4" using j l(12) by simp
    have "4 * (j + 1) \<le> U div 128" using j l(5) by simp
    then show "word_at (kmem k) (pages_at K U + 4096 + 4 * j) = 0" using m by (simp add: boot_mem_def)
    show "\<And>i. i < j \<Longrightarrow> word_at (kmem k) (pages_at K U + 4096 + 4 * i) \<noteq> 0" using m unfolding boot_mem_def by blast
  qed
qed


lemma heap_alloc_step:
  assumes w: "boot_window K U" and k: "booted K U j k" and j: "j < U div 4096"
  shows "\<exists>k'. heap_alloc 0x1000 (kernel_heap k) k = Some (at (4096 * (U div 4096 - j)), k') \<and> booted K U (j + 1) k'"
proof -
  let ?S = "U div 4096" and ?f = "boot_frames K U + 2 + j" and ?a = "at (4096 * (U div 4096 - j))"
  let ?m1 = "store32 (kmem k) (at (pages_at K U + 4096 + 4 * j)) 1"
  let ?m2 = "store32 ?m1 (at (frames_at K + 4096 + 4 * ?f)) 1"
  let ?m3 = "store32 ?m2 (at (4096 * (boot_frames K U + 1) + 4 * (?S - j))) (at (4096 * ?f) OR 3)"
  note l = boot_windowD [OF w]
  note f = boot_find [OF w k less_imp_le [OF j]]
  have b: "frame_bitmap k = at (frames_at K)" "cr3 k = at (4096 * boot_frames K U)" "boot_mem K U ?f j (kmem k)" "boot_tables K U j (kmem k)"
    using k by (simp_all add: booted_def)
  have bnd: "4 * (?f + 1) \<le> U div 128" "4 * (j + 1) \<le> U div 128" "?S < 1024" "4 * (boot_frames K U + 2 + j) \<le> U div 128" using l(2,5) j by simp_all
  have u: "unat (at (4096 * i)) = 4096 * i" if "i \<le> ?S" for i using that bnd(3) by (intro unat_of_nat_u32) simp
  have addr: "at (4096 * ?S) - ADDR_GET (at j) = ?a" 
  proof -
    have "4096 * ?S = 4096 * (?S - j) + 4096 * j" using j by (simp add: diff_mult_distrib2)
    then have "at (4096 * ?S) = ?a + at (4096 * j)" by (metis of_nat_add)
    then show ?thesis by (simp add: ADDR_GET_def PAGE_SIZE_HEX_def)
  qed
  have ua: "unat ?a = 4096 * (?S - j)" by (rule u) simp
  have "?S - j < 1048575" using bnd(3) by simp
  then have "unat (?a + 0x1000) = 4096 * (?S - j) + 4096" using unat_u32_add_le [of ?a "0x1000"] ua by simp
  then have a: "\<not> ?a > at (4096 * ?S)" "?a < ?a + 0x1000" "\<not> ?a + page_getsize < ?a + 0x1000"
    using ua u [of ?S] diff_le_self [of ?S j] by (simp_all add: word_less_nat_alt not_less page_getsize_def PAGE_SIZE_HEX_def del: of_nat_mult)
  have anz: "?a \<noteq> 0" using j bnd(3) by (intro at_nonzero) simp_all
  have ne: "at (4096 * ?S) \<noteq> ADDR_GET (at j)" using addr anz by (metis diff_self)
  have m1: "bitmap_map (at j) (at j + 1) 1 (at (pages_at K U)) (kmem k) = ?m1"
    by (rule bitmap_map_one [where S = "U div 4"]) (use b(3) l(2,4,7,8,12) j in \<open>simp_all add: boot_mem_def\<close>)
  have bm: "boot_mem K U (?f + 1) (j + 1) ?m2" by (intro boot_mem_frame boot_mem_page w b(3) bnd)
  have t2: "boot_tables K U j ?m2"
    by (intro boot_tables_keep w b(4)) (use bnd l(3,6,7) in auto)
  have bm3: "boot_mem K U (?f + 1) (j + 1) ?m3"
    by (rule boot_mem_cong [OF w bm bnd(1,2)]) (use l(4,8) bnd(3) in \<open>auto intro!: store_at_outside simp del: of_nat_add of_nat_mult\<close>)
  let ?k1 = "k\<lparr>kmem := ?m1\<rparr>"
  have "frame_alloc ?k1 = Some (at (4096 * ?f), ?k1\<lparr>kmem := ?m2\<rparr>)"
    using boot_frame_alloc [OF w _ bnd(1), of "j + 1" ?k1] boot_mem_page [OF w b(3) bnd(4,2)] b(1) by simp
  moreover have "page_map (at (4096 * ?f)) ?a 3 0 (?k1\<lparr>kmem := ?m2\<rparr>) = Some (?a, k\<lparr>kmem := ?m3\<rparr>)"
    using page_map_boot [of "?k1\<lparr>kmem := ?m2\<rparr>" "4096 * boot_frames K U" "boot_frames K U + 1" "?S - j" ?f] b(2) t2 bnd(3) l(4,7,8)
      at_nonzero [of "4096 * boot_frames K U"] by (simp add: boot_tables_def del: of_nat_add of_nat_mult)
  ultimately have "heap_alloc_loop ?a 0x1000 ?a ?k1 = Some (?a, k\<lparr>kmem := ?m3\<rparr>)"
    using a anz by (subst heap_alloc_loop.simps, simp, subst heap_alloc_loop.simps) (simp del: of_nat_add of_nat_mult)
  then have "heap_alloc 0x1000 (kernel_heap k) k = Some (?a, k\<lparr>kmem := ?m3\<rparr>)"
    using f m1 a anz addr ne by (simp add: heap_alloc_def Let_def INDEX_GET_def PAGE_SIZE_HEX_def upd_kmem_def del: of_nat_add of_nat_mult)
  moreover have "booted K U (j + 1) (k\<lparr>kmem := ?m3\<rparr>)"
    using k bm3 boot_tables_map [OF w t2 j] by (simp add: booted_def del: of_nat_add of_nat_mult)
  ultimately show ?thesis by blast
qed

lemma heap_alloc_none:
  assumes w: "boot_window K U" and k: "booted K U (U div 4096) k"
  shows "heap_alloc 0x1000 (kernel_heap k) k = Some (0, print ''-- NO FREE MEMORY --'' k)"
proof -
  note f = boot_find [OF w k order_refl]
  have "at (4096 * (U div 4096)) - ADDR_GET (at (U div 4096)) = 0" by (simp add: ADDR_GET_def PAGE_SIZE_HEX_def)
  then show ?thesis using f by (simp add: heap_alloc_def INDEX_GET_def PAGE_SIZE_HEX_def upd_kmem_def del: of_nat_mult)
qed


text \<open>Requests for one page, one after the other.\<close>

fun heap_pages :: "nat \<Rightarrow> kernel \<Rightarrow> (u32 list \<times> kernel) option" where
  "heap_pages 0 k = Some ([], k)"
| "heap_pages (Suc t) k = do {
     (addr, k1) \<leftarrow> heap_alloc 0x1000 (kernel_heap k) k;
     (addrs, k2) \<leftarrow> heap_pages t k1;
     Some (addr # addrs, k2)
   }"

lemma heap_pages_booted:
  assumes w: "boot_window K U" and "booted K U j k" "j + t \<le> U div 4096"
  shows "\<exists>k'. heap_pages t k = Some (map (\<lambda>i. at (4096 * (U div 4096 - i))) [j..<j + t], k') \<and> booted K U (j + t) k'"
  using assms(2,3)
proof (induction t arbitrary: j k)
  case (Suc t)
  then obtain k1 where "heap_alloc 0x1000 (kernel_heap k) k = Some (at (4096 * (U div 4096 - j)), k1)" "booted K U (j + 1) k1"
    using heap_alloc_step [OF w, of j k] by auto
  then show ?case using Suc.IH [of "j + 1" k1] Suc.prems(2) by (fastforce simp: upt_conv_Cons simp del: of_nat_mult upt_Suc)
qed simp


section \<open>The invariant of the kernel heap after the start\<close>

lemma booted_areas:
  assumes w: "boot_window K U" and k: "booted K U 0 k"
  shows "kstart k = at (U div 4096 * 4096)" "kbitmap k = at (pages_at K U)" "kpages k = U div 4096" "kframes k = boot_frames K U + U div 4096 + 3"
    "bitmap_entries (kmem k) (kbitmap k) = at (pages_at K U + 4096)" "unat (bitmap_size (kmem k) (kbitmap k)) = U div 4"
    "bitmap_entries (kmem k) (frame_bitmap k) = at (frames_at K + 4096)" "unat (bitmap_size (kmem k) (frame_bitmap k)) = U div 4"
    "kpt (kmem k) (cr3 k) = at (4096 * (boot_frames K U + 1))" "bitmap_ok (kmem k) (kbitmap k)" "unat (kstart k) = U div 4096 * 4096"
    "load32 (kmem k) (cr3 k) AND 1 = 1"
proof -
  note l = boot_windowD [OF w]
  have b: "frame_bitmap k = at (frames_at K)" "kernel_heap k = at (heap_at K U)" "cr3 k = at (4096 * boot_frames K U)"
    "boot_mem K U (boot_frames K U + 2) 0 (kmem k)" "boot_tables K U 0 (kmem k)" using k by (simp_all add: booted_def)
  show s: "kstart k = at (U div 4096 * 4096)" "kbitmap k = at (pages_at K U)"
    using b(4) by (simp_all add: b(2) heap_start_def heap_bitmap_def boot_mem_def)
  show us: "unat (kstart k) = U div 4096 * 4096" unfolding s using l(2) by (intro unat_of_nat_u32) simp
  then show "kpages k = U div 4096" by (simp add: kpages_def)
  moreover have "unat (cr3 k) = 4096 * boot_frames K U" unfolding b(3) using l(4) by (intro unat_of_nat_u32) simp
  ultimately show "kframes k = boot_frames K U + U div 4096 + 3" by (simp add: kframes_def)
  have p: "pages_at K U + 4096 + 4 * (U div 4) < 4294967296" "frames_at K + 4096 + 4 * (U div 4) < 4294967296" using l(2,3,4,6-8) by simp_all
  have h: "word_at (kmem k) (pages_at K U) = at (pages_at K U + 4096)" "word_at (kmem k) (pages_at K U + 4) = at (U div 4)"
    "word_at (kmem k) (frames_at K) = at (frames_at K + 4096)" "word_at (kmem k) (frames_at K + 4) = at (U div 4)"
    using b(4) unfolding boot_mem_def by blast+
  note hp = fresh_bitmap_ok [OF h(1,2) p(1)] and fp = fresh_bitmap_ok [OF h(3,4) p(2)]
  show "bitmap_entries (kmem k) (kbitmap k) = at (pages_at K U + 4096)" "unat (bitmap_size (kmem k) (kbitmap k)) = U div 4"
    "bitmap_ok (kmem k) (kbitmap k)" unfolding s(2) by (rule hp)+
  show "bitmap_entries (kmem k) (frame_bitmap k) = at (frames_at K + 4096)" "unat (bitmap_size (kmem k) (frame_bitmap k)) = U div 4"
    unfolding b(1) by (rule fp)+
  have t: "load32 (kmem k) (cr3 k) = at (4096 * (boot_frames K U + 1)) OR 3" using b(5) unfolding b(3) boot_tables_def by blast
  show "kpt (kmem k) (cr3 k) = at (4096 * (boot_frames K U + 1))" "load32 (kmem k) (cr3 k) AND 1 = 1"
    using frame_number(2,3) [of "boot_frames K U + 1"] unfolding kpt_def t by (simp_all only: USED_def)
qed

lemma booted_kbase:
  assumes w: "boot_window K U" and k: "booted K U 0 k"
  shows "kbase k"
proof -
  note l = boot_windowD [OF w] and a = booted_areas [OF w k]
  have b: "frame_bitmap k = at (frames_at K)" "kernel_heap k = at (heap_at K U)" "cr3 k = at (4096 * boot_frames K U)" "paging_state k = 1"
    using k by (simp_all add: booted_def)
  have q: "4 * (U div 4096 + 1) \<le> U div 128" "4 * (boot_frames K U + U div 4096 + 3) \<le> U div 128" using l(5) by simp_all
  have r: "in_rng (at (pages_at K U + 4096)) (4 * (U div 4096 + 1)) x \<longleftrightarrow> pages_at K U + 4096 \<le> unat x \<and> unat x < pages_at K U + 4096 + 4 * (U div 4096 + 1)"
    "in_rng (at (frames_at K + 4096)) (4 * (boot_frames K U + U div 4096 + 3)) x \<longleftrightarrow>
       frames_at K + 4096 \<le> unat x \<and> unat x < frames_at K + 4096 + 4 * (boot_frames K U + U div 4096 + 3)"
    "in_rng (at (4096 * (boot_frames K U + 1))) 4096 x \<longleftrightarrow> 4096 * (boot_frames K U + 1) \<le> unat x \<and> unat x < 4096 * (boot_frames K U + 1) + 4096"
    "in_rng (at (heap_at K U)) 13 x \<longleftrightarrow> heap_at K U \<le> unat x \<and> unat x < heap_at K U + 13"
    "in_rng (at (pages_at K U)) 8 x \<longleftrightarrow> pages_at K U \<le> unat x \<and> unat x < pages_at K U + 8"
    "in_rng (at (frames_at K)) 8 x \<longleftrightarrow> frames_at K \<le> unat x \<and> unat x < frames_at K + 8"
    "in_rng (at (4096 * boot_frames K U)) 4096 x \<longleftrightarrow> 4096 * boot_frames K U \<le> unat x \<and> unat x < 4096 * boot_frames K U + 4096" for x
    using l(3,4,6-8) q by - (rule in_rng_at, simp)+
  have o: "frames_at K + 8 \<le> frames_at K + 4096" "frames_at K + 4096 + 4 * (boot_frames K U + U div 4096 + 3) \<le> heap_at K U"
    "heap_at K U + 13 \<le> pages_at K U" "pages_at K U + 8 \<le> pages_at K U + 4096"
    "pages_at K U + 4096 + 4 * (U div 4096 + 1) \<le> 4096 * boot_frames K U" "4096 * boot_frames K U + 4096 \<le> 4096 * (boot_frames K U + 1)"
    using l(3,6-8) q by simp_all
  have sep: "\<not> written k x" if "kept k x" for x
  proof -
    define y where "y = unat x"
    have p: "heap_at K U \<le> y \<and> y < heap_at K U + 13 \<or> pages_at K U \<le> y \<and> y < pages_at K U + 8 \<or>
      frames_at K \<le> y \<and> y < frames_at K + 8 \<or> 4096 * boot_frames K U \<le> y \<and> y < 4096 * boot_frames K U + 4096"
      using that unfolding kept_def a(2) unfolding b r y_def by blast
    have "\<not> (pages_at K U + 4096 \<le> y \<and> y < pages_at K U + 4096 + 4 * (U div 4096 + 1))"
      "\<not> (frames_at K + 4096 \<le> y \<and> y < frames_at K + 4096 + 4 * (boot_frames K U + U div 4096 + 3))"
      "\<not> (4096 * (boot_frames K U + 1) \<le> y \<and> y < 4096 * (boot_frames K U + 1) + 4096)"
      using p o by auto
    then show ?thesis unfolding written_def Let_def a(3-5,7,9) r y_def by blast
  qed
  have dj: "disj (at m) i (at n) j" if "m + i \<le> n \<or> n + j \<le> m" "0 < i" "0 < j" "m + i \<le> 4294967295" "n + j \<le> 4294967295" for m n i j
  proof -
    have "unat (at m) = m" "unat (at n) = n" using that(2-5) by (simp_all add: unat_of_nat_u32)
    then show ?thesis using that disj_lin [of "at m" i "at n" j] disj_sym [OF disj_lin [of "at n" j "at m" i]] by auto
  qed
  have d: "disj (at (pages_at K U + 4096)) (4 * (U div 4096 + 1)) (at (frames_at K + 4096)) (4 * (boot_frames K U + U div 4096 + 3))"
    "disj (at (pages_at K U + 4096)) (4 * (U div 4096 + 1)) (at (4096 * (boot_frames K U + 1))) 4096"
    "disj (at (frames_at K + 4096)) (4 * (boot_frames K U + U div 4096 + 3)) (at (4096 * (boot_frames K U + 1))) 4096"
    by (rule dj; use o l(4) in auto)+
  have "kernel_heap k \<noteq> 0" unfolding b by (rule at_nonzero) (use l(3,4,6-8) in linarith)+
  moreover have "kstart k AND 0xFFF = 0" unfolding aligned_iff a(11) by simp
  moreover have "kstart k < 0x400000" using a(11) l(2) by (simp add: word_less_nat_alt)
  moreover have "bitmap_size (kmem k) (frame_bitmap k) \<noteq> - 1" using a(8) l(2) by (auto dest: arg_cong [of _ _ unat])
  moreover have u4: "U div 4 < 0x100000" using l(2) by (simp add: less_mult_imp_div_less)
  moreover have "boot_frames K U + U div 4096 + 3 < 0x100000" using u4 l(12) by simp
  moreover have "U div 4096 < U div 4" "boot_frames K U + U div 4096 + 3 \<le> U div 4" using l(12) by simp_all
  ultimately show ?thesis unfolding kbase_def Let_def a(3,4,6-12) using sep d b(4) a(2,5,10)
    by simp
qed

lemma booted_kinv:
  assumes w: "boot_window K U" and k: "booted K U 0 k"
  shows "kinv k" "kregions k = {}"
proof -
  note l = boot_windowD [OF w] and a = booted_areas [OF w k]
  have b: "cr3 k = at (4096 * boot_frames K U)" "boot_mem K U (boot_frames K U + 2) 0 (kmem k)" "boot_tables K U 0 (kmem k)"
    using k by (simp_all add: booted_def)
  have c: "unat (cr3 k) div 4096 = boot_frames K U"
    unfolding b(1) using l(4) unat_of_nat_u32 [of "4096 * boot_frames K U"] by simp
  have e: "bitmap_entry (kmem k) (kbitmap k) i = 0" if "unat i < kpages k" for i
  proof -
    have "\<forall>i. 0 \<le> i \<longrightarrow> 4 * (i + 1) \<le> U div 128 \<longrightarrow> word_at (kmem k) (pages_at K U + 4096 + 4 * i) = 0"
      using b(2) unfolding boot_mem_def by (elim conjE)
    moreover have "4 * (unat i + 1) \<le> U div 128" using that l(5) unfolding a(3) by simp
    ultimately have "word_at (kmem k) (pages_at K U + 4096 + 4 * unat i) = 0" by blast
    then show ?thesis by (simp add: bitmap_entry_def a(5))
  qed
  then show "kregions k = {}" by (auto simp: kregions_eq)
  have fr: "f < boot_frames K U + 2" if "f < kframes k" "frame_used k f" for f
  proof (rule ccontr)
    assume "\<not> ?thesis"
    then have "boot_frames K U + 2 \<le> f" "4 * (f + 1) \<le> U div 128" using that(1) l(5) unfolding a(4) by simp_all
    moreover have "\<forall>i. boot_frames K U + 2 \<le> i \<longrightarrow> 4 * (i + 1) \<le> U div 128 \<longrightarrow> word_at (kmem k) (frames_at K + 4096 + 4 * i) = 0"
      using b(2) unfolding boot_mem_def by (elim conjE)
    ultimately have "word_at (kmem k) (frames_at K + 4096 + 4 * f) = 0" by blast
    then show False using that(2) by (simp add: frame_used_def bitmap_entry_def a(7))
  qed
  have "held k (in_use k)" unfolding held_def c
  proof (intro allI impI disjI1)
    show "f < boot_frames K U + 2" if "f < kframes k" "frame_used k f" for f by (rule fr [OF that])
  qed
  moreover have "targets_ok k" unfolding targets_ok_def
  proof (intro allI impI)
    fix v assume v: "v AND 0xFFF = 0" "v \<le> kstart k"
    then have lo: "unat v < 0x400000" "unat v div 4096 \<le> U div 4096" using a(11) l(2) by (auto simp: word_le_nat_alt)
    let ?i = "unat v div 4096"
    have i: "?i < 1024" using lo(1) by simp
    have "drop_bit 12 v = drop_bit 12 (at (4096 * ?i))"
      using i by (simp add: word_unat_eq_iff unat_drop_bit_eq drop_bit_eq_div unat_div unat_of_nat_u32 del: of_nat_mult)
    then have "TLB_GET v = at ?i" using page_eq_iff [of v "at (4096 * ?i)"] page_number [OF i] by simp
    moreover have "word_at (kmem k) (4096 * (boot_frames K U + 1) + 4 * ?i) = at (4096 * ?i) OR 3"
      using b(3) i unfolding boot_tables_def boot_target_0 by blast
    ultimately have "kpte k v = at (4096 * ?i) OR 3" unfolding a(9) by (simp add: ac_simps)
    then have "unat (kpte k v) div 4096 = unat (INDEX_GET (at (4096 * ?i)))"
      using masked_index [of "kpte k v"] frame_number(2) [of ?i] by (simp add: PHY_GET_def)
    also have "\<dots> = ?i" using i unat_of_nat_u32 [of "4096 * ?i"] by (simp add: INDEX_GET_def PAGE_SIZE_HEX_def unat_div)
    finally show "pframe k v < kframes k" using lo(2) by (simp add: pframe_def a(4))
  qed
  ultimately show "kinv k" using booted_kbase [OF assms] by (simp add: kinv_def)
qed

section \<open>Clients of the allocator\<close>

text \<open>
  The states a client reaches from the start of the kernel by requests of at most one page, by releasing its blocks and by writing
  into them; the second argument holds the blocks in its hands with their sizes.
\<close>

inductive heap_reach :: "kmem_state \<Rightarrow> (u32 \<rightharpoonup> u32) \<Rightarrow> bool" where
  start: "boot_window K U \<Longrightarrow> kernel_pointer k = of_nat K \<Longrightarrow> paging_state k = 0 \<Longrightarrow>
    paging_initialize page_fault lo (of_nat U) k = Some k' \<Longrightarrow> \<not> l_initialized s \<Longrightarrow> heap_reach (s\<lparr>pages := k'\<rparr>) Map.empty"
| malloc: "heap_reach s B \<Longrightarrow> unat n \<le> 4064 \<Longrightarrow> kmalloc n s = Some (p, s') \<Longrightarrow> heap_reach s' (if p = 0 then B else B(p \<mapsto> n))"
| free: "heap_reach s B \<Longrightarrow> B p = Some n \<Longrightarrow> kfree p s = Some s' \<Longrightarrow> heap_reach s' (B(p := None))"
| store: "heap_reach s B \<Longrightarrow> B p = Some n \<Longrightarrow> in_rng p (unat n) x \<Longrightarrow> heap_reach (upd_mem (\<lambda>m. m(x := v)) s) B"

lemma kheap_ok_paging: "kheap_ok s T F \<Longrightarrow> paging_state (pages s) \<noteq> 0"
  by (simp add: kheap_ok_def kinv_def kbase_def Let_def)

lemma heap_reach_ok: "heap_reach s B \<Longrightarrow> \<exists>T F. kheap_ok s T F \<and> blocks s T = B"
proof (induction rule: heap_reach.induct)
  case (start K U k page_fault lo k' s)
  then have "booted K U 0 k'" using paging_initialize_booted [of K U k page_fault lo] by auto
  then have "kheap_ok (s\<lparr>pages := k'\<rparr>) {} F" for F using booted_kinv(1) [OF start(1)] start(5) by (simp add: kheap_ok_def)
  moreover have "blocks (s\<lparr>pages := k'\<rparr>) {} = Map.empty" by (rule ext) (simp add: live_def)
  ultimately show ?case by blast
next
  case (malloc s B n p s')
  then obtain T F where ok: "kheap_ok s T F" "blocks s T = B" by blast
  have "malloc kernel_hooks n s = Some (p, s')" using malloc(3) kheap_ok_paging [OF ok(1)] by (simp add: kmalloc_def)
  then show ?case using kernel_malloc [OF ok(1), of n] one_page [OF malloc(2)] ok(2) by (auto split: if_splits)
next
  case (free s B p n s')
  then obtain T F where ok: "kheap_ok s T F" "blocks s T = B" by blast
  have "Liballoc.free kernel_hooks p s = Some s'" using free(3) kheap_ok_paging [OF ok(1)] by (simp add: kfree_def)
  moreover obtain s2 T' F' where f: "Liballoc.free kernel_hooks p s = Some s2" "kheap_ok s2 T' F'" "blocks s2 T' = (blocks s T)(p := None)"
    using kernel_free [OF ok(1), of p n] free(2) ok(2) by blast
  ultimately have "kheap_ok s' T' F'" "blocks s' T' = B(p := None)" using ok(2) by simp_all
  then show ?case by blast
next
  case (store s B p n x v)
  then obtain T F where ok: "kheap_ok s T F" "blocks s T = B" by blast
  have "(m(x := v)) y = m y" if "\<not> in_rng p (unat n) y" for y :: u32 and m :: mem using that store(3) by auto
  then show ?case using kernel.write_ok [unfolded kheap_ok_eq, OF ok(1), of p n "\<lambda>m. m(x := v)"] store(2) ok(2) by auto
qed

section \<open>Properties\<close>






text \<open>
  the bitmap of the frames takes 4 bytes for each entry but reserves one bit for it: after the start the heap structure and the
  bitmap of the heap lie inside its entries.
\<close>

theorem boot_overlap:
  assumes "boot_window K U" and "kernel_pointer k = of_nat K" and "paging_state k = 0"
  shows "\<exists>k'. paging_initialize page_fault lo (of_nat U) k = Some k' \<and>
    in_rng (bitmap_entries (kmem k') (frame_bitmap k')) (4 * unat (bitmap_size (kmem k') (frame_bitmap k'))) (kernel_heap k')"
proof -
  obtain k' where k': "paging_initialize page_fault lo (of_nat U) k = Some k'" "booted K U 0 k'"
    using paging_initialize_booted [OF assms] by blast
  note a = booted_areas [OF assms(1) k'(2)] and l = boot_windowD [OF assms(1)]
  have "kernel_heap k' = at (frames_at K + 4096) + at (U div 128)" using k'(2) l(6) by (simp add: booted_def)
  moreover have "unat (at (U div 128)) < 4 * (U div 4)"
  proof -
    have "U div 128 \<le> U div 4" "0 < U div 4" using l(12) by (simp_all add: div_le_mono2)
    moreover have "unat (at (U div 128)) = U div 128" by (rule unat_of_nat_u32) (use l(2) in simp)
    ultimately show ?thesis by linarith
  qed
  ultimately have "in_rng (at (frames_at K + 4096)) (4 * (U div 4)) (kernel_heap k')" by (simp only: in_rng_offset)
  then have "in_rng (bitmap_entries (kmem k') (frame_bitmap k')) (4 * unat (bitmap_size (kmem k') (frame_bitmap k'))) (kernel_heap k')"
    unfolding a(7,8) .
  with k'(1) show ?thesis by (intro exI conjI)
qed

theorem boot_overlap_witness:
  "\<exists>k'. paging_initialize 0x5000 0 0x3FC00 sample_start = Some k' \<and>
    in_rng (bitmap_entries (kmem k') (frame_bitmap k')) (4 * unat (bitmap_size (kmem k') (frame_bitmap k'))) (kernel_heap k')"
  using boot_overlap [OF sample_window sample_start_fields, of "0x5000" 0] by simp

end
