(* ===== verification/Rtc.thy ===== *)
theory Rtc
  imports Portio
begin

text \<open>
  The real-time clock, \<open>kernel/arch/i386/time.c\<close>: the register accesses, the two readings, the conversion
  from BCD and the loop that is meant to wait for the readings to agree.  The clock is the device of the bus;
  \<open>steady\<close> describes one that shows a fixed time.
\<close>

section \<open>Reading the clock\<close>

record rtc =
  century_register :: u32
  second :: u8
  minute :: u8
  hour :: u8
  day :: u8
  month :: u8
  year :: u32

definition CMOS_ADDRESS :: u16 where "CMOS_ADDRESS = 0x70"
definition CMOS_DATA :: u16 where "CMOS_DATA = 0x71"

definition CURRENT_YEAR :: u32 where "CURRENT_YEAR = 2014"

definition get_update_in_progress_flag :: "bus \<Rightarrow> u32 \<times> bus" where
  "get_update_in_progress_flag b =
     (let (v, b) = inport8 CMOS_DATA (outport8 CMOS_ADDRESS 0x0A b) in (ucast v AND 0x80, b))"

definition get_RTC_register :: "u32 \<Rightarrow> bus \<Rightarrow> u8 \<times> bus" where
  "get_RTC_register reg b = inport8 CMOS_DATA (outport8 CMOS_ADDRESS (ucast reg) b)"

partial_function (option) wait_update :: "bus \<Rightarrow> bus option" where
  "wait_update b = (let (f, b) = get_update_in_progress_flag b in if f \<noteq> 0 then wait_update b else Some b)"

text \<open>One reading of all registers into the globals; the century goes to a local variable.\<close>

definition read_registers :: "u8 \<Rightarrow> rtc \<Rightarrow> bus \<Rightarrow> u8 \<times> rtc \<times> bus" where
  "read_registers century r b =
     (let (s, b) = get_RTC_register 0x00 b; (mi, b) = get_RTC_register 0x02 b; (h, b) = get_RTC_register 0x04 b;
          (d, b) = get_RTC_register 0x07 b; (mo, b) = get_RTC_register 0x08 b; (y, b) = get_RTC_register 0x09 b;
          r = r\<lparr>second := s, minute := mi, hour := h, day := d, month := mo, year := ucast y\<rparr>
      in if century_register r \<noteq> 0 then let (c, b) = get_RTC_register (century_register r) b in (c, r, b)
         else (century, r, b))"

definition differs :: "u8 \<Rightarrow> rtc \<Rightarrow> u8 \<Rightarrow> rtc \<Rightarrow> bool" where
  "differs last_century prev century r \<longleftrightarrow> second prev \<noteq> second r \<or> minute prev \<noteq> minute r \<or> hour prev \<noteq> hour r \<or>
     day prev \<noteq> day r \<or> month prev \<noteq> month r \<or> ucast (ucast (year prev) :: u8) \<noteq> year r \<or> last_century \<noteq> century"

text \<open>The loop that waits for the two readings to agree reads register B and changes neither of them.\<close>

partial_function (option) wait_agree :: "bool \<Rightarrow> u8 \<Rightarrow> bus \<Rightarrow> (u8 \<times> bus) option" where
  "wait_agree different registerB b =
     (if different then let (rb, b) = get_RTC_register 0x0B b in wait_agree different rb b else Some (registerB, b))"

definition from_bcd :: "u8 \<Rightarrow> u8" where
  "from_bcd v = (v AND 0x0F) + (v div 16) * 10"

definition convert_bcd :: "rtc \<Rightarrow> rtc" where
  "convert_bcd r = r\<lparr>second := from_bcd (second r), minute := from_bcd (minute r),
     hour := ((hour r AND 0x0F) + ((hour r AND 0x70) div 16) * 10) OR (hour r AND 0x80),
     day := from_bcd (day r), month := from_bcd (month r), year := (year r AND 0x0F) + (year r div 16) * 10\<rparr>"

text \<open>
  \<open>registerB\<close> and \<open>century\<close> are not initialised: \<open>rb0\<close> and \<open>c0\<close> are the values they happen to have.
\<close>

definition read_rtc :: "u8 \<Rightarrow> u8 \<Rightarrow> rtc \<Rightarrow> bus \<Rightarrow> (rtc \<times> bus) option" where
  "read_rtc rb0 c0 r b = do {
     b \<leftarrow> wait_update b;
     let (last_century, prev, b) = read_registers c0 r b;
     b \<leftarrow> wait_update b;
     let (century, r, b) = read_registers last_century prev b;
     (registerB, b) \<leftarrow> wait_agree (differs last_century prev century r) rb0 b;
     let (century, r) = (if registerB AND 0x04 = 0
       then (if century_register r \<noteq> 0 then from_bcd century else century, convert_bcd r) else (century, r));
     let r = (if registerB AND 0x02 = 0 \<and> hour r AND 0x80 \<noteq> 0
       then r\<lparr>hour := ((hour r AND 0x7F) + 12) mod 24\<rparr> else r);
     let r = (if century_register r \<noteq> 0 then r\<lparr>year := year r + ucast century * 100\<rparr>
       else let y = year r + (CURRENT_YEAR div 100) * 100 in r\<lparr>year := if y < CURRENT_YEAR then y + 100 else y\<rparr>);
     Some (r, b)
   }"

definition time_get :: "u8 \<Rightarrow> u8 \<Rightarrow> u32 \<Rightarrow> rtc \<Rightarrow> bus \<Rightarrow> (u32 \<times> rtc \<times> bus) option" where
  "time_get rb0 c0 type r b = do {
     (r, b) \<leftarrow> read_rtc rb0 c0 r b;
     v \<leftarrow> (if type = 0 then Some (ucast (second r)) else if type = 1 then Some (ucast (minute r))
       else if type = 2 then Some (ucast (hour r)) else if type = 3 then Some (ucast (day r))
       else if type = 4 then Some (ucast (month r)) else if type = 5 then Some (year r) else None);
     Some (v, r, b)
   }"

declare wait_update.simps [code] wait_agree.simps [code]

section \<open>A clock that shows a time\<close>

text \<open>The register selected last.\<close>

fun selected :: "io_event list \<Rightarrow> u8" where
  "selected [] = 0"
| "selected (Out8 p v # h) = (if p = CMOS_ADDRESS then v else selected h)"
| "selected (_ # h) = selected h"

text \<open>\<open>steady regs d\<close>: the data port answers with the selected register, and the time stands still meanwhile.\<close>

definition steady :: "(u8 \<Rightarrow> u8) \<Rightarrow> (io_event list \<Rightarrow> u16 \<Rightarrow> u8) \<Rightarrow> bool" where
  "steady regs d \<longleftrightarrow> (\<forall>h. d h CMOS_DATA = regs (selected h))"

lemma get_RTC_register_steady:
  "steady regs (device b) \<Longrightarrow> \<exists>b'. get_RTC_register reg b = (regs (ucast reg), b') \<and> device b' = device b"
  by (simp add: get_RTC_register_def inport8_def outport8_def steady_def Let_def)

lemma wait_update_steady:
  assumes "steady regs (device b)" "regs 0x0A AND 0x80 = 0"
  shows "\<exists>b'. wait_update b = Some b' \<and> device b' = device b"
proof -
  have "ucast (regs 0x0A) AND (0x80 :: u32) = ucast (regs 0x0A AND 0x80)"
    by (rule bit_word_eqI) (auto simp: bit_and_iff bit_ucast_iff dest: bit_imp_le_length)
  then show ?thesis using assms
    by (subst wait_update.simps)
      (simp add: get_update_in_progress_flag_def inport8_def outport8_def steady_def Let_def)
qed

lemma read_registers_steady:
  assumes "steady regs (device b)" "century_register r = 0"
  shows "\<exists>b'. read_registers c r b = (c, r\<lparr>second := regs 0x00, minute := regs 0x02, hour := regs 0x04, day := regs 0x07,
      month := regs 0x08, year := ucast (regs 0x09)\<rparr>, b') \<and> device b' = device b"
  using assms by (simp add: read_registers_def get_RTC_register_def inport8_def outport8_def steady_def Let_def)

definition bcd :: "nat \<Rightarrow> u8" where
  "bcd n = of_nat (16 * (n div 10) + n mod 10)"

lemma bcd_cases:
  "\<forall>n \<in> set [0..<100]. from_bcd (bcd n) = of_nat n"
  "\<forall>n \<in> set [0..<24]. ((bcd n AND 0x0F) + ((bcd n AND 0x70) div 16) * 10) OR (bcd n AND 0x80) = of_nat n"
  "\<forall>n \<in> set [0..<24]. (of_nat n :: u8) AND 0x80 = 0"
  "\<forall>n \<in> set [0..<100]. (ucast (bcd n) AND 0x0F) + (ucast (bcd n) div 16) * 10 = (of_nat n :: u32)"
  by code_simp+

lemma from_bcd_bcd:
  "n < 100 \<Longrightarrow> from_bcd (bcd n) = of_nat n"
  "n < 24 \<Longrightarrow> ((bcd n AND 0x0F) + ((bcd n AND 0x70) div 16) * 10) OR (bcd n AND 0x80) = of_nat n"
  "n < 24 \<Longrightarrow> (of_nat n :: u8) AND 0x80 = 0"
  "n < 100 \<Longrightarrow> (ucast (bcd n) AND 0x0F) + (ucast (bcd n) div 16) * 10 = (of_nat n :: u32)"
  using bcd_cases by (auto simp del: upt_Suc)

lemma full_year:
  assumes "y < 100"
  shows "(let z = of_nat y + (CURRENT_YEAR div 100) * 100 :: u32 in if z < CURRENT_YEAR then z + 100 else z) =
    of_nat (if y < 14 then 2100 + y else 2000 + y)"
proof -
  have "(CURRENT_YEAR div 100) * 100 = 2000" by code_simp
  moreover have "of_nat y + 2000 = (of_nat (2000 + y) :: u32)" by simp
  moreover have "(of_nat (2000 + y) :: u32) < 2014 \<longleftrightarrow> y < 14"
    using assms by (simp add: word_less_nat_alt unat_of_nat del: of_nat_add)
  ultimately show ?thesis by (simp add: CURRENT_YEAR_def Let_def add.commute)
qed

text \<open>
  while the clock shows a time in BCD, in 24-hour mode, and does not change between the readings, and the
  uninitialised \<open>registerB\<close> happens to have the bits of BCD mode, \<open>read_rtc\<close> ends with the time in
  binary and the year between 2014 and 2113.
\<close>

theorem read_rtc_steady:
  assumes "steady regs (device b)" and "regs 0x0A AND 0x80 = 0" and "century_register r = 0" and "rb0 AND 0x04 = 0"
    and "s < 60" and "mi < 60" and "h < 24" and "d < 32" and "mo < 13" and "y < 100"
    and "regs 0x00 = bcd s" and "regs 0x02 = bcd mi" and "regs 0x04 = bcd h" and "regs 0x07 = bcd d"
    and "regs 0x08 = bcd mo" and "regs 0x09 = bcd y"
  shows "\<exists>b'. read_rtc rb0 c0 r b = Some (\<lparr>century_register = 0, second = of_nat s, minute = of_nat mi, hour = of_nat h,
    day = of_nat d, month = of_nat mo, year = of_nat (if y < 14 then 2100 + y else 2000 + y)\<rparr>, b')"
proof -
  let ?r = "r\<lparr>second := bcd s, minute := bcd mi, hour := bcd h, day := bcd d, month := bcd mo, year := ucast (bcd y)\<rparr>"
  obtain b1 where b1: "wait_update b = Some b1" "device b1 = device b" using wait_update_steady assms(1,2) by blast
  then obtain b2 where b2: "read_registers c0 r b1 = (c0, ?r, b2)" "device b2 = device b"
    using read_registers_steady [of regs b1 r c0] assms by auto
  then obtain b3 where b3: "wait_update b2 = Some b3" "device b3 = device b" using wait_update_steady [of regs b2] assms(1,2) by auto
  then obtain b4 where b4: "read_registers c0 ?r b3 = (c0, ?r, b4)"
    using read_registers_steady [of regs b3 ?r c0] assms by auto
  have "ucast (ucast (ucast (bcd y) :: u32) :: u8) = (ucast (bcd y) :: u32)"
    by (rule bit_word_eqI) (auto simp: bit_ucast_iff dest: bit_imp_le_length)
  then have "wait_agree (differs c0 ?r c0 ?r) rb0 b4 = Some (rb0, b4)"
    by (subst wait_agree.simps) (simp add: differs_def)
  with b1 b2 b3 b4 show ?thesis
    using from_bcd_bcd(1) [of s] from_bcd_bcd(1) [of mi] from_bcd_bcd(2,3) [of h] from_bcd_bcd(1) [of d] from_bcd_bcd(1) [of mo]
      from_bcd_bcd(4) [of y] full_year [of y] assms(3-10)
    by (cases r) (simp add: read_rtc_def convert_bcd_def Let_def)
qed

definition sample_regs :: "u8 \<Rightarrow> u8" where
  "sample_regs = (\<lambda>_. 0)(0x00 := 0x59, 0x02 := 0x30, 0x04 := 0x23, 0x07 := 0x31, 0x08 := 0x12, 0x09 := 0x26)"

definition sample_rtc :: rtc where
  "sample_rtc = \<lparr>century_register = 0, second = 0, minute = 0, hour = 0, day = 0, month = 0, year = 0\<rparr>"

theorem read_rtc_steady_witness:
  "\<exists>b'. read_rtc 0 0 sample_rtc \<lparr>device = (\<lambda>h p. sample_regs (selected h)), trace = []\<rparr> =
    Some (\<lparr>century_register = 0, second = 59, minute = 30, hour = 23, day = 31, month = 12, year = 2026\<rparr>, b')"
  using read_rtc_steady [of sample_regs "\<lparr>device = (\<lambda>h p. sample_regs (selected h)), trace = []\<rparr>" sample_rtc 0 59 30 23 31 12 26 0]
  by (simp add: steady_def sample_regs_def sample_rtc_def bcd_def)

lemma wait_agree_Some: "wait_agree different rb b = Some y \<Longrightarrow> \<not> different"
  by (rule wait_agree.raw_induct [of "\<lambda>different _ _ _. \<not> different"]) (auto split: if_splits prod.splits simp: Let_def, blast)

text \<open>
  when the two readings differ, \<open>read_rtc\<close> never returns, whatever the clock does next: the loop
  that should read again tests the same values for ever.
\<close>

theorem read_rtc_hangs:
  assumes "wait_update b = Some b1" and "read_registers c0 r b1 = (c1, r1, b2)"
    and "wait_update b2 = Some b3" and "read_registers c1 r1 b3 = (c2, r2, b4)" and "differs c1 r1 c2 r2"
  shows "read_rtc rb0 c0 r b = None"
proof -
  have "wait_agree True rb0 b4 = None" using wait_agree_Some [of True] by (cases "wait_agree True rb0 b4") auto
  then show ?thesis using assms by (simp add: read_rtc_def)
qed

definition ticking_bus :: bus where
  "ticking_bus = \<lparr>device = (\<lambda>h p. if selected h = 0 then of_nat (length h) else 0), trace = []\<rparr>"

theorem read_rtc_hangs_witness: "read_rtc 0 0 sample_rtc ticking_bus = None"
proof -
  have w: "\<exists>b'. wait_update b = Some b' \<and> device b' = device ticking_bus \<and> length (trace b') = length (trace b) + 2"
    if "device b = device ticking_bus" for b
    using that by (subst wait_update.simps)
      (simp add: ticking_bus_def get_update_in_progress_flag_def inport8_def outport8_def Let_def CMOS_ADDRESS_def)
  have g: "\<exists>r b'. read_registers c r0 b = (c, r, b') \<and> device b' = device ticking_bus \<and> length (trace b') = length (trace b) + 12
      \<and> second r = of_nat (length (trace b) + 1) \<and> century_register r = 0"
    if "device b = device ticking_bus" "century_register r0 = 0" for b c and r0 :: rtc
    using that by (simp add: ticking_bus_def read_registers_def get_RTC_register_def inport8_def outport8_def Let_def CMOS_ADDRESS_def)
  obtain b1 where b1: "wait_update ticking_bus = Some b1" "device b1 = device ticking_bus" "length (trace b1) = 2"
    using w [of ticking_bus] by (auto simp: ticking_bus_def)
  obtain r1 b2 where b2: "read_registers 0 sample_rtc b1 = (0, r1, b2)" "device b2 = device ticking_bus" "length (trace b2) = 14"
    "second r1 = 3" "century_register r1 = 0" using g [OF b1(2), of sample_rtc 0] b1(3) by (auto simp: sample_rtc_def)
  obtain b3 where b3: "wait_update b2 = Some b3" "device b3 = device ticking_bus" "length (trace b3) = 16"
    using w [OF b2(2)] b2(3) by auto
  obtain r2 b4 where b4: "read_registers 0 r1 b3 = (0, r2, b4)" "second r2 = 17" using g [OF b3(2) b2(5), of 0] b3(3) by auto
  show ?thesis using read_rtc_hangs [OF b1(1) b2(1) b3(1) b4(1)] b2(4) b4(2) by (simp add: differs_def)
qed

end
