(* ===== verification/Machine.thy ===== *)
theory Machine
  imports Portio
begin

text \<open>
  The part of the machine all drivers share: the I/O ports and the calls of \<open>log_print\<close>.  What a call of
  \<open>log_print\<close> puts on the screen is the subject of the theory \<open>Klog\<close>; to a driver it is a record that
  the call was made.  The states of the drivers extend the record \<open>machine\<close>.
\<close>

datatype debug_status = NOTICE | INFO | WARNING | ERROR | CRIT

record machine =
  mbus :: bus
  klog :: "(debug_status \<times> string) list"

definition log_call :: "debug_status \<Rightarrow> string \<Rightarrow> 'a machine_scheme \<Rightarrow> 'a machine_scheme" where
  "log_call status message s = s\<lparr>klog := (status, message) # klog s\<rparr>"

definition out8 :: "u16 \<Rightarrow> u8 \<Rightarrow> 'a machine_scheme \<Rightarrow> 'a machine_scheme" where
  "out8 port v s = s\<lparr>mbus := outport8 port v (mbus s)\<rparr>"

definition in8 :: "u16 \<Rightarrow> 'a machine_scheme \<Rightarrow> u8 \<times> 'a machine_scheme" where
  "in8 port s = (let (v, b) = inport8 port (mbus s) in (v, s\<lparr>mbus := b\<rparr>))"

text \<open>The accesses made so far, latest first.\<close>

abbreviation ports :: "'a machine_scheme \<Rightarrow> io_event list" where
  "ports s \<equiv> trace (mbus s)"

abbreviation answers :: "'a machine_scheme \<Rightarrow> io_event list \<Rightarrow> u16 \<Rightarrow> u8" where
  "answers s \<equiv> device (mbus s)"

lemma out8_fields [simp]:
  "ports (out8 p v s) = Out8 p v # ports s" "answers (out8 p v s) = answers s" "klog (out8 p v s) = klog s"
  "machine.more (out8 p v s) = machine.more s"
  by (simp_all add: out8_def outport8_def)

lemma in8_fields [simp]:
  "fst (in8 p s) = answers s (ports s) p" "ports (snd (in8 p s)) = In8 p (answers s (ports s) p) # ports s"
  "answers (snd (in8 p s)) = answers s" "klog (snd (in8 p s)) = klog s" "machine.more (snd (in8 p s)) = machine.more s"
  by (simp_all add: in8_def inport8_def Let_def)

lemma log_call_fields [simp]:
  "mbus (log_call l m s) = mbus s" "klog (log_call l m s) = (l, m) # klog s" "machine.more (log_call l m s) = machine.more s"
  by (simp_all add: log_call_def)

end
