(* ===== verification/Descriptors.thy ===== *)
theory Descriptors
  imports Machine
begin

text \<open>
  The descriptor tables of \<open>kernel/arch/i386/gdt.c\<close> and \<open>irq/idt.c\<close>: the fields that the code packs, and what the
  processor reads back from them (\<open>gate_offset\<close>, \<open>segment_base\<close> and so on, after the layout of the architecture).
\<close>

section \<open>The interrupt descriptor table\<close>

definition IDT_TYPE_INTERRUPT :: u8 where "IDT_TYPE_INTERRUPT = 0xE"
definition IDT_FLAG_PRESENT :: u32 where "IDT_FLAG_PRESENT = 128"

record idt_entry =
  handler_low :: u16
  selector :: u16
  ist :: u8
  idt_flags :: u8
  handler_high :: u16

definition idt_format_normal_entry :: "u32 \<Rightarrow> u8 \<Rightarrow> u8 \<Rightarrow> idt_entry" where
  "idt_format_normal_entry handler type rpl =
     \<lparr>handler_low = ucast (handler AND 0xFFFF), selector = 0x08, ist = 0,
      idt_flags = ucast (IDT_FLAG_PRESENT OR push_bit 5 (ucast rpl) OR push_bit 0 (ucast type)),
      handler_high = ucast (drop_bit 16 handler AND 0xFFFF)\<rparr>"

text \<open>The register that \<open>lidt\<close> loads.\<close>

record idt_state = machine +
  idt :: "idt_entry list"
  idtr_base :: u32
  idtr_limit :: u16

definition lidt :: "u32 \<Rightarrow> u32 \<Rightarrow> idt_state \<Rightarrow> idt_state" where
  "lidt base limit s = s\<lparr>idtr_base := base, idtr_limit := ucast limit\<rparr>"

definition null_entry :: idt_entry where
  "null_entry = \<lparr>handler_low = 0, selector = 0, ist = 0, idt_flags = 0, handler_high = 0\<rparr>"

definition set_idt :: "nat \<Rightarrow> u32 \<Rightarrow> u8 \<Rightarrow> u8 \<Rightarrow> idt_state \<Rightarrow> idt_state" where
  "set_idt i handler type rpl s = s\<lparr>idt := (idt s)[i := idt_format_normal_entry handler type rpl]\<rparr>"

text \<open>
  The entry points of \<open>interrupt-entry.S\<close> are the parameters \<open>isr\<close> and \<open>irq\<close>, the address of the table
  \<open>idt_addr\<close>.  Each line is one assignment of the code.
\<close>

definition idt_initialize :: "(nat \<Rightarrow> u32) \<Rightarrow> (nat \<Rightarrow> u32) \<Rightarrow> u32 \<Rightarrow> idt_state \<Rightarrow> idt_state" where
  "idt_initialize isr irq idt_addr s = (let
     s = s\<lparr>idt := replicate 256 null_entry\<rparr>;
     s = set_idt 0 (isr 0) IDT_TYPE_INTERRUPT 0 s;
     s = set_idt 1 (isr 1) IDT_TYPE_INTERRUPT 0 s;
     s = set_idt 2 (isr 2) IDT_TYPE_INTERRUPT 0 s;
     s = set_idt 3 (isr 3) IDT_TYPE_INTERRUPT 0 s;
     s = set_idt 4 (isr 4) IDT_TYPE_INTERRUPT 0 s;
     s = set_idt 5 (isr 5) IDT_TYPE_INTERRUPT 0 s;
     s = set_idt 6 (isr 6) IDT_TYPE_INTERRUPT 0 s;
     s = set_idt 7 (isr 7) IDT_TYPE_INTERRUPT 0 s;
     s = set_idt 8 (isr 8) IDT_TYPE_INTERRUPT 0 s;
     s = set_idt 9 (isr 9) IDT_TYPE_INTERRUPT 0 s;
     s = set_idt 10 (isr 10) IDT_TYPE_INTERRUPT 0 s;
     s = set_idt 11 (isr 11) IDT_TYPE_INTERRUPT 0 s;
     s = set_idt 12 (isr 12) IDT_TYPE_INTERRUPT 0 s;
     s = set_idt 13 (isr 13) IDT_TYPE_INTERRUPT 0 s;
     s = set_idt 14 (isr 14) IDT_TYPE_INTERRUPT 0 s;
     s = set_idt 15 (isr 15) IDT_TYPE_INTERRUPT 0 s;
     s = set_idt 16 (isr 16) IDT_TYPE_INTERRUPT 0 s;
     s = set_idt 17 (isr 17) IDT_TYPE_INTERRUPT 0 s;
     s = set_idt 18 (isr 18) IDT_TYPE_INTERRUPT 0 s;
     s = set_idt 19 (isr 19) IDT_TYPE_INTERRUPT 0 s;
     s = set_idt 20 (isr 20) IDT_TYPE_INTERRUPT 0 s;
     s = set_idt 21 (isr 21) IDT_TYPE_INTERRUPT 0 s;
     s = set_idt 22 (isr 22) IDT_TYPE_INTERRUPT 0 s;
     s = set_idt 23 (isr 23) IDT_TYPE_INTERRUPT 0 s;
     s = set_idt 24 (isr 24) IDT_TYPE_INTERRUPT 0 s;
     s = set_idt 25 (isr 25) IDT_TYPE_INTERRUPT 0 s;
     s = set_idt 26 (isr 26) IDT_TYPE_INTERRUPT 0 s;
     s = set_idt 27 (isr 27) IDT_TYPE_INTERRUPT 0 s;
     s = set_idt 28 (isr 28) IDT_TYPE_INTERRUPT 0 s;
     s = set_idt 29 (isr 29) IDT_TYPE_INTERRUPT 0 s;
     s = set_idt 30 (isr 30) IDT_TYPE_INTERRUPT 0 s;
     s = set_idt 31 (isr 31) IDT_TYPE_INTERRUPT 0 s;
     s = set_idt 32 (irq 0) IDT_TYPE_INTERRUPT 0 s;
     s = set_idt 32 (irq 0) IDT_TYPE_INTERRUPT 0 s;
     s = set_idt 33 (irq 1) IDT_TYPE_INTERRUPT 0 s;
     s = set_idt 34 (irq 2) IDT_TYPE_INTERRUPT 0 s;
     s = set_idt 35 (irq 3) IDT_TYPE_INTERRUPT 0 s;
     s = set_idt 36 (irq 4) IDT_TYPE_INTERRUPT 0 s;
     s = set_idt 37 (irq 5) IDT_TYPE_INTERRUPT 0 s;
     s = set_idt 38 (irq 6) IDT_TYPE_INTERRUPT 0 s;
     s = set_idt 39 (irq 7) IDT_TYPE_INTERRUPT 0 s;
     s = set_idt 40 (irq 8) IDT_TYPE_INTERRUPT 0 s;
     s = set_idt 41 (irq 9) IDT_TYPE_INTERRUPT 0 s;
     s = set_idt 42 (irq 10) IDT_TYPE_INTERRUPT 0 s;
     s = set_idt 43 (irq 11) IDT_TYPE_INTERRUPT 0 s;
     s = set_idt 44 (irq 12) IDT_TYPE_INTERRUPT 0 s;
     s = set_idt 45 (irq 13) IDT_TYPE_INTERRUPT 0x8E s;
     s = set_idt 46 (irq 14) IDT_TYPE_INTERRUPT 0 s;
     s = set_idt 47 (irq 15) IDT_TYPE_INTERRUPT 0 s;
     s = lidt idt_addr 2047 s
     in log_call NOTICE ''IDT'' s)"

section \<open>The global descriptor table\<close>

record tss_entry =
  tss_prev :: u32
  tss_esp0 :: u32
  tss_ss0 :: u32
  tss_esp1 :: u32
  tss_ss1 :: u32
  tss_esp2 :: u32
  tss_ss2 :: u32
  tss_cr3 :: u32
  tss_eip :: u32
  tss_eflags :: u32
  tss_eax :: u32
  tss_ecx :: u32
  tss_edx :: u32
  tss_ebx :: u32
  tss_esp :: u32
  tss_ebp :: u32
  tss_esi :: u32
  tss_edi :: u32
  tss_es :: u32
  tss_cs :: u32
  tss_ss :: u32
  tss_ds :: u32
  tss_fs :: u32
  tss_gs :: u32
  tss_ldt :: u32
  tss_trap :: u16
  tss_iomap_base :: u16

definition tss :: tss_entry where
  "tss = \<lparr>tss_prev = 0, tss_esp0 = 0, tss_ss0 = 0x10, tss_esp1 = 0, tss_ss1 = 0, tss_esp2 = 0, tss_ss2 =
     0, tss_cr3 = 0, tss_eip = 0, tss_eflags = 0, tss_eax = 0, tss_ecx = 0, tss_edx = 0, tss_ebx = 0, tss_esp = 0,
     tss_ebp = 0, tss_esi = 0, tss_edi = 0, tss_es = 0x10, tss_cs = 0x08, tss_ss = 0, tss_ds = 0x10, tss_fs = 0x10,
     tss_gs = 0x10, tss_ldt = 0, tss_trap = 0, tss_iomap_base = 0\<rparr>"

record gdt_entry =
  limit_low :: u16
  base_low :: u16
  base_middle :: u8
  access :: u8
  granularity :: u8
  base_high :: u8

definition GDT_ENTRY :: "u32 \<Rightarrow> u32 \<Rightarrow> u32 \<Rightarrow> u32 \<Rightarrow> gdt_entry" where
  "GDT_ENTRY base limit acc gran =
     \<lparr>limit_low = ucast (limit AND 0xFFFF), base_low = ucast (drop_bit 0 base AND 0xFFFF),
      base_middle = ucast (drop_bit 16 base AND 0xFF), access = ucast (acc AND 0xFF),
      granularity = ucast ((drop_bit 16 limit AND 0x0F) OR (gran AND 0xF0)), base_high = ucast (drop_bit 24 base AND 0xFF)\<rparr>"

definition GRAN_32_BIT_MODE :: u32 where "GRAN_32_BIT_MODE = 64"
definition GRAN_4KIB_BLOCKS :: u32 where "GRAN_4KIB_BLOCKS = 128"

text \<open>25 words and two half words.\<close>

definition sizeof_tss :: u32 where "sizeof_tss = 25 * 4 + 2 * 2"

definition gdt :: "gdt_entry list" where
  "gdt = [GDT_ENTRY 0 0 0 0,
     GDT_ENTRY 0 0xFFFFFFFF 0x9A (GRAN_32_BIT_MODE OR GRAN_4KIB_BLOCKS),
     GDT_ENTRY 0 0xFFFFFFFF 0x92 (GRAN_32_BIT_MODE OR GRAN_4KIB_BLOCKS),
     GDT_ENTRY 0 0xFFFFFFFF 0xFA (GRAN_32_BIT_MODE OR GRAN_4KIB_BLOCKS),
     GDT_ENTRY 0 0xFFFFFFFF 0xF2 (GRAN_32_BIT_MODE OR GRAN_4KIB_BLOCKS),
     GDT_ENTRY 0 (sizeof_tss - 1) 0xE9 0x00]"

definition gdt_size_minus_one :: u16 where
  "gdt_size_minus_one = of_nat (8 * length gdt) - 1"

section \<open>What the processor reads\<close>

definition gate_offset :: "idt_entry \<Rightarrow> u32" where
  "gate_offset e = ucast (handler_low e) OR push_bit 16 (ucast (handler_high e))"

definition gate_present :: "idt_entry \<Rightarrow> bool" where
  "gate_present e \<longleftrightarrow> bit (idt_flags e) 7"

definition gate_dpl :: "idt_entry \<Rightarrow> u8" where
  "gate_dpl e = drop_bit 5 (idt_flags e) AND 3"

definition gate_type :: "idt_entry \<Rightarrow> u8" where
  "gate_type e = idt_flags e AND 0xF"

definition segment_base :: "gdt_entry \<Rightarrow> u32" where
  "segment_base e = ucast (base_low e) OR push_bit 16 (ucast (base_middle e)) OR push_bit 24 (ucast (base_high e))"

definition segment_limit :: "gdt_entry \<Rightarrow> u32" where
  "segment_limit e = ucast (limit_low e) OR push_bit 16 (ucast (granularity e AND 0xF))"

text \<open>The last byte of a segment: with the granularity bit the limit counts pages.\<close>

definition segment_end :: "gdt_entry \<Rightarrow> u32" where
  "segment_end e = (if bit (granularity e) 7 then push_bit 12 (segment_limit e) OR 0xFFF else segment_limit e)"

definition segment_dpl :: "gdt_entry \<Rightarrow> u8" where
  "segment_dpl e = drop_bit 5 (access e) AND 3"

lemma and_masks:
  "(x :: u32) AND 0xFFFF = take_bit 16 x" "(x :: u32) AND 0xFF = take_bit 8 x" "(x :: u32) AND 0xF = take_bit 4 x"
  "(y :: u8) AND 0xF = take_bit 4 y" "(y :: u8) AND 3 = take_bit 2 y"
  by (simp_all add: take_bit_eq_mask mask_eq_exp_minus_1)

lemma bit_flags:
  "bit (128 :: u32) n \<longleftrightarrow> n = 7" "bit (0xF0 :: u32) n \<longleftrightarrow> 4 \<le> n \<and> n < 8"
  "bit (128 :: int) n \<longleftrightarrow> n = 7" "bit (0xF0 :: int) n \<longleftrightarrow> 4 \<le> n \<and> n < 8"
proof -
  have "(128 :: u32) = 2 ^ 7" "(128 :: int) = 2 ^ 7" by simp_all
  then show "bit (128 :: u32) n \<longleftrightarrow> n = 7" "bit (128 :: int) n \<longleftrightarrow> n = 7" by (simp_all only: bit_exp_iff) auto
  have "(0xF0 :: u32) = push_bit 4 (mask 4)" "(0xF0 :: int) = push_bit 4 (mask 4)" by (simp_all add: mask_eq_exp_minus_1)
  then show "bit (0xF0 :: u32) n \<longleftrightarrow> 4 \<le> n \<and> n < 8" "bit (0xF0 :: int) n \<longleftrightarrow> 4 \<le> n \<and> n < 8"
    by (simp_all only: bit_simps) auto
qed

lemmas descriptor_bits = and_masks bit_flags bit_simps

lemma gate_format:
  "gate_offset (idt_format_normal_entry handler type rpl) = handler"
  "gate_present (idt_format_normal_entry handler type rpl)"
  "gate_dpl (idt_format_normal_entry handler type rpl) = take_bit 2 (rpl OR drop_bit 5 type)"
  "gate_type (idt_format_normal_entry handler type rpl) = take_bit 4 type"
proof -
  let ?e = "idt_format_normal_entry handler type rpl"
  show "gate_offset ?e = handler"
    by (rule bit_word_eqI) (auto simp: gate_offset_def idt_format_normal_entry_def descriptor_bits)
  show "gate_present ?e"
    by (simp add: gate_present_def idt_format_normal_entry_def IDT_FLAG_PRESENT_def descriptor_bits)
  show "gate_dpl ?e = take_bit 2 (rpl OR drop_bit 5 type)"
    by (rule bit_word_eqI) (auto simp: gate_dpl_def idt_format_normal_entry_def IDT_FLAG_PRESENT_def descriptor_bits)
  show "gate_type ?e = take_bit 4 type"
    by (rule bit_word_eqI) (auto simp: gate_type_def idt_format_normal_entry_def IDT_FLAG_PRESENT_def descriptor_bits)
qed

lemma segment_format:
  "segment_base (GDT_ENTRY base limit acc gran) = base"
  "segment_limit (GDT_ENTRY base limit acc gran) = take_bit 20 limit"
  "access (GDT_ENTRY base limit acc gran) = ucast acc"
  "drop_bit 4 (granularity (GDT_ENTRY base limit acc gran)) = take_bit 4 (drop_bit 4 (ucast gran))"
proof -
  let ?e = "GDT_ENTRY base limit acc gran"
  show "segment_base ?e = base"
  proof (rule bit_word_eqI)
    fix n assume "n < LENGTH(32)"
    then show "bit (segment_base ?e) n \<longleftrightarrow> bit base n"
      by (cases "24 \<le> n"; cases "16 \<le> n") (auto simp: segment_base_def GDT_ENTRY_def descriptor_bits)
  qed
  show "segment_limit ?e = take_bit 20 limit"
    by (rule bit_word_eqI) (auto simp: segment_limit_def GDT_ENTRY_def descriptor_bits)
  show "access ?e = ucast acc" by (rule bit_word_eqI) (auto simp: GDT_ENTRY_def descriptor_bits)
  show "drop_bit 4 (granularity ?e) = take_bit 4 (drop_bit 4 (ucast gran))"
    by (rule bit_word_eqI) (auto simp: GDT_ENTRY_def descriptor_bits)
qed

section \<open>The tables\<close>

definition gate :: "u32 \<Rightarrow> u8 \<Rightarrow> idt_entry" where
  "gate handler rpl = idt_format_normal_entry handler IDT_TYPE_INTERRUPT rpl"

definition idt_table :: "(nat \<Rightarrow> u32) \<Rightarrow> (nat \<Rightarrow> u32) \<Rightarrow> nat \<Rightarrow> idt_entry" where
  "idt_table isr irq i = (if i < 32 then gate (isr i) 0 else if i = 45 then gate (irq 13) 0x8E
     else if i < 48 then gate (irq (i - 32)) 0 else null_entry)"

lemma set_idt_length [simp]: "length (idt (set_idt k h t r s)) = length (idt s)"
  by (simp add: set_idt_def)

lemma set_idt_nth:
  "i < length (idt s) \<Longrightarrow> idt (set_idt k h IDT_TYPE_INTERRUPT r s) ! i = (if i = k then gate h r else idt s ! i)"
  by (simp add: set_idt_def gate_def)

text \<open>A run of consecutive gates.\<close>

definition set_run :: "nat \<Rightarrow> (nat \<Rightarrow> u32) \<Rightarrow> (nat \<Rightarrow> u8) \<Rightarrow> nat \<Rightarrow> idt_state \<Rightarrow> idt_state" where
  "set_run b h r n s = foldl (\<lambda>s i. set_idt (b + i) (h i) IDT_TYPE_INTERRUPT (r i) s) s [0..<n]"

lemma set_run_length [simp]: "length (idt (set_run b h r n s)) = length (idt s)"
  by (induction n) (simp_all add: set_run_def)

lemma set_run_nth:
  "i < length (idt s) \<Longrightarrow> idt (set_run b h r n s) ! i = (if b \<le> i \<and> i < b + n then gate (h (i - b)) (r (i - b)) else idt s ! i)"
proof (induction n)
  case (Suc n)
  have "set_run b h r (Suc n) s = set_idt (b + n) (h n) IDT_TYPE_INTERRUPT (r n) (set_run b h r n s)" by (simp add: set_run_def)
  then show ?case using Suc by (auto simp: set_idt_nth)
qed (auto simp: set_run_def)

lemma upt_lists:
  "[0..<16] = [0, 1, 2, 3, 4, 5, 6, 7, 8, 9, 10, 11, 12, 13, 14, 15]"
  "[0..<32] = [0, 1, 2, 3, 4, 5, 6, 7, 8, 9, 10, 11, 12, 13, 14, 15, 16, 17, 18, 19, 20, 21, 22, 23, 24, 25, 26, 27, 28, 29, 30, 31]"
  by code_simp+

lemma idt_initialize_runs:
  "idt_initialize isr irq a s = log_call NOTICE ''IDT'' (lidt a 2047 (set_run 32 irq (\<lambda>i. if i = 13 then 0x8E else 0) 16
     (set_idt 32 (irq 0) IDT_TYPE_INTERRUPT 0 (set_run 0 isr (\<lambda>_. 0) 32 (s\<lparr>idt := replicate 256 null_entry\<rparr>)))))"
  by (simp add: idt_initialize_def Let_def set_run_def upt_lists)

lemma idt_initialize_nth:
  assumes "i < 256"
  shows "idt (idt_initialize isr irq a s) ! i = idt_table isr irq i"
  using assms by (auto simp: idt_initialize_runs log_call_def lidt_def set_run_nth set_idt_nth idt_table_def)

lemma idt_initialize_list:
  "idt (idt_initialize isr irq a s) = map (idt_table isr irq) [0..<256]"
proof (rule nth_equalityI)
  show l: "length (idt (idt_initialize isr irq a s)) = length (map (idt_table isr irq) [0..<256])"
    by (simp add: idt_initialize_runs log_call_def lidt_def)
  show "idt (idt_initialize isr irq a s) ! i = map (idt_table isr irq) [0..<256] ! i"
    if "i < length (idt (idt_initialize isr irq a s))" for i
    using that l by (simp add: idt_initialize_nth)
qed

lemma gate_simps:
  "gate_offset (gate h r) = h" "gate_present (gate h r)" "gate_type (gate h r) = 0xE" "selector (gate h r) = 8"
  "gate_dpl (gate h 0) = 0" "gate_dpl (gate h 0x8E) = 2" "\<not> gate_present null_entry"
proof -
  show "selector (gate h r) = 8" by (simp add: gate_def idt_format_normal_entry_def)
  show "\<not> gate_present null_entry" by (simp add: gate_present_def null_entry_def)
qed (simp_all add: gate_def gate_format IDT_TYPE_INTERRUPT_def)

text \<open>
  C30: after \<open>idt_initialize\<close> the processor, which reassembles the gates, enters \<open>isr n\<close> for the exceptions 0 to 31 and
  \<open>irq n\<close> for the vectors 32 to 47, through present interrupt gates of the kernel code segment; all other
  vectors are absent, the table register covers all 256 gates, and the gates have privilege level 0, except
  for the one of vector 45, which has level 2.
\<close>

theorem idt_initialize_gates:
  "idtr_limit (idt_initialize isr irq a s) = 8 * 256 - 1 \<and> idtr_base (idt_initialize isr irq a s) = a \<and>
   map gate_present (idt (idt_initialize isr irq a s)) = replicate 48 True @ replicate 208 False \<and>
   map gate_offset (take 48 (idt (idt_initialize isr irq a s))) = map isr [0..<32] @ map irq [0..<16] \<and>
   map gate_type (take 48 (idt (idt_initialize isr irq a s))) = replicate 48 0xE \<and>
   map selector (take 48 (idt (idt_initialize isr irq a s))) = replicate 48 8 \<and>
   map gate_dpl (take 48 (idt (idt_initialize isr irq a s))) = (replicate 48 0)[45 := 2]"
proof (intro conjI)
  show "idtr_limit (idt_initialize isr irq a s) = 8 * 256 - 1" "idtr_base (idt_initialize isr irq a s) = a"
    by (simp_all add: idt_initialize_runs log_call_def lidt_def)
qed (rule nth_equalityI; auto simp: idt_initialize_list take_map idt_table_def gate_simps nth_append nth_list_update)+

text \<open>
  the segment descriptor that \<open>GDT_ENTRY\<close> builds gives the processor back the base, the low 20 bits of the
  limit, the access byte and the four flags; so the four code and data segments of the table cover the
  whole address space at the privilege levels 0, 0, 3 and 3.
\<close>

theorem gdt_segments:
  "segment_base (GDT_ENTRY base limit acc gran) = base \<and> segment_limit (GDT_ENTRY base limit acc gran) = take_bit 20 limit \<and>
   access (GDT_ENTRY base limit acc gran) = ucast acc \<and>
   drop_bit 4 (granularity (GDT_ENTRY base limit acc gran)) = take_bit 4 (drop_bit 4 (ucast gran)) \<and>
   map segment_base gdt = [0, 0, 0, 0, 0, 0] \<and> map segment_end gdt = [0, - 1, - 1, - 1, - 1, 103] \<and>
   map segment_dpl gdt = [0, 0, 0, 3, 3, 3] \<and> gdt_size_minus_one = 47"
proof -
  have "map segment_end gdt = [0, - 1, - 1, - 1, - 1, 103]" "map segment_dpl gdt = [0, 0, 0, 3, 3, 3]" "gdt_size_minus_one = 47"
    by (simp_all add: gdt_def segment_end_def segment_limit_def segment_dpl_def GDT_ENTRY_def GRAN_32_BIT_MODE_def
      GRAN_4KIB_BLOCKS_def sizeof_tss_def gdt_size_minus_one_def)
  then show ?thesis by (simp add: segment_format gdt_def)
qed

definition sample_idt :: idt_state where
  "sample_idt = \<lparr>mbus = \<lparr>device = (\<lambda>_ _. 0), trace = []\<rparr>, klog = [], idt = [], idtr_base = 0, idtr_limit = 0\<rparr>"

end
