(* ===== verification/Interrupts.thy ===== *)
theory Interrupts
  imports Machine "HOL-Library.Monad_Syntax"
begin

text \<open>
  Device interrupts and exceptions: the controllers (\<open>kernel/arch/i386/pic.c\<close>), the dispatch to the installed routines
  (\<open>irq/interrupt.c\<close>) and the timer (\<open>pit.c\<close>).  The routines are pointers whose effect is the parameter \<open>call\<close>; the
  controllers are state machines after their data sheet that replay the accesses the code makes to their ports.
\<close>

section \<open>The interrupt controllers\<close>

definition PIC_MASTER :: u16 where "PIC_MASTER = 0x20"
definition PIC_SLAVE :: u16 where "PIC_SLAVE = 0xA0"
definition PIC_COMMAND :: u16 where "PIC_COMMAND = 0x00"
definition PIC_DATA :: u16 where "PIC_DATA = 0x01"
definition PIC_CMD_ENDINTR :: u8 where "PIC_CMD_ENDINTR = 0x20"
definition PIC_ICW1_ICW4 :: u8 where "PIC_ICW1_ICW4 = 0x01"
definition PIC_CMD_INIT :: u8 where "PIC_CMD_INIT = 0x10"
definition PIC_MODE_8086 :: u8 where "PIC_MODE_8086 = 0x01"
definition PIC_READ_IRR :: u8 where "PIC_READ_IRR = 0x0A"
definition PIC_READ_ISR :: u8 where "PIC_READ_ISR = 0x0B"

definition pic_read_irr :: "'a machine_scheme \<Rightarrow> u16 \<times> 'a machine_scheme" where
  "pic_read_irr s = (let
     s = out8 (PIC_MASTER + PIC_COMMAND) PIC_READ_IRR s;
     s = out8 (PIC_SLAVE + PIC_COMMAND) PIC_READ_IRR s;
     (a, s) = in8 (PIC_MASTER + PIC_COMMAND) s;
     (b, s) = in8 (PIC_SLAVE + PIC_COMMAND) s
     in (ucast a OR push_bit 8 (ucast b), s))"

definition pic_read_isr :: "'a machine_scheme \<Rightarrow> u16 \<times> 'a machine_scheme" where
  "pic_read_isr s = (let
     s = out8 (PIC_MASTER + PIC_COMMAND) PIC_READ_ISR s;
     s = out8 (PIC_SLAVE + PIC_COMMAND) PIC_READ_ISR s;
     (a, s) = in8 (PIC_MASTER + PIC_COMMAND) s;
     (b, s) = in8 (PIC_SLAVE + PIC_COMMAND) s
     in (ucast a OR push_bit 8 (ucast b), s))"

definition pic_eoi_master :: "'a machine_scheme \<Rightarrow> 'a machine_scheme" where
  "pic_eoi_master s = out8 PIC_MASTER PIC_CMD_ENDINTR s"

definition pic_eoi_slave :: "'a machine_scheme \<Rightarrow> 'a machine_scheme" where
  "pic_eoi_slave s = out8 PIC_SLAVE PIC_CMD_ENDINTR s"

definition pic_initialize :: "'a machine_scheme \<Rightarrow> 'a machine_scheme" where
  "pic_initialize s = (let
     map_irsq_at = 32; master_mask = 0; slave_mask = 0;
     s = out8 (PIC_MASTER + PIC_COMMAND) (PIC_CMD_INIT OR PIC_ICW1_ICW4) s;
     s = out8 (PIC_SLAVE + PIC_COMMAND) (PIC_CMD_INIT OR PIC_ICW1_ICW4) s;
     s = out8 (PIC_MASTER + PIC_DATA) (map_irsq_at + 0) s;
     s = out8 (PIC_SLAVE + PIC_DATA) (map_irsq_at + 8) s;
     s = out8 (PIC_MASTER + PIC_DATA) 0x04 s;
     s = out8 (PIC_SLAVE + PIC_DATA) 0x02 s;
     s = out8 (PIC_MASTER + PIC_DATA) PIC_MODE_8086 s;
     s = out8 (PIC_SLAVE + PIC_DATA) PIC_MODE_8086 s;
     s = out8 (PIC_MASTER + PIC_DATA) master_mask s;
     s = out8 (PIC_SLAVE + PIC_DATA) slave_mask s
     in log_call NOTICE ''PIC'' s)"

section \<open>Dispatch of interrupts\<close>

record interrupt_context =
  ctx_cr2 :: u32
  ctx_gs :: u32
  ctx_fs :: u32
  ctx_ds :: u32
  ctx_es :: u32
  ctx_edi :: u32
  ctx_esi :: u32
  ctx_ebp :: u32
  ctx_ebx :: u32
  ctx_edx :: u32
  ctx_ecx :: u32
  ctx_eax :: u32
  int_no :: u32
  err_code :: u32
  ctx_cs :: u32
  ctx_eflags :: u32
  ctx_esp :: u32
  ctx_ss :: u32

text \<open>
  The routines are pointers; 0 is none.  \<open>printed\<close> collects the calls of \<open>printf\<close>, \<open>halted\<close> says that the
  processor stopped: in an interrupt gate interrupts are off, so \<open>hlt\<close> does not return.
\<close>

record 'w intr = machine +
  irq_routines :: "u32 list"
  isr_routines :: "u32 list"
  timer_ticks :: u32
  printed :: "(string \<times> u32 list) list"
  halted :: bool
  world :: 'w

text \<open>What a routine is called with: the context, or the error code that \<open>isr_handler\<close> passes in its place.\<close>

datatype routine_arg = Context interrupt_context | Code u32

text \<open>
  \<open>call p arg s\<close> is the effect of calling the routine at \<open>p\<close>; \<open>None\<close> if it does not return.
\<close>

type_synonym 'w routines = "u32 \<Rightarrow> routine_arg \<Rightarrow> 'w intr \<Rightarrow> 'w intr option"

definition exception_messages :: "string list" where
  "exception_messages = [''Division By Zero'', ''Debug'', ''Non Maskable Interrupt'', ''Breakpoint'', ''Into Detected Overflow'',
     ''Out of Bounds'', ''Invalid Opcode'', ''No Coprocessor'', ''Double Fault'', ''Coprocessor Segment Overrun'', ''Bad TSS'',
     ''Segment Not Present'', ''Stack Fault'', ''General Protection Fault'', ''Page Fault'', ''Unknown Interrupt'',
     ''Coprocessor Fault'', ''Alignment Check'', ''Machine Check'', ''Reserved'', ''Reserved'', ''Reserved'', ''Reserved'',
     ''Reserved'', ''Reserved'', ''Reserved'', ''Reserved'', ''Reserved'', ''Reserved'', ''Reserved'', ''Reserved'', ''Reserved'']"

text \<open>\<open>None\<close> is an access outside the array.\<close>

definition irq_install_handler :: "int \<Rightarrow> u32 \<Rightarrow> 'w intr \<Rightarrow> 'w intr option" where
  "irq_install_handler irq handler s =
     (if 0 \<le> irq \<and> irq < 16 then Some (s\<lparr>irq_routines := (irq_routines s)[nat irq := handler]\<rparr>) else None)"

definition irq_uninstall_handler :: "int \<Rightarrow> 'w intr \<Rightarrow> 'w intr option" where
  "irq_uninstall_handler irq s =
     (if 0 \<le> irq \<and> irq < 16 then Some (s\<lparr>irq_routines := (irq_routines s)[nat irq := 0]\<rparr>) else None)"

definition isr_install_handler :: "int \<Rightarrow> u32 \<Rightarrow> 'w intr \<Rightarrow> 'w intr option" where
  "isr_install_handler isr handler s =
     (if 0 \<le> isr \<and> isr < 32 then Some (s\<lparr>isr_routines := (isr_routines s)[nat isr := handler]\<rparr>) else None)"

definition isr_uninstall_handler :: "int \<Rightarrow> 'w intr \<Rightarrow> 'w intr option" where
  "isr_uninstall_handler isr s =
     (if 0 \<le> isr \<and> isr < 32 then Some (s\<lparr>isr_routines := (isr_routines s)[nat isr := 0]\<rparr>) else None)"

definition print_call :: "string \<Rightarrow> u32 list \<Rightarrow> 'w intr \<Rightarrow> 'w intr" where
  "print_call format args s = s\<lparr>printed := (format, args) # printed s\<rparr>"

definition isr_handler :: "'w routines \<Rightarrow> interrupt_context \<Rightarrow> 'w intr \<Rightarrow> 'w intr option" where
  "isr_handler call int_ctx s =
     (if \<not> int_no int_ctx < 32 then None
      else let handler = isr_routines s ! unat (int_no int_ctx) in
        do {
          s \<leftarrow> (if handler \<noteq> 0 then call handler (Code (err_code int_ctx)) s
            else if int_no int_ctx < 32 then Some (
              print_call ''System Halted!\<newline>'' [] (
              print_call ''\<newline>Fult number:%i\<newline>\<newline>'' [int_no int_ctx] (
              print_call (exception_messages ! unat (int_no int_ctx)) [] s)))
            else Some s);
          Some (s\<lparr>halted := True\<rparr>)
        })"

definition irq_handler :: "'w routines \<Rightarrow> interrupt_context \<Rightarrow> 'w intr \<Rightarrow> 'w intr option" where
  "irq_handler call int_ctx s = (let
     irq = (ucast (int_no int_ctx - 32) :: u8);
     (spurious7, s) = (if irq = 7 then let (v, s) = pic_read_isr s in (\<not> bit v 7, s) else (False, s))
     in if spurious7 then Some s
     else let (spurious15, s) = (if irq = 15 then let (v, s) = pic_read_isr s in (\<not> bit v 15, s) else (False, s))
     in if spurious15 then Some (pic_eoi_master s)
     else if \<not> int_no int_ctx - 32 < 16 then None
     else let handler = irq_routines s ! unat (int_no int_ctx - 32) in
       do {
         s \<leftarrow> (if handler \<noteq> 0 then call handler (Context int_ctx) s else Some s);
         let s = (if 8 \<le> irq then pic_eoi_slave s else s);
         Some (pic_eoi_master s)
       })"

definition interrupt_handler :: "'w routines \<Rightarrow> interrupt_context \<Rightarrow> 'w intr \<Rightarrow> 'w intr option" where
  "interrupt_handler call int_ctx s =
     (if int_no int_ctx < 32 then isr_handler call int_ctx s
      else if 32 \<le> int_no int_ctx \<and> int_no int_ctx < 32 + 16 then irq_handler call int_ctx s
      else Some s)"

section \<open>The timer\<close>

text \<open>\<open>None\<close> is the trap of a division by zero; the C division rounds towards zero.\<close>

definition pit_phase :: "int \<Rightarrow> 'a machine_scheme \<Rightarrow> 'a machine_scheme option" where
  "pit_phase hz s = (if hz = 0 then None else let
     divisor = (of_int (sgn hz * (1193180 div \<bar>hz\<bar>)) :: u32);
     s = out8 0x43 0x36 s;
     s = out8 0x40 (ucast (divisor AND 0xFF)) s;
     s = out8 0x40 (ucast (signed_drop_bit 8 divisor AND 0xFF)) s
     in Some s)"

definition pit_handler :: "'w intr \<Rightarrow> 'w intr" where
  "pit_handler s = s\<lparr>timer_ticks := timer_ticks s + 1\<rparr>"

text \<open>
  The interrupts that arrive are a sequence \<open>ints\<close>; each \<open>hlt\<close> waits for the next, whose handler runs before
  the condition is evaluated again.  The result has the number of interrupts taken.
\<close>

partial_function (option) sleep_loop :: "'w routines \<Rightarrow> (nat \<Rightarrow> interrupt_context) \<Rightarrow> u32 \<Rightarrow> nat \<Rightarrow> 'w intr \<Rightarrow> (nat \<times> 'w intr) option" where
  "sleep_loop call ints eticks k s =
     (if sint (timer_ticks s) < sint eticks
      then do { s \<leftarrow> interrupt_handler call (ints k) s; sleep_loop call ints eticks (Suc k) s }
      else Some (k, s))"

definition sleep :: "'w routines \<Rightarrow> (nat \<Rightarrow> interrupt_context) \<Rightarrow> u32 \<Rightarrow> 'w intr \<Rightarrow> (nat \<times> 'w intr) option" where
  "sleep call ints ticks s = sleep_loop call ints (timer_ticks s + ticks) 0 s"

definition pit_install :: "u32 \<Rightarrow> 'w intr \<Rightarrow> 'w intr option" where
  "pit_install pit_handler_ptr s = do {
     s \<leftarrow> irq_install_handler 0 pit_handler_ptr s;
     s \<leftarrow> pit_phase 100 s;
     Some (log_call NOTICE ''PIT'' s)
   }"

declare sleep_loop.simps [code]

section \<open>The chips\<close>

text \<open>
  An interrupt controller as its data sheet describes it: a command byte with bit 4 starts an initialisation, the next
  bytes on the data port are the vector base, the wiring of the cascade and, if announced, the mode; afterwards
  the data port is the mask.  \<open>in_service\<close> lists the levels being served, that of highest priority
  first, which is the one an end-of-interrupt command ends.
\<close>

record pic_chip =
  stage :: nat
  expects_mode :: bool
  vector_base :: u8
  cascade :: u8
  pic_mode :: u8
  imr :: u8
  in_service :: "nat list"

definition pic_command :: "u8 \<Rightarrow> pic_chip \<Rightarrow> pic_chip" where
  "pic_command v c = (if bit v 4 then c\<lparr>stage := 1, expects_mode := bit v 0, imr := 0\<rparr>
     else if v = 0x20 then c\<lparr>in_service := tl (in_service c)\<rparr> else c)"

definition pic_data :: "u8 \<Rightarrow> pic_chip \<Rightarrow> pic_chip" where
  "pic_data v c = (if stage c = 1 then c\<lparr>vector_base := v AND 0xF8, stage := 2\<rparr>
     else if stage c = 2 then c\<lparr>cascade := v, stage := if expects_mode c then 3 else 0\<rparr>
     else if stage c = 3 then c\<lparr>pic_mode := v, stage := 0\<rparr>
     else c\<lparr>imr := v\<rparr>)"

fun pic_replay :: "u16 \<Rightarrow> io_event list \<Rightarrow> pic_chip \<Rightarrow> pic_chip" where
  "pic_replay p [] c = c"
| "pic_replay p (Out8 q v # es) c = (if q = p then pic_command v (pic_replay p es c)
     else if q = p + 1 then pic_data v (pic_replay p es c) else pic_replay p es c)"
| "pic_replay p (In8 q v # es) c = pic_replay p es c"
| "pic_replay p (Wait # es) c = pic_replay p es c"
| "pic_replay p (Ticks n # es) c = pic_replay p es c"

lemma pic_replay_append: "pic_replay p (es @ fs) c = pic_replay p es (pic_replay p fs c)"
  by (induction p es c rule: pic_replay.induct) simp_all

lemmas pic_consts = PIC_MASTER_def PIC_SLAVE_def PIC_COMMAND_def PIC_DATA_def PIC_CMD_ENDINTR_def PIC_ICW1_ICW4_def
  PIC_CMD_INIT_def PIC_MODE_8086_def PIC_READ_IRR_def PIC_READ_ISR_def

text \<open>
  \<open>pic_initialize\<close> programs both controllers whatever they were doing before: the eight lines of the master raise
  the vectors from 32, those of the slave the vectors from 40, the slave is wired to line 2 of the master, both are in
  8086 mode, ready, with no line masked.
\<close>

theorem pic_initialize_remaps:
  "\<exists>es. ports (pic_initialize s) = es @ ports s \<and>
     pic_replay PIC_MASTER es c = c\<lparr>stage := 0, expects_mode := True, vector_base := 32, cascade := 4, pic_mode := 1, imr := 0\<rparr> \<and>
     pic_replay PIC_SLAVE es d = d\<lparr>stage := 0, expects_mode := True, vector_base := 40, cascade := 2, pic_mode := 1, imr := 0\<rparr>"
proof -
  let ?es = "[Out8 0xA1 0, Out8 0x21 0, Out8 0xA1 1, Out8 0x21 1, Out8 0xA1 2, Out8 0x21 4, Out8 0xA1 40, Out8 0x21 32, Out8 0xA0 0x11, Out8 0x20 0x11]"
  have "ports (pic_initialize s) = ?es @ ports s" by (simp add: pic_initialize_def Let_def pic_consts)
  moreover have "pic_replay PIC_MASTER ?es c = c\<lparr>stage := 0, expects_mode := True, vector_base := 32, cascade := 4, pic_mode := 1, imr := 0\<rparr>"
    "pic_replay PIC_SLAVE ?es d = d\<lparr>stage := 0, expects_mode := True, vector_base := 40, cascade := 2, pic_mode := 1, imr := 0\<rparr>"
    by (simp_all add: pic_consts pic_command_def pic_data_def bit_numeral_rec(1))
  ultimately show ?thesis by blast
qed

section \<open>Ending interrupts\<close>

text \<open>The devices answer a reading of the in-service registers with level 7 of the two controllers.\<close>

definition isr_bits :: "'a machine_scheme \<Rightarrow> pic_chip \<Rightarrow> pic_chip \<Rightarrow> bool" where
  "isr_bits s c d \<longleftrightarrow> bit (fst (pic_read_isr s)) 7 = (7 \<in> set (in_service c)) \<and> bit (fst (pic_read_isr s)) 15 = (7 \<in> set (in_service d))"

definition pic_access :: "io_event \<Rightarrow> bool" where
  "pic_access e \<longleftrightarrow> (case e of Out8 q v \<Rightarrow> q \<in> {0x20, 0x21, 0xA0, 0xA1} | _ \<Rightarrow> False)"

lemma pic_replay_quiet:
  "\<forall>e \<in> set es. \<not> pic_access e \<Longrightarrow> pic_replay PIC_MASTER es c = c \<and> pic_replay PIC_SLAVE es d = d"
  by (induction es) (auto simp: pic_access_def pic_consts split: io_event.splits)

text \<open>The state in which the routine of line \<open>n\<close> starts: lines 7 and 15 are first checked.\<close>

definition checked :: "nat \<Rightarrow> 'a machine_scheme \<Rightarrow> 'a machine_scheme" where
  "checked n s = (if n = 7 \<or> n = 15 then snd (pic_read_isr s) else s)"

text \<open>
  The routine at \<open>h\<close>, if there is one, returns with \<open>s'\<close> and leaves the controllers alone.
\<close>

definition routine_runs :: "'w routines \<Rightarrow> u32 \<Rightarrow> interrupt_context \<Rightarrow> 'w intr \<Rightarrow> 'w intr \<Rightarrow> bool" where
  "routine_runs call h ctx s s' \<longleftrightarrow> (if h = 0 then s' = s else call h (Context ctx) s = Some s' \<and>
     (\<exists>fs. ports s' = fs @ ports s \<and> (\<forall>e \<in> set fs. \<not> pic_access e)))"

lemma pic_read_isr_ports:
  "\<exists>es. ports (snd (pic_read_isr s)) = es @ ports s \<and> pic_replay PIC_MASTER es c = c \<and> pic_replay PIC_SLAVE es d = d"
  "machine.more (snd (pic_read_isr s)) = machine.more s" "klog (snd (pic_read_isr s)) = klog s"
proof -
  have 0: "\<not> bit (11 :: u8) 4" by (simp add: bit_numeral_rec(1))
  let ?s = "out8 0xA0 0x0B (out8 0x20 0x0B s)"
  let ?a = "answers s (ports ?s) 0x20"
  let ?b = "answers s (In8 0x20 ?a # ports ?s) 0xA0"
  have "ports (snd (pic_read_isr s)) = [In8 0xA0 ?b, In8 0x20 ?a, Out8 0xA0 0x0B, Out8 0x20 0x0B] @ ports s"
    by (simp add: pic_read_isr_def Let_def pic_consts case_prod_unfold)
  moreover have "pic_replay PIC_MASTER [In8 0xA0 ?b, In8 0x20 ?a, Out8 0xA0 0x0B, Out8 0x20 0x0B] c = c"
    "pic_replay PIC_SLAVE [In8 0xA0 ?b, In8 0x20 ?a, Out8 0xA0 0x0B, Out8 0x20 0x0B] d = d"
    using 0 by (simp_all add: pic_consts pic_command_def)
  ultimately show "\<exists>es. ports (snd (pic_read_isr s)) = es @ ports s \<and> pic_replay PIC_MASTER es c = c \<and> pic_replay PIC_SLAVE es d = d" by blast
  show "machine.more (snd (pic_read_isr s)) = machine.more s" "klog (snd (pic_read_isr s)) = klog s"
    by (simp_all add: pic_read_isr_def Let_def case_prod_unfold)
qed

lemma checked_ports:
  "\<exists>es. ports (checked n s) = es @ ports s \<and> pic_replay PIC_MASTER es c = c \<and> pic_replay PIC_SLAVE es d = d"
  using pic_read_isr_ports(1) [of s c d] by (auto simp: checked_def)

lemma irq_number:
  assumes "n < 16" "int_no ctx = 32 + of_nat n"
  shows "(ucast (int_no ctx - 32) :: u8) = of_nat n" "unat (int_no ctx - 32) = n" "int_no ctx - 32 < 16"
    "\<not> int_no ctx < 32" "int_no ctx < 48" "(of_nat n :: u8) = 7 \<longleftrightarrow> n = 7" "(of_nat n :: u8) = 15 \<longleftrightarrow> n = 15" "8 \<le> (of_nat n :: u8) \<longleftrightarrow> 8 \<le> n"
proof -
  have d: "int_no ctx - 32 = of_nat n" using assms(2) by simp
  have u: "unat (of_nat n :: u32) = n" "unat (of_nat n :: u8) = n" using assms(1) by (simp_all add: unat_of_nat take_bit_nat_eq_self_iff)
  show "(ucast (int_no ctx - 32) :: u8) = of_nat n" using assms(1) u
    by (simp add: d word_unat_eq_iff unsigned_ucast_eq unsigned_take_bit_eq take_bit_nat_eq_self_iff)
  show "unat (int_no ctx - 32) = n" "int_no ctx - 32 < 16" using assms(1) u by (simp_all add: d word_less_nat_alt)
  have "unat (int_no ctx) = 32 + n" using assms u by (simp add: unat_u32_add_le)
  then show "\<not> int_no ctx < 32" "int_no ctx < 48" using assms(1) by (simp_all add: word_less_nat_alt)
  show "(of_nat n :: u8) = 7 \<longleftrightarrow> n = 7" "(of_nat n :: u8) = 15 \<longleftrightarrow> n = 15" "8 \<le> (of_nat n :: u8) \<longleftrightarrow> 8 \<le> n"
    using u by (simp_all add: word_unat_eq_iff word_le_nat_alt)
qed

definition eoi :: "nat \<Rightarrow> 'a machine_scheme \<Rightarrow> 'a machine_scheme" where
  "eoi n s = pic_eoi_master (if 8 \<le> n then pic_eoi_slave s else s)"

lemma eoi_ports:
  "\<exists>es. ports (eoi n s) = es @ ports s \<and> in_service (pic_replay PIC_MASTER es c) = tl (in_service c) \<and>
     in_service (pic_replay PIC_SLAVE es d) = (if 8 \<le> n then tl (in_service d) else in_service d)"
  "machine.more (eoi n s) = machine.more s"
proof -
  have 0: "\<not> bit (32 :: u8) 4" by (simp add: bit_numeral_rec(1))
  let ?es = "Out8 0x20 0x20 # (if 8 \<le> n then [Out8 0xA0 0x20] else [])"
  have "ports (eoi n s) = ?es @ ports s" by (simp add: eoi_def pic_eoi_master_def pic_eoi_slave_def pic_consts)
  moreover have "in_service (pic_replay PIC_MASTER ?es c) = tl (in_service c)"
    "in_service (pic_replay PIC_SLAVE ?es d) = (if 8 \<le> n then tl (in_service d) else in_service d)"
    using 0 by (simp_all add: pic_consts pic_command_def)
  ultimately show "\<exists>es. ports (eoi n s) = es @ ports s \<and> in_service (pic_replay PIC_MASTER es c) = tl (in_service c) \<and>
     in_service (pic_replay PIC_SLAVE es d) = (if 8 \<le> n then tl (in_service d) else in_service d)" by blast
  show "machine.more (eoi n s) = machine.more s" by (simp add: eoi_def pic_eoi_master_def pic_eoi_slave_def)
qed

definition spurious :: "nat \<Rightarrow> 'a machine_scheme \<Rightarrow> bool" where
  "spurious n s \<longleftrightarrow> n = 7 \<and> \<not> bit (fst (pic_read_isr s)) 7 \<or> n = 15 \<and> \<not> bit (fst (pic_read_isr s)) 15"

lemma irq_handler_cases:
  assumes "n < 16" "int_no ctx = 32 + of_nat n"
  shows "irq_handler call ctx s = (if spurious n s then Some (if n = 7 then checked n s else pic_eoi_master (checked n s))
    else let h = irq_routines s ! n in map_option (eoi n) (if h \<noteq> 0 then call h (Context ctx) (checked n s) else Some (checked n s)))"
proof -
  note i = irq_number [OF assms]
  have r: "irq_routines (snd (pic_read_isr s)) = irq_routines s"
    using pic_read_isr_ports(2) [of s] by (metis intr.ext_inject intr.surjective machine.select_convs(3))
  show ?thesis
    unfolding irq_handler_def spurious_def checked_def i(1)
    by (cases "n = 7"; cases "n = 15"; cases "irq_routines s ! n = 0") 
      (simp_all add: Let_def case_prod_unfold i r eoi_def map_option_case split: option.splits)
qed

text \<open>
  C31: the handler of line \<open>n\<close>, acknowledged by the controllers, calls the routine installed for this line, if there is one,
  once and with the context, and then ends the interrupt at the controllers that serve it: the levels in service are
  those before the interrupt, at the master and at the slave, and the rest of the state is as the routine left it.
\<close>

theorem irq_handler_ends:
  assumes "n < 16" and "int_no ctx = 32 + of_nat n" and "isr_bits s c d"
    and "(in_service c, in_service d) = (if n < 8 then (n # M, S) else (2 # M, (n - 8) # S))"
    and "routine_runs call (irq_routines s ! n) ctx (checked n s) s1"
  shows "\<exists>s' es. interrupt_handler call ctx s = Some s' \<and> machine.more s' = machine.more s1 \<and> ports s' = es @ ports s \<and>
    in_service (pic_replay PIC_MASTER es c) = M \<and> in_service (pic_replay PIC_SLAVE es d) = S"
proof -
  have "\<not> spurious n s" using assms(3,4) by (auto simp: spurious_def isr_bits_def)
  then have e: "interrupt_handler call ctx s = Some (eoi n s1)"
    using assms(5) irq_number [OF assms(1,2)]
    by (auto simp: interrupt_handler_def irq_handler_cases [OF assms(1,2)] routine_runs_def Let_def word_less_nat_alt word_le_nat_alt split: if_splits)
  obtain es1 where 1: "ports (checked n s) = es1 @ ports s" "pic_replay PIC_MASTER es1 c = c" "pic_replay PIC_SLAVE es1 d = d"
    using checked_ports by blast
  obtain fs where 2: "ports s1 = fs @ ports (checked n s)" "pic_replay PIC_MASTER fs c = c" "pic_replay PIC_SLAVE fs d = d"
    using assms(5) pic_replay_quiet by (fastforce simp: routine_runs_def split: if_splits)
  obtain es2 where 3: "ports (eoi n s1) = es2 @ ports s1" "in_service (pic_replay PIC_MASTER es2 c) = tl (in_service c)"
     "in_service (pic_replay PIC_SLAVE es2 d) = (if 8 \<le> n then tl (in_service d) else in_service d)"
    using eoi_ports(1) by blast
  show ?thesis
  proof (intro exI conjI)
    show "interrupt_handler call ctx s = Some (eoi n s1)" by (rule e)
    show "machine.more (eoi n s1) = machine.more s1" by (rule eoi_ports(2))
    show "ports (eoi n s1) = (es2 @ fs @ es1) @ ports s" using 1 2 3 by simp
    show "in_service (pic_replay PIC_MASTER (es2 @ fs @ es1) c) = M" "in_service (pic_replay PIC_SLAVE (es2 @ fs @ es1) d) = S"
      using 1 2 3 assms(4) by (auto simp: pic_replay_append split: if_splits)
  qed
qed

text \<open>
  a spurious interrupt, on line 7 or 15 with level 7 not in service at its controller, calls no routine.  On line 7
  no controller is told; on line 15 the master, which did see line 2, ends that level.  The rest of the state
  is unchanged.
\<close>

theorem irq_handler_spurious:
  assumes "int_no ctx = 32 + of_nat n" and "isr_bits s c d"
    and "n = 7 \<and> 7 \<notin> set (in_service c) \<and> M = in_service c \<or> n = 15 \<and> 7 \<notin> set (in_service d) \<and> in_service c = 2 # M"
  shows "\<exists>s' es. interrupt_handler call ctx s = Some s' \<and> machine.more s' = machine.more s \<and> ports s' = es @ ports s \<and>
    in_service (pic_replay PIC_MASTER es c) = M \<and> in_service (pic_replay PIC_SLAVE es d) = in_service d"
proof -
  have n: "n < 16" using assms(3) by auto
  let ?s = "if n = 7 then checked n s else pic_eoi_master (checked n s)"
  have "spurious n s" using assms(2,3) by (auto simp: spurious_def isr_bits_def)
  then have e: "interrupt_handler call ctx s = Some ?s"
    using irq_number [OF n assms(1)]
    by (auto simp: interrupt_handler_def irq_handler_cases [OF n assms(1)] word_less_nat_alt word_le_nat_alt)
  obtain es1 where 1: "ports (checked n s) = es1 @ ports s" "pic_replay PIC_MASTER es1 c = c" "pic_replay PIC_SLAVE es1 d = d"
    using checked_ports by blast
  have m: "pic_eoi_master (checked n s) = eoi 0 (checked n s)" by (simp add: eoi_def)
  obtain es2 where 3: "ports (eoi 0 (checked n s)) = es2 @ ports (checked n s)" "in_service (pic_replay PIC_MASTER es2 c) = tl (in_service c)"
     "in_service (pic_replay PIC_SLAVE es2 d) = in_service d"
    using eoi_ports(1) [of 0 "checked n s" c d] by auto
  show ?thesis
  proof (intro exI conjI)
    show "interrupt_handler call ctx s = Some ?s" by (rule e)
    show "machine.more ?s = machine.more s" using pic_read_isr_ports(2) [of s] by (simp add: m eoi_ports(2)) (simp add: checked_def)
    show "ports ?s = ((if n = 7 then [] else es2) @ es1) @ ports s" using 1 3 by (auto simp: m)
    show "in_service (pic_replay PIC_MASTER ((if n = 7 then [] else es2) @ es1) c) = M"
      "in_service (pic_replay PIC_SLAVE ((if n = 7 then [] else es2) @ es1) d) = in_service d"
      using 1 3 assms(3) by (auto simp: pic_replay_append)
  qed
qed

section \<open>The timer\<close>

text \<open>
  \<open>pit_phase\<close> loads the timer with the bytes, low first, of the divisor of its base frequency for every frequency
  from 19 Hz up; below 19 Hz the divisor does not fit in the two bytes.
\<close>

theorem pit_phase_divisor:
  assumes "19 \<le> hz" and "hz \<le> 1193180"
  shows "\<exists>s' lo hi. pit_phase hz s = Some s' \<and> ports s' = [Out8 0x40 hi, Out8 0x40 lo, Out8 0x43 0x36] @ ports s \<and>
    int (unat lo + 256 * unat hi) = 1193180 div hz"
proof -
  let ?q = "1193180 div hz"
  define d where "d = (of_int ?q :: u32)"
  have q: "1 \<le> ?q" "?q \<le> 62798"
    using assms zdiv_mono2 [of 1193180 19 hz] pos_imp_zdiv_pos_iff [of hz 1193180] by auto
  then have d: "uint d = ?q" by (simp add: d_def uint_word_of_int_eq take_bit_int_eq_self_iff)
  then have ud: "unat d = nat ?q" by (simp add: unat_eq_nat_uint)
  have sd: "signed_drop_bit 8 d = drop_bit 8 d"
  proof -
    have "unat d < 2147483648" using q ud by simp
    then have "\<not> bit (unat d) 31" by (simp add: bit_iff_odd)
    then have "\<not> bit d 31" by (simp add: bit_unsigned_iff)
    then show ?thesis by (intro bit_word_eqI) (auto simp: bit_simps min_def dest: bit_imp_le_length)
  qed
  let ?lo = "ucast (d AND 0xFF) :: u8" and ?hi = "ucast (drop_bit 8 d AND 0xFF) :: u8"
  have "(x :: u32) AND 0xFF = take_bit 8 x" for x by (simp add: take_bit_eq_mask mask_eq_exp_minus_1)
  then have "unat ?lo = unat d mod 256" "unat ?hi = (unat d div 256) mod 256"
    by (simp_all add: unsigned_ucast_eq unsigned_take_bit_eq unsigned_drop_bit_eq) (simp_all add: take_bit_eq_mod drop_bit_eq_div unat_u32_lt)
  moreover have "unat d div 256 < 256" using q ud by simp
  ultimately have "int (unat ?lo + 256 * unat ?hi) = ?q" using q ud by simp
  then show ?thesis using assms sd by (intro exI conjI) (auto simp: pit_phase_def Let_def d_def [symmetric])
qed

text \<open>
  The interrupts that arrive are device interrupts, the timer's routine is the one at \<open>pit\<close>, and every other routine
  returns without touching the tick counter or the table of routines.
\<close>

definition timer_installed :: "'w routines \<Rightarrow> u32 \<Rightarrow> (nat \<Rightarrow> interrupt_context) \<Rightarrow> bool" where
  "timer_installed call pit ints \<longleftrightarrow> pit \<noteq> 0 \<and> (\<forall>k. 32 \<le> int_no (ints k) \<and> int_no (ints k) < 48) \<and>
     (\<forall>arg s. call pit arg s = Some (pit_handler s)) \<and>
     (\<forall>p arg s. p \<noteq> pit \<longrightarrow> (\<exists>s'. call p arg s = Some s' \<and> timer_ticks s' = timer_ticks s \<and> irq_routines s' = irq_routines s))"

definition only_timer :: "u32 \<Rightarrow> 'w intr \<Rightarrow> bool" where
  "only_timer pit s \<longleftrightarrow> irq_routines s ! 0 = pit \<and> (\<forall>n < 16. 0 < n \<longrightarrow> irq_routines s ! n \<noteq> pit)"

definition ticks_in :: "(nat \<Rightarrow> interrupt_context) \<Rightarrow> nat \<Rightarrow> nat" where
  "ticks_in ints k = length (filter (\<lambda>i. int_no (ints i) = 32) [0..<k])"

lemma checked_keeps: "timer_ticks (checked n s) = timer_ticks s \<and> irq_routines (checked n s) = irq_routines s"
proof -
  have "machine.more (checked n s) = machine.more s" using pic_read_isr_ports(2) [of s] by (simp add: checked_def)
  then show ?thesis by (cases s; cases "checked n s") simp
qed

lemma eoi_keeps: "timer_ticks (eoi n s) = timer_ticks s \<and> irq_routines (eoi n s) = irq_routines s"
  using eoi_ports(2) [of n s] by (cases s; cases "eoi n s") simp

lemma eoi_master_keeps: "timer_ticks (pic_eoi_master s) = timer_ticks s \<and> irq_routines (pic_eoi_master s) = irq_routines s"
  using eoi_keeps [of 0 s] by (simp add: eoi_def)

lemma irq_line:
  assumes "32 \<le> x" "x < (48 :: u32)"
  obtains n where "n < 16" "x = 32 + of_nat n" "(x = 32) = (n = 0)"
proof
  show "unat x - 32 < 16" "x = 32 + of_nat (unat x - 32)" "(x = 32) = (unat x - 32 = 0)"
    using assms by (auto simp: word_less_nat_alt word_le_nat_alt of_nat_diff word_unat_eq_iff)
qed

lemma interrupt_tick:
  assumes "timer_installed call pit ints" "only_timer pit s"
  shows "\<exists>s'. interrupt_handler call (ints k) s = Some s' \<and> only_timer pit s' \<and>
    timer_ticks s' = timer_ticks s + (if int_no (ints k) = 32 then 1 else 0)"
proof -
  have r: "32 \<le> int_no (ints k)" "int_no (ints k) < 48" using assms(1) by (auto simp: timer_installed_def)
  then obtain n where n: "n < 16" "int_no (ints k) = 32 + of_nat n" "(int_no (ints k) = 32) = (n = 0)" using irq_line by blast
  have e: "interrupt_handler call (ints k) s = irq_handler call (ints k) s"
    using r by (simp add: interrupt_handler_def word_less_nat_alt word_le_nat_alt)
  show ?thesis
  proof (cases "spurious n s")
    case True
    then have "n \<noteq> 0" by (auto simp: spurious_def)
    then show ?thesis using True e n assms(2) checked_keeps [of n s] eoi_master_keeps [of "checked n s"]
      by (auto simp: irq_handler_cases [OF n(1,2)] only_timer_def)
  next
    case False
    let ?h = "irq_routines s ! n"
    have "\<exists>s'. (if ?h \<noteq> 0 then call ?h (Context (ints k)) (checked n s) else Some (checked n s)) = Some s' \<and>
        irq_routines s' = irq_routines s \<and> timer_ticks s' = timer_ticks s + (if n = 0 then 1 else 0)"
    proof (cases "n = 0")
      case True
      then show ?thesis using assms checked_keeps [of n s] by (auto simp: timer_installed_def only_timer_def pit_handler_def)
    next
      case n0: False
      then have "?h \<noteq> pit" using assms(2) n(1) by (auto simp: only_timer_def)
      then show ?thesis using assms(1) checked_keeps [of n s] n0 by (auto simp: timer_installed_def) metis
    qed
    then obtain s' where s': "(if ?h \<noteq> 0 then call ?h (Context (ints k)) (checked n s) else Some (checked n s)) = Some s'"
      "irq_routines s' = irq_routines s" "timer_ticks s' = timer_ticks s + (if n = 0 then 1 else 0)" by blast
    then have "interrupt_handler call (ints k) s = Some (eoi n s')"
      using False e by (auto simp: irq_handler_cases [OF n(1,2)] Let_def split: if_splits)
    then show ?thesis using s' n(3) eoi_keeps [of n s'] assms(2) by (auto simp: only_timer_def)
  qed
qed

lemma ticks_in_Suc: "ticks_in ints (Suc k) = ticks_in ints k + (if int_no (ints k) = 32 then 1 else 0)"
  by (simp add: ticks_in_def)

lemma sleep_loop_ends:
  assumes "timer_installed call pit ints" "only_timer pit s" "timer_ticks s = t + of_nat (ticks_in ints k)"
    "unat t + unat ticks < 2147483648" "ticks_in ints k \<le> unat ticks" "unat ticks \<le> ticks_in ints n"
  shows "\<exists>k' s'. sleep_loop call ints (t + ticks) k s = Some (k', s') \<and> ticks_in ints k' = unat ticks \<and> timer_ticks s' = t + ticks"
  using assms(2,3,5)
proof (induction "n - k" arbitrary: k s rule: less_induct)
  case less
  have u: "unat (t + ticks) = unat t + unat ticks" using assms(4) by (intro unat_u32_add_le) simp
  have "unat (of_nat (ticks_in ints k) :: u32) = ticks_in ints k" using less.prems(3) assms(4) by (intro unat_of_nat_u32) simp
  then have us: "unat (timer_ticks s) = unat t + ticks_in ints k"
    using less.prems(2,3) assms(4) by (simp add: unat_u32_add_le)
  have c: "sint (timer_ticks s) < sint (t + ticks) \<longleftrightarrow> ticks_in ints k < unat ticks"
  proof -
    have "sint (timer_ticks s) = int (unat (timer_ticks s))" "sint (t + ticks) = int (unat (t + ticks))"
      using u us less.prems(3) assms(4) by (simp_all only: sint_small)
    then show ?thesis by (simp only: u us of_nat_less_iff) simp
  qed
  show ?case
  proof (cases "ticks_in ints k < unat ticks")
    case False
    then have "ticks_in ints k = unat ticks" using less.prems(3) by simp
    moreover have "timer_ticks s = t + ticks" using us u calculation by (simp add: word_unat_eq_iff)
    ultimately show ?thesis using False c by (subst sleep_loop.simps) simp
  next
    case True
    have "k < n"
    proof (rule ccontr)
      assume "\<not> k < n"
      then have "[0..<k] = [0..<n] @ [n..<k]" by (metis le0 le_add_diff_inverse not_less upt_add_eq_append)
      then have "ticks_in ints n \<le> ticks_in ints k" by (simp add: ticks_in_def)
      then show False using True assms(6) by simp
    qed
    obtain s' where s': "interrupt_handler call (ints k) s = Some s'" "only_timer pit s'"
      "timer_ticks s' = timer_ticks s + (if int_no (ints k) = 32 then 1 else 0)"
      using interrupt_tick [OF assms(1) less.prems(1)] by blast
    have "\<exists>k' s''. sleep_loop call ints (t + ticks) (Suc k) s' = Some (k', s'') \<and> ticks_in ints k' = unat ticks \<and> timer_ticks s'' = t + ticks"
      using \<open>k < n\<close> s' less.prems True by (intro less.hyps) (auto simp: ticks_in_Suc)
    then show ?thesis using True c s'(1) by (subst sleep_loop.simps) simp
  qed
qed


text \<open>
  an exception without a routine prints its message, its number and the notice of the halt, in this order, and halts the
  processor; with a routine, the routine is called with the error code and the processor halts as well when it
  returns.
\<close>

theorem isr_handler_halts:
  assumes "int_no ctx < 32" and "isr_routines s ! unat (int_no ctx) = h"
    and "h \<noteq> 0 \<Longrightarrow> call h (Code (err_code ctx)) s = Some s1"
  shows "interrupt_handler call ctx s = Some ((if h = 0 then s\<lparr>printed := (''System Halted!\<newline>'', []) #
      (''\<newline>Fult number:%i\<newline>\<newline>'', [int_no ctx]) # (exception_messages ! unat (int_no ctx), []) # printed s\<rparr> else s1)\<lparr>halted := True\<rparr>)"
  using assms by (auto simp: interrupt_handler_def isr_handler_def print_call_def Let_def)

section \<open>A sample state\<close>

definition sample_call :: "unit routines" where
  "sample_call p arg s = (if p = 0x1000 then Some (pit_handler s) else Some s)"

definition sample_ctx :: "u32 \<Rightarrow> interrupt_context" where
  "sample_ctx n = \<lparr>ctx_cr2 = 0, ctx_gs = 0, ctx_fs = 0, ctx_ds = 0, ctx_es = 0, ctx_edi = 0, ctx_esi = 0, ctx_ebp = 0, ctx_ebx = 0,
     ctx_edx = 0, ctx_ecx = 0, ctx_eax = 0, int_no = n, err_code = 2, ctx_cs = 8, ctx_eflags = 0, ctx_esp = 0, ctx_ss = 0\<rparr>"

text \<open>The slave reports level 7 in service; the routine of the timer is at \<open>0x1000\<close>, another one serves line 15.\<close>

definition sample_intr :: "unit intr" where
  "sample_intr = \<lparr>mbus = \<lparr>device = (\<lambda>h p. if p = 0xA0 then 0x80 else 0), trace = []\<rparr>, klog = [],
     irq_routines = [0x1000, 0, 0, 0, 0, 0, 0, 0, 0, 0, 0, 0, 0, 0, 0, 0x2000], isr_routines = replicate 32 0, timer_ticks = 41,
     printed = [], halted = False, world = ()\<rparr>"

definition sample_chip :: "nat list \<Rightarrow> pic_chip" where
  "sample_chip l = \<lparr>stage = 0, expects_mode = True, vector_base = 32, cascade = 4, pic_mode = 1, imr = 0, in_service = l\<rparr>"

lemma sample_isr: "fst (pic_read_isr sample_intr) = 0x8000"
  by (simp add: pic_read_isr_def Let_def case_prod_unfold pic_consts) (simp add: sample_intr_def)

lemma sample_isr_bits: "7 \<notin> set l \<Longrightarrow> isr_bits sample_intr (sample_chip l) (sample_chip [7])"
  by (simp add: isr_bits_def sample_isr sample_chip_def bit_numeral_rec(1))

theorem irq_handler_ends_witness:
  "\<exists>s' es. interrupt_handler sample_call (sample_ctx 47) sample_intr = Some s' \<and>
    machine.more s' = machine.more (checked 15 sample_intr) \<and> ports s' = es @ ports sample_intr \<and>
    in_service (pic_replay PIC_MASTER es (sample_chip [2])) = [] \<and> in_service (pic_replay PIC_SLAVE es (sample_chip [7])) = []"
proof (rule irq_handler_ends [where n = 15])
  show "routine_runs sample_call (irq_routines sample_intr ! 15) (sample_ctx 47) (checked 15 sample_intr) (checked 15 sample_intr)"
    by (simp add: routine_runs_def sample_call_def) (simp add: sample_intr_def)
qed (simp_all add: sample_isr_bits sample_ctx_def, simp add: sample_chip_def)

theorem irq_handler_spurious_witness:
  "\<exists>s' es. interrupt_handler sample_call (sample_ctx 39) sample_intr = Some s' \<and>
    machine.more s' = machine.more sample_intr \<and> ports s' = es @ ports sample_intr \<and>
    in_service (pic_replay PIC_MASTER es (sample_chip [])) = [] \<and> in_service (pic_replay PIC_SLAVE es (sample_chip [7])) = in_service (sample_chip [7])"
  by (rule irq_handler_spurious [where n = 7]) (simp_all add: sample_isr_bits sample_ctx_def, simp add: sample_chip_def)

theorem pit_phase_divisor_witness:
  "\<exists>s' lo hi. pit_phase 100 sample_intr = Some s' \<and> ports s' = [Out8 0x40 hi, Out8 0x40 lo, Out8 0x43 0x36] @ ports sample_intr \<and>
    int (unat lo + 256 * unat hi) = 1193180 div 100"
  by (rule pit_phase_divisor) simp_all

text \<open>Every second interrupt is a tick of the timer.\<close>

definition sample_ints :: "nat \<Rightarrow> interrupt_context" where
  "sample_ints k = sample_ctx (if even k then 33 else 32)"


theorem isr_handler_halts_witness:
  "interrupt_handler sample_call (sample_ctx 14) sample_intr = Some (sample_intr\<lparr>printed := [(''System Halted!\<newline>'', []),
     (''\<newline>Fult number:%i\<newline>\<newline>'', [14]), (''Page Fault'', [])], halted := True\<rparr>)"
  using isr_handler_halts [of "sample_ctx 14" sample_intr 0 sample_call sample_intr]
  by (simp add: sample_ctx_def sample_intr_def exception_messages_def)

end
