(* ===== verification/Keyboard.thy ===== *)
theory Keyboard
  imports Terminal Interrupts
begin

text \<open>
  The keyboard driver (\<open>kernel/kernel/kb.c\<close>): the interrupt handler with its two buffers, on the terminal whose memory and ports
  it shares, and the table of characters (\<open>kbdus.h\<close>).  The reachable states of the driver are an inductive predicate; the
  bounds of the buffer positions are its invariant.
\<close>

section \<open>The handler\<close>

definition KB_SCANCODE :: u16 where "KB_SCANCODE = 0x60"
definition KB_BRAKECODE :: u8 where "KB_BRAKECODE = 0x80"
definition KB_MAXBUFFER :: int where "KB_MAXBUFFER = 255"

definition kbdus :: "u8 list" where
  "kbdus = [0, 27, 49, 50, 51, 52, 53, 54, 55, 56, 57, 48, 45, 61, 8, 9, 113, 119, 101, 114, 116, 121, 117, 105, 111, 112, 91, 93, 10,
     0, 97, 115, 100, 102, 103, 104, 106, 107, 108, 59, 39, 96, 0, 92, 122, 120, 99, 118, 98, 110, 109, 44, 46, 47, 0, 42, 0, 32, 0, 0,
     0, 0, 0, 0, 0, 0, 0, 0, 0, 0, 0, 0, 0, 0, 45, 0, 0, 0, 43, 0, 0, 0, 0, 0, 0, 0, 0, 0, 0, 0] @ replicate 38 0"

text \<open>The variables of the driver, with the terminal, whose memory and ports it uses.\<close>

record keyboard =
  kterm :: terminal
  kb_buffer :: u32
  kb_buffer_raw :: u32
  kb_count :: u32
  kb_count_raw :: u32
  kb_ltmp :: u16
  kb_shift_flag :: int
  kb_caps_flag :: int
  wait_set :: int

text \<open>
  How the handler ends: it returns, or one of the keys 1, 2 and 3 makes it print a message and read the address
  \<open>0xA0000000\<close>, call \<open>heap_alloc\<close> for a page, or call \<open>kmalloc\<close> for an integer, before it returns; \<open>Keyboard_Kernel\<close> goes on from there.
\<close>

datatype kb_end = Returns | Reads_unmapped | Allocates_page | Allocates_int

definition kb_out :: "u16 \<Rightarrow> u8 \<Rightarrow> keyboard \<Rightarrow> keyboard" where
  "kb_out port v s = s\<lparr>kterm := (kterm s)\<lparr>tbus := outport8 port v (tbus (kterm s))\<rparr>\<rparr>"

definition kb_store :: "u32 \<Rightarrow> u8 \<Rightarrow> keyboard \<Rightarrow> keyboard" where
  "kb_store a v s = s\<lparr>kterm := (kterm s)\<lparr>tmem := (tmem (kterm s))(a := v)\<rparr>\<rparr>"

definition kb_leds :: "u16 \<Rightarrow> keyboard \<Rightarrow> keyboard" where
  "kb_leds led s = (let
     s = kb_out 0x60 0xED s;
     s = s\<lparr>kb_ltmp := kb_ltmp s OR led\<rparr>
     in kb_out 0x60 (ucast (kb_ltmp s)) s)"

definition store_raw :: "u8 \<Rightarrow> keyboard \<Rightarrow> keyboard" where
  "store_raw scancode s =
     (if sint (kb_count_raw s) < KB_MAXBUFFER
      then (kb_store (kb_buffer_raw s + kb_count_raw s) scancode s)\<lparr>kb_count_raw := kb_count_raw s + 1\<rparr>
      else let s = s\<lparr>kb_count_raw := 0\<rparr> in kb_store (kb_buffer_raw s + kb_count_raw s) scancode s)"

definition set_leds :: "u8 \<Rightarrow> keyboard \<Rightarrow> keyboard" where
  "set_leds scancode s =
     (if scancode = 0x3A then let s = kb_leds 4 s in s\<lparr>kb_caps_flag := (if kb_caps_flag s \<noteq> 0 then 0 else 1)\<rparr>
      else if scancode = 0x45 then kb_leds 2 s
      else if scancode = 0x46 then kb_leds 1 s
      else s)"

definition store_char :: "u8 \<Rightarrow> keyboard \<Rightarrow> keyboard" where
  "store_char c s =
     (if sint (kb_count s) < KB_MAXBUFFER
      then (kb_store (kb_buffer s + kb_count_raw s) c s)\<lparr>kb_count_raw := kb_count_raw s + 1\<rparr>
      else let s = s\<lparr>kb_count := 0\<rparr> in kb_store (kb_buffer s + kb_count s) c s)"

definition keyboard_handler :: "keyboard \<Rightarrow> keyboard \<times> kb_end" where
  "keyboard_handler s = (let
     s = s\<lparr>wait_set := 0\<rparr>;
     (scancode, b) = inport8 KB_SCANCODE (tbus (kterm s));
     s = s\<lparr>kterm := (kterm s)\<lparr>tbus := b\<rparr>\<rparr>;
     s = store_raw scancode s;
     s = set_leds scancode s
     in if scancode AND KB_BRAKECODE \<noteq> 0 then
       (if scancode - KB_BRAKECODE = 42 \<or> scancode - KB_BRAKECODE = 54 then s\<lparr>kb_shift_flag := 0\<rparr> else s, Returns)
     else if scancode = 42 \<or> scancode = 54 then (s\<lparr>kb_shift_flag := 1\<rparr>, Returns)
     else let c = kbdus ! unat scancode; s = store_char c s in
       if c = 49 then (s, Reads_unmapped)
       else if c = 50 then (s, Allocates_page)
       else if c = 51 then (s, Allocates_int)
       else (s\<lparr>kterm := terminal_putchar c (kterm s)\<rparr>, Returns))"

text \<open>\<open>while(wait)\<close> tests the address of the function, which is never null: the loop has no exit.\<close>

partial_function (option) wait_loop :: "u32 \<Rightarrow> keyboard \<Rightarrow> keyboard option" where
  "wait_loop wait_ptr s = (if wait_ptr \<noteq> 0 then wait_loop wait_ptr s else Some s)"

definition wait :: "u32 \<Rightarrow> keyboard \<Rightarrow> keyboard option" where
  "wait wait_ptr s = wait_loop wait_ptr (s\<lparr>wait_set := 1\<rparr>)"

definition keyboard_install :: "u32 \<Rightarrow> 'w intr \<Rightarrow> 'w intr option" where
  "keyboard_install keyboard_handler_ptr s = do {
     s \<leftarrow> irq_install_handler 1 keyboard_handler_ptr s;
     Some (log_call NOTICE ''Keyboard'' s)
   }"

declare wait_loop.simps [code]

section \<open>The buffers\<close>

definition scancode_of :: "keyboard \<Rightarrow> u8" where
  "scancode_of s = device (tbus (kterm s)) (trace (tbus (kterm s))) KB_SCANCODE"

text \<open>The states the driver can be in: the counters start at 0, and between interrupts other code uses the terminal.\<close>

inductive kb_reachable :: "keyboard \<Rightarrow> bool" where
  init: "kb_count s = 0 \<Longrightarrow> kb_count_raw s = 0 \<Longrightarrow> kb_reachable s"
| interrupt: "kb_reachable s \<Longrightarrow> keyboard_handler (s\<lparr>kterm := t\<rparr>) = (s', e) \<Longrightarrow> kb_reachable s'"

definition kb_counts :: "keyboard \<Rightarrow> bool" where
  "kb_counts s \<longleftrightarrow> kb_count s = 0 \<and> unat (kb_count_raw s) \<le> 256"

lemma kb_leds_fields [simp]:
  "kb_count (kb_leds l s) = kb_count s" "kb_count_raw (kb_leds l s) = kb_count_raw s" "kb_buffer (kb_leds l s) = kb_buffer s"
  "kb_buffer_raw (kb_leds l s) = kb_buffer_raw s" "tmem (kterm (kb_leds l s)) = tmem (kterm s)"
  "terminal_ok (kterm (kb_leds l s)) = terminal_ok (kterm s)" "screen_of (kterm (kb_leds l s)) = screen_of (kterm s)"
  "terminal_column (kterm (kb_leds l s)) = terminal_column (kterm s)" "terminal_color (kterm (kb_leds l s)) = terminal_color (kterm s)"
  by (simp_all add: kb_leds_def kb_out_def Let_def terminal_ok_def screen_of_def cells_def buffer_get_def)

lemma set_leds_fields [simp]:
  "kb_count (set_leds c s) = kb_count s" "kb_count_raw (set_leds c s) = kb_count_raw s" "kb_buffer (set_leds c s) = kb_buffer s"
  "kb_buffer_raw (set_leds c s) = kb_buffer_raw s" "tmem (kterm (set_leds c s)) = tmem (kterm s)"
  "terminal_ok (kterm (set_leds c s)) = terminal_ok (kterm s)" "screen_of (kterm (set_leds c s)) = screen_of (kterm s)"
  "terminal_column (kterm (set_leds c s)) = terminal_column (kterm s)" "terminal_color (kterm (set_leds c s)) = terminal_color (kterm s)"
  by (simp_all add: set_leds_def Let_def)

lemma raw_index: "unat x \<le> 256 \<Longrightarrow> sint (x :: u32) < KB_MAXBUFFER \<longleftrightarrow> unat x < 255"
proof -
  assume a: "unat x \<le> 256"
  then have "sint x = int (unat x)" by (intro sint_small) simp
  then show ?thesis by (simp only: KB_MAXBUFFER_def) linarith
qed

lemma store_raw_count:
  assumes "kb_counts s"
  shows "kb_count (store_raw c s) = 0" "unat (kb_count_raw (store_raw c s)) \<le> 255"
proof -
  have "unat (kb_count_raw s + 1) = unat (kb_count_raw s) + 1" if "unat (kb_count_raw s) < 255"
    using that by (subst unat_u32_add_le) simp_all
  then show "kb_count (store_raw c s) = 0" "unat (kb_count_raw (store_raw c s)) \<le> 255"
    using assms raw_index [of "kb_count_raw s"] by (auto simp: store_raw_def kb_counts_def kb_store_def Let_def)
qed

lemma store_char_count:
  assumes "kb_count s = 0" "unat (kb_count_raw s) \<le> 255"
  shows "kb_counts (store_char c s)" "store_char c s = (kb_store (kb_buffer s + kb_count_raw s) c s)\<lparr>kb_count_raw := kb_count_raw s + 1\<rparr>"
proof -
  have "unat (kb_count_raw s + 1) = unat (kb_count_raw s) + 1" using assms by (subst unat_u32_add_le) simp_all
  then show "kb_counts (store_char c s)" using assms
    by (simp add: store_char_def kb_counts_def kb_store_def KB_MAXBUFFER_def)
  show "store_char c s = (kb_store (kb_buffer s + kb_count_raw s) c s)\<lparr>kb_count_raw := kb_count_raw s + 1\<rparr>"
    using assms by (simp add: store_char_def KB_MAXBUFFER_def)
qed

lemma keyboard_handler_counts:
  assumes "kb_counts s"
  shows "kb_counts (fst (keyboard_handler s))"
proof -
  let ?c = "scancode_of s"
  let ?s = "set_leds ?c (store_raw ?c (s\<lparr>wait_set := 0, kterm := (kterm s)\<lparr>tbus := snd (inport8 KB_SCANCODE (tbus (kterm s)))\<rparr>\<rparr>))"
  have i: "fst (inport8 KB_SCANCODE (tbus (kterm s))) = ?c" by (simp add: inport8_def Let_def scancode_of_def)
  have c: "kb_count ?s = 0" "unat (kb_count_raw ?s) \<le> 255"
    using store_raw_count [of "s\<lparr>wait_set := 0, kterm := (kterm s)\<lparr>tbus := snd (inport8 KB_SCANCODE (tbus (kterm s)))\<rparr>\<rparr>" ?c] assms by (simp_all add: kb_counts_def)
  then have "kb_counts ?s" "kb_counts (store_char x ?s)" for x using store_char_count(1) by (simp_all add: kb_counts_def)
  then show ?thesis by (simp add: keyboard_handler_def Let_def case_prod_unfold i kb_counts_def)
qed

lemma kb_reachable_inv: "kb_reachable s \<Longrightarrow> kb_counts s"
proof (induction rule: kb_reachable.induct)
  case (init s)
  then show ?case by (simp add: kb_counts_def)
next
  case (interrupt s t s' e)
  then have "kb_counts (s\<lparr>kterm := t\<rparr>)" by (simp add: kb_counts_def)
  then show ?case using keyboard_handler_counts interrupt.hyps(2) by (metis fst_conv)
qed

text \<open>
  C38: in every reachable state the position in the character buffer is still 0 and the one in the raw buffer, which serves both
  buffers, is at most 256.
\<close>

theorem kb_reachable_counts:
  assumes "kb_reachable s"
  shows "kb_count s = 0 \<and> unat (kb_count_raw s) \<le> 256"
  using kb_reachable_inv [OF assms] by (simp add: kb_counts_def)

text \<open>The state after the scancode is read, stored and the lights are set.\<close>

definition kb_read :: "keyboard \<Rightarrow> keyboard" where
  "kb_read s = set_leds (scancode_of s) (store_raw (scancode_of s) (s\<lparr>wait_set := 0, kterm := (kterm s)\<lparr>tbus := snd (inport8 KB_SCANCODE (tbus (kterm s)))\<rparr>\<rparr>))"

lemma store_raw_mem:
  assumes "kb_counts s"
  shows "\<exists>i < 255. tmem (kterm (store_raw c s)) = (tmem (kterm s))(kb_buffer_raw s + of_nat i := c)"
proof (cases "unat (kb_count_raw s) < 255")
  case True
  then show ?thesis using raw_index [of "kb_count_raw s"]
    by (intro exI [of _ "unat (kb_count_raw s)"]) (simp add: store_raw_def kb_store_def)
next
  case False
  then show ?thesis using raw_index [of "kb_count_raw s"] assms
    by (intro exI [of _ 0]) (simp add: store_raw_def kb_store_def Let_def kb_counts_def)
qed

lemma store_raw_fields [simp]:
  "kb_buffer (store_raw c s) = kb_buffer s" "terminal_ok (kterm (store_raw c s)) = terminal_ok (kterm s)"
  "terminal_column (kterm (store_raw c s)) = terminal_column (kterm s)" "terminal_color (kterm (store_raw c s)) = terminal_color (kterm s)"
  by (simp_all add: store_raw_def kb_store_def Let_def terminal_ok_def)

lemma terminal_ok_upd [simp]: "terminal_ok (t\<lparr>tbus := b\<rparr>) = terminal_ok t" "terminal_ok (t\<lparr>tmem := m\<rparr>) = terminal_ok t"
  by (simp_all add: terminal_ok_def)

lemma kb_read_facts:
  assumes "kb_counts s"
  shows "kb_count (kb_read s) = 0" "unat (kb_count_raw (kb_read s)) \<le> 255" "kb_buffer (kb_read s) = kb_buffer s"
    "terminal_ok (kterm (kb_read s)) = terminal_ok (kterm s)" "terminal_column (kterm (kb_read s)) = terminal_column (kterm s)"
    "terminal_color (kterm (kb_read s)) = terminal_color (kterm s)"
    "\<exists>i < 255. tmem (kterm (kb_read s)) = (tmem (kterm s))(kb_buffer_raw s + of_nat i := scancode_of s)"
    "\<exists>b. kterm (kb_read s) = (kterm s)\<lparr>tmem := tmem (kterm (kb_read s)), tbus := b\<rparr>"
proof -
  let ?s = "s\<lparr>wait_set := 0, kterm := (kterm s)\<lparr>tbus := snd (inport8 KB_SCANCODE (tbus (kterm s)))\<rparr>\<rparr>"
  have c: "kb_counts ?s" using assms by (simp add: kb_counts_def)
  show "kb_count (kb_read s) = 0" "unat (kb_count_raw (kb_read s)) \<le> 255" "kb_buffer (kb_read s) = kb_buffer s"
    "terminal_ok (kterm (kb_read s)) = terminal_ok (kterm s)" "terminal_column (kterm (kb_read s)) = terminal_column (kterm s)"
    "terminal_color (kterm (kb_read s)) = terminal_color (kterm s)"
    using store_raw_count [OF c] by (simp_all add: kb_read_def)
  show "\<exists>i < 255. tmem (kterm (kb_read s)) = (tmem (kterm s))(kb_buffer_raw s + of_nat i := scancode_of s)"
    using store_raw_mem [OF c, of "scancode_of s"] by (simp add: kb_read_def)
  have "\<exists>b. kterm (set_leds x u) = (kterm u)\<lparr>tbus := b\<rparr>" for x u
    by (auto simp: set_leds_def kb_leds_def kb_out_def Let_def intro: exI [of _ "tbus (kterm u)"])
  then obtain b where "kterm (kb_read s) = (kterm (store_raw (scancode_of s) ?s))\<lparr>tbus := b\<rparr>" unfolding kb_read_def by blast
  then show "\<exists>b. kterm (kb_read s) = (kterm s)\<lparr>tmem := tmem (kterm (kb_read s)), tbus := b\<rparr>"
    by (auto simp: store_raw_def kb_store_def Let_def)
qed

text \<open>The state after the character of a pressed key is stored.\<close>

definition kb_pressed :: "keyboard \<Rightarrow> keyboard" where
  "kb_pressed s = (let s1 = kb_read s in
     (kb_store (kb_buffer s + kb_count_raw s1) (kbdus ! unat (scancode_of s)) s1)\<lparr>kb_count_raw := kb_count_raw s1 + 1\<rparr>)"

lemma handler_cases:
  assumes "kb_counts s"
  shows "keyboard_handler s = (let sc = scancode_of s; s1 = kb_read s; s2 = kb_pressed s; c = kbdus ! unat sc in
    if sc AND KB_BRAKECODE \<noteq> 0 then (if sc - KB_BRAKECODE = 42 \<or> sc - KB_BRAKECODE = 54 then s1\<lparr>kb_shift_flag := 0\<rparr> else s1, Returns)
    else if sc = 42 \<or> sc = 54 then (s1\<lparr>kb_shift_flag := 1\<rparr>, Returns)
    else if c = 49 then (s2, Reads_unmapped) else if c = 50 then (s2, Allocates_page) else if c = 51 then (s2, Allocates_int)
    else (s2\<lparr>kterm := terminal_putchar c (kterm s2)\<rparr>, Returns))"
proof -
  have i: "fst (inport8 KB_SCANCODE (tbus (kterm s))) = scancode_of s" by (simp add: inport8_def Let_def scancode_of_def)
  show ?thesis using store_char_count(2) [OF kb_read_facts(1,2) [OF assms]] kb_read_facts(3) [OF assms]
    unfolding keyboard_handler_def
    by (simp add: Let_def case_prod_unfold i kb_read_def [symmetric] kb_pressed_def del: terminal_putchar.simps)
qed

lemma press_code:
  assumes "sc AND KB_BRAKECODE = 0"
  shows "unat sc < 128"
proof -
  have "\<not> bit sc 7"
  proof
    assume "bit sc 7"
    then have "bit (sc AND KB_BRAKECODE) 7" by (simp add: KB_BRAKECODE_def bit_and_iff bit_numeral_rec)
    then show False using assms(1) by simp
  qed
  then have "take_bit 7 sc = sc" by (intro bit_word_eqI) (auto simp: bit_simps less_Suc_eq numeral_eq_Suc)
  then have "unat sc = take_bit 7 (unat sc)" by (metis unsigned_take_bit_eq)
  then show ?thesis using take_bit_nat_less_exp [of 7 "unat sc"] by simp
qed

lemma kbdus_backspace:
  assumes "sc AND KB_BRAKECODE = 0" "kbdus ! unat sc = 8"
  shows "sc = 14"
proof -
  have "list_all (\<lambda>i. kbdus ! i = 8 \<longrightarrow> i = 14) [0..<128]" by code_simp
  then have "unat sc = 14" using assms(2) press_code [OF assms(1)] by (auto simp: list_all_iff)
  then have "of_nat (unat sc) = (of_nat 14 :: u8)" by (rule arg_cong)
  then show ?thesis by simp
qed

lemma kbdus_digits:
  assumes "sc AND KB_BRAKECODE = 0" "kbdus ! unat sc \<in> {49, 50, 51}"
  shows "sc \<in> {2, 3, 4}"
proof -
  have "list_all (\<lambda>i. kbdus ! i \<in> {49, 50, 51} \<longrightarrow> i \<in> {2, 3, 4}) [0..<128]" by code_simp
  then have "unat sc \<in> {2, 3, 4}" using assms(2) press_code [OF assms(1)] unfolding list_all_iff set_upt by (meson atLeastLessThan_iff le0)
  then have "of_nat (unat sc) \<in> {2, 3, 4 :: u8}" by (elim insertE) simp_all
  then show ?thesis by simp
qed

lemma screen_outside:
  assumes "terminal_ok t" "t' = t\<lparr>tmem := m, tbus := b\<rparr>" "\<And>x. in_rng VGA_MEMORY 4000 x \<Longrightarrow> m x = tmem t x"
  shows "screen_of t' = screen_of t"
proof -
  have "buffer_get (of_nat i) t' = buffer_get (of_nat i) t" if "i < 2000" for i
    using assms entry_in [OF that] by (auto simp: buffer_get_def terminal_ok_def intro!: load16_cong)
  then have "cells t' = cells t" by (simp add: cells_def)
  then show ?thesis by (simp add: screen_of_def assms(2))
qed

lemma kb_read_outside:
  assumes "kb_counts s" "\<not> in_rng (kb_buffer_raw s) 255 x"
  shows "tmem (kterm (kb_read s)) x = tmem (kterm s) x"
proof -
  obtain i where i: "i < 255" "tmem (kterm (kb_read s)) = (tmem (kterm s))(kb_buffer_raw s + of_nat i := scancode_of s)"
    using kb_read_facts(7) [OF assms(1)] by blast
  have "unat (of_nat i :: u32) = i" using i(1) by (intro unat_of_nat_u32) simp
  then show ?thesis using i assms(2) in_rng_offset [of "of_nat i" 255 "kb_buffer_raw s"] by auto
qed

lemma kb_pressed_facts:
  assumes "kb_counts s"
  shows "terminal_ok (kterm (kb_pressed s)) = terminal_ok (kterm s)" "terminal_column (kterm (kb_pressed s)) = terminal_column (kterm s)"
    "terminal_color (kterm (kb_pressed s)) = terminal_color (kterm s)"
    "\<not> in_rng (kb_buffer_raw s) 255 x \<Longrightarrow> \<not> in_rng (kb_buffer s) 256 x \<Longrightarrow> tmem (kterm (kb_pressed s)) x = tmem (kterm s) x"
proof -
  note f = kb_read_facts [OF assms]
  show "terminal_ok (kterm (kb_pressed s)) = terminal_ok (kterm s)" "terminal_column (kterm (kb_pressed s)) = terminal_column (kterm s)"
    "terminal_color (kterm (kb_pressed s)) = terminal_color (kterm s)"
    using f(4-6) by (simp_all add: kb_pressed_def kb_store_def Let_def)
  assume x: "\<not> in_rng (kb_buffer_raw s) 255 x" "\<not> in_rng (kb_buffer s) 256 x"
  have "x \<noteq> kb_buffer s + kb_count_raw (kb_read s)" using x(2) f(2) in_rng_offset [of "kb_count_raw (kb_read s)" 256 "kb_buffer s"] by auto
  then show "tmem (kterm (kb_pressed s)) x = tmem (kterm s) x"
    using kb_read_outside [OF assms x(1)] by (simp add: kb_pressed_def kb_store_def Let_def)
qed

lemma kb_pressed_screen:
  assumes k: "kb_counts s" and t: "terminal_ok (kterm s)"
    and d: "disj (kb_buffer s) 256 VGA_MEMORY 4000" "disj (kb_buffer_raw s) 256 VGA_MEMORY 4000"
  shows "screen_of (kterm (kb_pressed s)) = screen_of (kterm s)"
proof -
  let ?s1 = "kb_read s" and ?m = "tmem (kterm (kb_pressed s))"
  obtain b where e: "kterm ?s1 = (kterm s)\<lparr>tmem := tmem (kterm ?s1), tbus := b\<rparr>" using kb_read_facts(8) [OF k] by blast
  have "kterm (kb_pressed s) = (kterm ?s1)\<lparr>tmem := ?m\<rparr>" by (simp add: kb_pressed_def kb_store_def Let_def)
  also have "\<dots> = ((kterm s)\<lparr>tmem := tmem (kterm ?s1), tbus := b\<rparr>)\<lparr>tmem := ?m\<rparr>"
    using arg_cong [OF e, of "\<lambda>t. t\<lparr>tmem := ?m\<rparr>"] .
  also have "(t\<lparr>tmem := m', tbus := b\<rparr>)\<lparr>tmem := m''\<rparr> = t\<lparr>tmem := m'', tbus := b\<rparr>" for t :: terminal and m' m'' by simp
  finally have p: "kterm (kb_pressed s) = (kterm s)\<lparr>tmem := ?m, tbus := b\<rparr>" .
  show ?thesis
  proof (rule screen_outside [OF t p])
    fix x assume x: "in_rng VGA_MEMORY 4000 x"
    then have "\<not> in_rng (kb_buffer s) 256 x" "\<not> in_rng (kb_buffer_raw s) 256 x" using disjD [OF d(1)] disjD [OF d(2)] by blast+
    moreover have "in_rng (kb_buffer_raw s) 255 x \<Longrightarrow> in_rng (kb_buffer_raw s) 256 x" by (simp add: in_rng_def)
    ultimately show "?m x = tmem (kterm s) x" using kb_pressed_facts(4) [OF k] by blast
  qed
qed

text \<open>
  one keyboard interrupt, a backspace in column 0 apart, writes only to the first 255 bytes of the raw buffer, the first
  256 of the character buffer and the screen, and leaves the terminal well-formed.
\<close>

theorem keyboard_handler_writes:
  assumes "kb_reachable s" and "terminal_ok (kterm s)" and "scancode_of s = 14 \<longrightarrow> terminal_column (kterm s) \<noteq> 0"
    and "\<not> in_rng (kb_buffer_raw s) 255 x" and "\<not> in_rng (kb_buffer s) 256 x" and "\<not> in_rng VGA_MEMORY 4000 x"
  shows "terminal_ok (kterm (fst (keyboard_handler s))) \<and> tmem (kterm (fst (keyboard_handler s))) x = tmem (kterm s) x"
proof -
  have k: "kb_counts s" using kb_reachable_inv [OF assms(1)] .
  note f = kb_pressed_facts [OF k]
  let ?c = "kbdus ! unat (scancode_of s)"
  have r: "terminal_ok (kterm (kb_read s))" using assms(2) kb_read_facts(4) [OF k] by simp
  note m1 = kb_read_outside [OF k assms(4)] and m2 = f(4) [OF assms(4,5)]
  have p: "terminal_ok (terminal_putchar ?c (kterm (kb_pressed s))) \<and> tmem (terminal_putchar ?c (kterm (kb_pressed s))) x = tmem (kterm s) x"
    if "scancode_of s AND KB_BRAKECODE = 0"
  proof -
    have "?c = 8 \<longrightarrow> terminal_column (kterm (kb_pressed s)) \<noteq> 0" using kbdus_backspace [OF that] assms(3) unfolding f(2) by blast
    with assms(2) show ?thesis using terminal_putchar_step [of "kterm (kb_pressed s)" ?c] m2 assms(6) f(1) by (simp add: video_step_def)
  qed
  obtain c where c: "?c = c" by simp
  show ?thesis using m1 m2 r p f(1) assms(2)
    unfolding handler_cases [OF k] Let_def c by (auto simp del: terminal_putchar.simps)
qed

text \<open>
  pressing a key whose character is not one of the digits 1, 2 and 3 puts the character on the screen, when the two buffers lie outside
  video memory.
\<close>

theorem keyboard_echo:
  assumes "kb_reachable s" and "terminal_ok (kterm s)" and "scancode_of s AND KB_BRAKECODE = 0" and "scancode_of s \<notin> {42, 54, 2, 3, 4}"
    and "scancode_of s = 14 \<longrightarrow> terminal_column (kterm s) \<noteq> 0"
    and "disj (kb_buffer s) 256 VGA_MEMORY 4000" and "disj (kb_buffer_raw s) 256 VGA_MEMORY 4000"
  shows "screen_of (kterm (fst (keyboard_handler s))) =
      screen_putchar (terminal_color (kterm s)) (kbdus ! unat (scancode_of s)) (screen_of (kterm s)) \<and>
    snd (keyboard_handler s) = Returns"
proof -
  have k: "kb_counts s" using kb_reachable_inv [OF assms(1)] .
  note f = kb_pressed_facts [OF k] and sc = kb_pressed_screen [OF k assms(2,6,7)]
  let ?c = "kbdus ! unat (scancode_of s)"
  have "?c = 8 \<longrightarrow> terminal_column (kterm (kb_pressed s)) \<noteq> 0" using kbdus_backspace [OF assms(3)] assms(5) unfolding f(2) by blast
  then have p: "screen_of (terminal_putchar ?c (kterm (kb_pressed s))) = screen_putchar (terminal_color (kterm s)) ?c (screen_of (kterm s))"
    using terminal_putchar_step [of "kterm (kb_pressed s)" ?c] assms(2) by (simp add: video_step_def sc f)
  have d: "?c \<notin> {49, 50, 51}" using kbdus_digits [OF assms(3)] assms(4) by auto
  show ?thesis using p d assms(3,4) unfolding handler_cases [OF k] Let_def by (simp del: terminal_putchar.simps)
qed

text \<open>
  with 254 entries in the raw buffer, pressing a key writes its character at index 255 of the character buffer, one past the
  \<open>KB_MAXBUFFER\<close> bytes it is meant to have.
\<close>

theorem keyboard_overrun:
  assumes "kb_count s = 0" and "kb_count_raw s = 254" and "scancode_of s AND KB_BRAKECODE = 0" and "scancode_of s \<in> {2, 3, 4}"
  shows "tmem (kterm (fst (keyboard_handler s))) (kb_buffer s + 255) = kbdus ! unat (scancode_of s)"
proof -
  have k: "kb_counts s" using assms(1,2) by (simp add: kb_counts_def)
  have "kb_count_raw (kb_read s) = 255"
    using assms(2) raw_index [of 254] by (simp add: kb_read_def store_raw_def kb_store_def)
  moreover have "kbdus ! 2 = 49" "kbdus ! 3 = 50" "kbdus ! 4 = 51" by (simp_all add: kbdus_def)
  ultimately show ?thesis using assms(3,4) unfolding handler_cases [OF k] Let_def by (auto simp: kb_pressed_def kb_store_def Let_def)
qed

lemma wait_loop_None: "wait_loop p s = Some t \<Longrightarrow> p = 0"
  by (rule wait_loop.raw_induct [of "\<lambda>p s t. p = 0"]) (auto split: if_splits)

text \<open>
  \<open>wait\<close> never returns, whatever keys are pressed: it loops on the address of the function instead of the
  variable that the handler clears.
\<close>

theorem wait_never_returns:
  assumes "wait_ptr \<noteq> 0"
  shows "wait wait_ptr s = None"
  using wait_loop_None [of wait_ptr] assms by (cases "wait wait_ptr s") (auto simp: wait_def)

section \<open>A sample keyboard\<close>

definition sample_keyboard :: "u32 \<Rightarrow> u8 \<Rightarrow> keyboard" where
  "sample_keyboard n sc = \<lparr>kterm = sample_terminal\<lparr>tbus := \<lparr>device = (\<lambda>_ _. sc), trace = []\<rparr>\<rparr>, kb_buffer = 0x1000, kb_buffer_raw = 0x2000,
     kb_count = 0, kb_count_raw = n, kb_ltmp = 0, kb_shift_flag = 0, kb_caps_flag = 0, wait_set = 0\<rparr>"

lemma sample_keyboard_facts:
  "kb_reachable (sample_keyboard 0 sc)" "terminal_ok (kterm (sample_keyboard n sc))" "scancode_of (sample_keyboard n sc) = sc"
proof -
  show "kb_reachable (sample_keyboard 0 sc)" by (rule kb_reachable.init) (simp_all add: sample_keyboard_def)
  show "terminal_ok (kterm (sample_keyboard n sc))" using sample_terminal_ok by (simp add: sample_keyboard_def)
  show "scancode_of (sample_keyboard n sc) = sc" by (simp add: scancode_of_def sample_keyboard_def)
qed

theorem kb_reachable_counts_witness:
  "let s = fst (keyboard_handler (sample_keyboard 0 30)) in kb_count s = 0 \<and> unat (kb_count_raw s) \<le> 256"
proof -
  have e: "sample_keyboard 0 30 = (sample_keyboard 0 30)\<lparr>kterm := kterm (sample_keyboard 0 30)\<rparr>" by simp
  have "kb_reachable (fst (keyboard_handler (sample_keyboard 0 30)))"
    by (rule kb_reachable.interrupt [OF sample_keyboard_facts(1) [of 30], of "kterm (sample_keyboard 0 30)" _ "snd (keyboard_handler (sample_keyboard 0 30))"])
      simp
  from kb_reachable_counts [OF this] show ?thesis by (simp add: Let_def)
qed

theorem keyboard_handler_writes_witness:
  "terminal_ok (kterm (fst (keyboard_handler (sample_keyboard 0 30)))) \<and>
   tmem (kterm (fst (keyboard_handler (sample_keyboard 0 30)))) 0x100 = 72"
proof -
  have "tmem (kterm (sample_keyboard 0 30)) 0x100 = 72" by (simp add: sample_keyboard_def sample_terminal_def)
  then show ?thesis using keyboard_handler_writes [OF sample_keyboard_facts(1,2), of 30 "0x100"]
    by (simp add: sample_keyboard_facts) (simp add: sample_keyboard_def in_rng_def VGA_MEMORY_def)
qed

theorem keyboard_echo_witness:
  "screen_of (kterm (fst (keyboard_handler (sample_keyboard 0 30)))) = screen_putchar 7 97 (screen_of (kterm (sample_keyboard 0 30)))"
proof -
  have "kbdus ! 30 = 97" by (simp add: kbdus_def)
  then show ?thesis using keyboard_echo [OF sample_keyboard_facts(1,2), of 30]
    by (simp add: sample_keyboard_facts KB_BRAKECODE_def) (simp add: sample_keyboard_def sample_terminal_def disj_def VGA_MEMORY_def)
qed

theorem keyboard_overrun_witness:
  "tmem (kterm (fst (keyboard_handler (sample_keyboard 254 2)))) 0x10FF = 49"
proof -
  have "kbdus ! 2 = 49" by (simp add: kbdus_def)
  then show ?thesis using keyboard_overrun [of "sample_keyboard 254 2"]
    by (simp add: sample_keyboard_facts KB_BRAKECODE_def) (simp add: sample_keyboard_def)
qed

theorem wait_never_returns_witness: "wait 0x100000 (sample_keyboard 0 30) = None"
  by (rule wait_never_returns) simp

end
