(* ===== verification/Mem_Words.thy ===== *)
theory Mem_Words
  imports Prelude
begin

text \<open>
  Memories given by a list of the words at aligned addresses, and what loads read from them: the concrete states
  of the witnesses for structures that the code reads through pointers.
\<close>

definition words :: "(u32 \<times> u32) list \<Rightarrow> mem" where
  "words ws = foldr (\<lambda>(a, v) m. store32 m a v) ws (\<lambda>_. 0)"

definition aligned :: "u32 \<Rightarrow> bool" where
  "aligned a \<longleftrightarrow> unat a mod 4 = 0"

lemma aligned_disj:
  assumes "aligned x" "aligned y" "x \<noteq> y"
  shows "disj x 4 y 4"
proof -
  have "4 \<le> unat (y - x)" if "aligned x" "aligned y" "x \<noteq> y" for x y
  proof -
    have d: "4 dvd unat x" "4 dvd unat y" using that(1,2) by (simp_all add: aligned_def dvd_eq_mod_eq_0)
    have "unat (y - x) = (if unat x \<le> unat y then unat y - unat x else unat y + 4294967296 - unat x)"
      by (simp add: unat_sub_if')
    moreover have "4 dvd unat y - unat x" using d by (rule dvd_diff_nat [rotated])
    moreover have "4 dvd unat y + 4294967296 - unat x" using d by (intro dvd_diff_nat dvd_add) simp_all
    ultimately have "4 dvd unat (y - x)" by simp
    moreover have "unat (y - x) \<noteq> 0" using that(3) by (simp add: unat_eq_0)
    ultimately show ?thesis by (simp add: dvd_imp_le)
  qed
  then show ?thesis using assms by (auto simp: disj_def)
qed

lemma load32_words:
  assumes "list_all (\<lambda>(a, v). aligned a) ws" "aligned b"
  shows "load32 (words ws) b = (case map_of ws b of Some v \<Rightarrow> v | None \<Rightarrow> 0)"
  using assms
proof (induction ws)
  case Nil
  then show ?case by (simp add: words_def load32_def)
next
  case (Cons w ws)
  obtain a v where w: "w = (a, v)" by (cases w)
  show ?case
  proof (cases "a = b")
    case True
    then show ?thesis using w by (simp add: words_def)
  next
    case False
    then have "disj a 4 b 4" using Cons.prems w by (auto intro: aligned_disj)
    then show ?thesis using Cons w False by (simp add: words_def load32_store32_disj)
  qed
qed

lemma load16_low: "load16 m a = ucast (load32 m a)"
proof (rule bit_word_eqI)
  fix n assume "n < LENGTH(16)"
  then show "bit (load16 m a) n \<longleftrightarrow> bit (ucast (load32 m a) :: u16) n"
    by (auto simp: load16_def load32_def bit_simps)
qed

lemma load16_high: "load16 m (a + 2) = ucast (drop_bit 16 (load32 m a))"
proof (rule bit_word_eqI)
  fix n assume "n < LENGTH(16)"
  then show "bit (load16 m (a + 2)) n \<longleftrightarrow> bit (ucast (drop_bit 16 (load32 m a)) :: u16) n"
    by (auto simp: load16_def load32_def bit_simps add.assoc dest: bit_imp_le_length)
qed

lemma load32_bytes_of:
  "m a = ucast (load32 m a)" "m (a + 1) = ucast (drop_bit 8 (load32 m a))" "m (a + 2) = ucast (drop_bit 16 (load32 m a))"
  "m (a + 3) = ucast (drop_bit 24 (load32 m a))"
  by (rule bit_word_eqI; auto simp: load32_def bit_simps dest: bit_imp_le_length)+

end
