(* ===== verification/Ext2.thy ===== *)
theory Ext2
  imports Libc_Mem Mem_Words
begin

text \<open>
  The reader of ext2 images in memory, \<open>kernel/kernel/fs/ext2.c\<close>.  The structures of \<open>ext2.h\<close> are records with a
  decoder that reads them from memory at the offsets of the C layout; the operations take the pointers the
  C functions take.  The two loops that need not end are partial functions.  The theorems show what the
  reader does inside one block group and one block of a file, and where it fails beyond that.
\<close>

section \<open>The structures on the disk\<close>

definition bytes_at :: "mem \<Rightarrow> u32 \<Rightarrow> nat \<Rightarrow> u8 list" where
  "bytes_at m a n = map (\<lambda>i. m (a + of_nat i)) [0..<n]"

definition words_at :: "mem \<Rightarrow> u32 \<Rightarrow> nat \<Rightarrow> u32 list" where
  "words_at m a n = map (\<lambda>i. load32 m (a + 4 * of_nat i)) [0..<n]"

record ext2_superblock =
  inode_total :: u32
  block_total :: u32
  block_rev_total :: u32
  block_free_total :: u32
  inode_free_total :: u32
  block_superblock_index :: u32
  block_size_log :: u32
  frag_size_log :: u32
  block_per_group :: u32
  frag_per_group :: u32
  inode_per_group :: u32
  mount_time :: u32
  write_time :: u32
  mount_total :: u16
  mount_max_total :: u16
  magic :: u16
  fs_state :: u16
  fs_error :: u16
  ver_minor :: u16
  con_time :: u32
  con_interval :: u32
  osid :: u32
  ver_major :: u32
  reserved_uid :: u16
  reserved_gid :: u16
  inode_first :: u32
  inode_size :: u16
  block_group :: u16
  feature_optional :: u32
  feature_required :: u32
  feature_nosupport :: u32
  uuid :: "u8 list"
  vol_name :: "u8 list"
  mount_last_path :: "u8 list"
  compression :: u32
  block_prealloc_file :: u8
  block_prealloc_dir :: u8
  journal_id :: "u8 list"
  journal_inode :: u32
  journal_dev :: u32
  orphan_inode :: u32
  hash_seed :: "u32 list"
  hash_ver :: u8
  mount_opt :: u32
  meta :: u32

definition superblock_at :: "mem \<Rightarrow> u32 \<Rightarrow> ext2_superblock" where
  "superblock_at m a = \<lparr>inode_total = load32 m a, block_total = load32 m (a + 4), block_rev_total = load32 m (a + 8),
     block_free_total = load32 m (a + 12), inode_free_total = load32 m (a + 16), block_superblock_index = load32 m (a + 20),
     block_size_log = load32 m (a + 24), frag_size_log = load32 m (a + 28), block_per_group = load32 m (a + 32),
     frag_per_group = load32 m (a + 36), inode_per_group = load32 m (a + 40), mount_time = load32 m (a + 44),
     write_time = load32 m (a + 48), mount_total = load16 m (a + 52), mount_max_total = load16 m (a + 54),
     magic = load16 m (a + 56), fs_state = load16 m (a + 58), fs_error = load16 m (a + 60), ver_minor = load16 m (a + 62),
     con_time = load32 m (a + 64), con_interval = load32 m (a + 68), osid = load32 m (a + 72), ver_major = load32 m (a + 76),
     reserved_uid = load16 m (a + 80), reserved_gid = load16 m (a + 82), inode_first = load32 m (a + 84),
     inode_size = load16 m (a + 88), block_group = load16 m (a + 90), feature_optional = load32 m (a + 92),
     feature_required = load32 m (a + 96), feature_nosupport = load32 m (a + 100), uuid = bytes_at m (a + 104) 16,
     vol_name = bytes_at m (a + 120) 16, mount_last_path = bytes_at m (a + 136) 16, compression = load32 m (a + 152),
     block_prealloc_file = m (a + 156), block_prealloc_dir = m (a + 157), journal_id = bytes_at m (a + 160) 16,
     journal_inode = load32 m (a + 176), journal_dev = load32 m (a + 180), orphan_inode = load32 m (a + 184),
     hash_seed = words_at m (a + 188) 4, hash_ver = m (a + 204), mount_opt = load32 m (a + 208), meta = load32 m (a + 212)\<rparr>"

record ext2_dir_entry =
  entry_inode :: u32
  rec_len :: u16
  name_len :: u16
  entry_name :: "u8 list"

definition dir_entry_at :: "mem \<Rightarrow> u32 \<Rightarrow> ext2_dir_entry" where
  "dir_entry_at m a = \<lparr>entry_inode = load32 m a, rec_len = load16 m (a + 4), name_len = load16 m (a + 6),
     entry_name = bytes_at m (a + 8) 128\<rparr>"

record ext2_blockgroup_descriptor =
  block_bitmap_addr :: u32
  inode_bitmap_addr :: u32
  inode_table_addr :: u32
  group_block_free :: u16
  group_inode_free :: u16
  dir_total :: u16

definition bg_des_at :: "mem \<Rightarrow> u32 \<Rightarrow> ext2_blockgroup_descriptor" where
  "bg_des_at m a = \<lparr>block_bitmap_addr = load32 m a, inode_bitmap_addr = load32 m (a + 4), inode_table_addr = load32 m (a + 8),
     group_block_free = load16 m (a + 12), group_inode_free = load16 m (a + 14), dir_total = load16 m (a + 16)\<rparr>"

record ext2_inode =
  inode_type :: u16
  inode_uid :: u16
  inode_bytes :: u32
  atime :: u32
  ctime :: u32
  mtime :: u32
  dtime :: u32
  inode_gid :: u16
  link_total :: u16
  inode_blocks :: u32
  inode_flag :: u32
  inode_osid :: u32
  inode_direct :: "u32 list"
  block_indirect :: "u32 list"
  inode_gen :: u32
  file_acl :: u32
  dir_acl :: u32
  frag_addr :: u32
  osid_extra :: "u8 list"

definition inode_at :: "mem \<Rightarrow> u32 \<Rightarrow> ext2_inode" where
  "inode_at m a = \<lparr>inode_type = load16 m a, inode_uid = load16 m (a + 2), inode_bytes = load32 m (a + 4), atime = load32 m (a + 8),
     ctime = load32 m (a + 12), mtime = load32 m (a + 16), dtime = load32 m (a + 20), inode_gid = load16 m (a + 24),
     link_total = load16 m (a + 26), inode_blocks = load32 m (a + 28), inode_flag = load32 m (a + 32), inode_osid = load32 m (a + 36),
     inode_direct = words_at m (a + 40) 12, block_indirect = words_at m (a + 88) 2, inode_gen = load32 m (a + 96), file_acl = load32 m (a + 100),
     dir_acl = load32 m (a + 104), frag_addr = load32 m (a + 108), osid_extra = bytes_at m (a + 112) 12\<rparr>"

section \<open>The operations\<close>

definition EXT2_MAGIC :: u16 where "EXT2_MAGIC = 0xEF53"
definition EXT2_SUPERBLOCK_OFFSET :: u32 where "EXT2_SUPERBLOCK_OFFSET = 1024"
definition EXT2_INODE_ROOT :: u32 where "EXT2_INODE_ROOT = 2"
definition EXT2_INODE_BLOCK_TOTAL :: u32 where "EXT2_INODE_BLOCK_TOTAL = 12"

definition EXT2_BLOCKSIZE_GET :: "mem \<Rightarrow> u32 \<Rightarrow> u32" where
  "EXT2_BLOCKSIZE_GET m sb = push_bit (unat (block_size_log (superblock_at m sb))) 1024"

definition ext2_superblock_validate :: "mem \<Rightarrow> u32 \<Rightarrow> int" where
  "ext2_superblock_validate m sb = (if magic (superblock_at m sb) = EXT2_MAGIC then 1 else 0)"

definition ext2_superblock_get :: "mem \<Rightarrow> u32 \<Rightarrow> u32 \<times> mem" where
  "ext2_superblock_get m addr =
     (let superblock = addr + EXT2_SUPERBLOCK_OFFSET in
      if ext2_superblock_validate m superblock = 0 then (0, m)
      else (superblock, store16 m (superblock + 88) 128))"

text \<open>The function returns a \<open>char\<close>: of the address \<open>lit s\<close> of the literal only the low byte.\<close>

definition ext2_osid_get :: "(string \<Rightarrow> u32) \<Rightarrow> mem \<Rightarrow> u32 \<Rightarrow> u8" where
  "ext2_osid_get lit m sb =
     (let os = osid (superblock_at m sb) in
      ucast (lit (if os = 0 then ''linux'' else if os = 1 then ''gnu-gurd'' else if os = 2 then ''masix''
        else if os = 3 then ''free-bsd'' else ''unknown'')))"

datatype ext2_reaction = Go_on | Log_and_halt

definition ext2_error :: "mem \<Rightarrow> u32 \<Rightarrow> ext2_reaction" where
  "ext2_error m sb =
     (let e = fs_error (superblock_at m sb) in
      if e = 1 then Go_on else if e = 2 then Go_on else if e = 3 then Log_and_halt else Go_on)"

definition FS_FILE :: u32 where "FS_FILE = 1"
definition FS_DIRECTORY :: u32 where "FS_DIRECTORY = 2"
definition FS_CHARDEVICE :: u32 where "FS_CHARDEVICE = 3"
definition FS_BLOCKDEVICE :: u32 where "FS_BLOCKDEVICE = 4"
definition FS_PIPE :: u32 where "FS_PIPE = 5"
definition FS_SYMLINK :: u32 where "FS_SYMLINK = 6"

definition ext2_inode_typetofile :: "mem \<Rightarrow> u32 \<Rightarrow> u32" where
  "ext2_inode_typetofile m inode =
     (let t = inode_type (inode_at m inode) in
      if t AND 0xA000 = 0xA000 then FS_SYMLINK
      else if t AND 0x8000 = 0x8000 then FS_FILE
      else if t AND 0x6000 = 0x6000 then FS_BLOCKDEVICE
      else if t AND 0x4000 = 0x4000 then FS_DIRECTORY
      else if t AND 0x2000 = 0x2000 then FS_CHARDEVICE
      else if t AND 0x1000 = 0x1000 then FS_PIPE
      else 0)"

definition ext2_blockgroup_get :: "mem \<Rightarrow> u32 \<Rightarrow> u32 \<Rightarrow> u32" where
  "ext2_blockgroup_get m blockgroup sb =
     (let offset = (EXT2_BLOCKSIZE_GET m sb * block_per_group (superblock_at m sb)) * blockgroup
      in (sb - EXT2_BLOCKSIZE_GET m sb) + offset)"

definition ext2_bg_des_get :: "mem \<Rightarrow> u32 \<Rightarrow> u32 \<Rightarrow> u32" where
  "ext2_bg_des_get m blockgroup sb = ext2_blockgroup_get m blockgroup sb + EXT2_BLOCKSIZE_GET m sb * 2"

text \<open>\<open>None\<close> stands for the trap of a division by zero.\<close>

definition ext2_inode_get :: "mem \<Rightarrow> u32 \<Rightarrow> u32 \<Rightarrow> u32 option" where
  "ext2_inode_get m inode sb =
     (let s = superblock_at m sb in
      if inode_total s < inode then Some 0
      else if inode_per_group s = 0 then None
      else let group = (inode - 1) div inode_per_group s in
        if block_per_group s = 0 then None
        else if block_total s div block_per_group s < group then Some 0
        else let bg_des = ext2_bg_des_get m group sb;
                 index = (inode - 1) mod inode_per_group s;
                 inode_table_offset = EXT2_BLOCKSIZE_GET m sb * inode_table_addr (bg_des_at m bg_des) - EXT2_SUPERBLOCK_OFFSET;
                 inode_table = sb + inode_table_offset
             in Some (inode_table + ucast (inode_size s) * index))"

definition ext2_block_get :: "mem \<Rightarrow> u32 \<Rightarrow> u32 \<Rightarrow> u32" where
  "ext2_block_get m block sb =
     (if block \<le> 0 then sb else (sb - EXT2_SUPERBLOCK_OFFSET) + EXT2_BLOCKSIZE_GET m sb * block)"

text \<open>\<open>inode->block[12]\<close> is one past the array: it is the first word of \<open>block_indirect\<close>.\<close>

definition inode_block :: "mem \<Rightarrow> u32 \<Rightarrow> u32 \<Rightarrow> u32" where
  "inode_block m inode i = load32 m (inode + 40 + 4 * i)"

definition ext2_inodeblock_get :: "mem \<Rightarrow> u32 \<Rightarrow> u32 \<Rightarrow> u32 \<Rightarrow> u32" where
  "ext2_inodeblock_get m block inode sb =
     (if block < EXT2_INODE_BLOCK_TOTAL then
        if inode_block m inode block = 0 then 0 else ext2_block_get m (inode_block m inode block) sb
      else if block < EXT2_INODE_BLOCK_TOTAL + EXT2_BLOCKSIZE_GET m sb div 4 then
        let index = 4 * (block - EXT2_INODE_BLOCK_TOTAL);
            indirect_block = ext2_block_get m (inode_block m inode 12) sb
        in if load32 m (indirect_block + index) = 0 then 0
           else ext2_block_get m (load32 m (indirect_block + index)) sb
      else 0)"

text \<open>\<open>i\<close> is a signed integer compared with an unsigned one: the comparison is unsigned.\<close>

partial_function (option) direntry_loop :: "mem \<Rightarrow> u32 \<Rightarrow> u32 \<Rightarrow> u32 \<Rightarrow> u32 \<Rightarrow> u32 \<Rightarrow> u32 \<Rightarrow> u32 \<Rightarrow> u32 option" where
  "direntry_loop m index inode sb blk block_number offset i =
     (if i < index then
        if inode_bytes (inode_at m inode) < offset then Some 0
        else if EXT2_BLOCKSIZE_GET m sb \<le> offset
        then direntry_loop m index inode sb (ext2_inodeblock_get m (block_number + 1) inode sb) (block_number + 1) offset i
        else direntry_loop m index inode sb blk block_number (offset + ucast (rec_len (dir_entry_at m (blk + offset)))) (i + 1)
      else if i = index then Some (blk + offset) else Some 0)"

definition ext2_direntry_get :: "mem \<Rightarrow> u32 \<Rightarrow> u32 \<Rightarrow> u32 \<Rightarrow> u32 option" where
  "ext2_direntry_get m index inode sb = direntry_loop m index inode sb (ext2_inodeblock_get m 0 inode sb) 0 0 0"

partial_function (option) read_loop :: "mem \<Rightarrow> u32 \<Rightarrow> u32 \<Rightarrow> u32 \<Rightarrow> u32 \<Rightarrow> u32 \<Rightarrow> u32 \<Rightarrow> mem option" where
  "read_loop m buffer index block block_offset inode sb =
     (let addr = ext2_inodeblock_get m block inode sb; room = EXT2_BLOCKSIZE_GET m sb - block_offset in
      if index \<le> room then Some (fst (memcpy m buffer (addr + block_offset) index))
      else let m' = fst (memcpy m buffer (addr + block_offset) room)
           in read_loop m' buffer (index - (EXT2_BLOCKSIZE_GET m' sb - block_offset)) (block + 1) 0 inode sb)"

definition ext2_read :: "mem \<Rightarrow> u32 \<Rightarrow> u32 \<Rightarrow> u32 \<Rightarrow> u32 \<Rightarrow> u32 \<Rightarrow> (u32 \<times> mem) option" where
  "ext2_read m offset buffer sz inode sb =
     (if buffer = 0 \<or> inode = 0 \<or> sb = 0 then Some (0, m)
      else if offset \<noteq> 0 \<and> EXT2_BLOCKSIZE_GET m sb = 0 then None
      else let block = (if offset \<noteq> 0 then offset div EXT2_BLOCKSIZE_GET m sb else 0);
               block_offset = (if offset \<noteq> 0 then offset mod EXT2_BLOCKSIZE_GET m sb else 0)
           in do { m \<leftarrow> read_loop m buffer sz block block_offset inode sb; Some (sz, m) })"

declare direntry_loop.simps [code] read_loop.simps [code]


section \<open>Inodes\<close>

text \<open>
  An image of 1024-byte blocks with its superblock at \<open>sb\<close>; block \<open>n\<close> of the file system is at \<open>block_addr sb n\<close>.
\<close>

definition small_blocks :: "mem \<Rightarrow> u32 \<Rightarrow> bool" where
  "small_blocks m sb \<longleftrightarrow> block_size_log (superblock_at m sb) = 0"

definition block_addr :: "u32 \<Rightarrow> u32 \<Rightarrow> u32" where
  "block_addr sb n = sb - 1024 + 1024 * n"

lemma small_blocksize: "small_blocks m sb \<Longrightarrow> EXT2_BLOCKSIZE_GET m sb = 1024"
  by (simp add: small_blocks_def EXT2_BLOCKSIZE_GET_def)

text \<open>
  \<open>ext2_inode_get\<close> of an inode of the first block group of a file system with 1024-byte blocks is the inode's
  place in the inode table that the first group descriptor, in block 2, names.
\<close>

theorem ext2_inode_get_first_group:
  assumes "small_blocks m sb" and "1 \<le> inode" and "inode \<le> inode_total (superblock_at m sb)"
    and "inode \<le> inode_per_group (superblock_at m sb)" and "block_per_group (superblock_at m sb) \<noteq> 0"
  shows "ext2_inode_get m inode sb = Some (block_addr sb (inode_table_addr (bg_des_at m (block_addr sb 2))) +
    ucast (inode_size (superblock_at m sb)) * (inode - 1))"
proof -
  let ?s = "superblock_at m sb"
  have pos: "inode_per_group ?s \<noteq> 0" using assms(2,4) by auto
  have lt: "inode - 1 < inode_per_group ?s" using assms(2,4)
    by (simp add: word_less_nat_alt word_le_nat_alt unat_minus_one unat_eq_0 [symmetric]) 
  have g: "(inode - 1) div inode_per_group ?s = 0" "(inode - 1) mod inode_per_group ?s = inode - 1"
    using lt by (simp_all add: div_word_less mod_word_less)
  have b: "ext2_bg_des_get m 0 sb = block_addr sb 2"
    by (simp add: ext2_bg_des_get_def ext2_blockgroup_get_def small_blocksize [OF assms(1)] block_addr_def)
  have "\<not> inode_total ?s < inode" using assms(3) by simp
  then show ?thesis using assms(5) pos g b small_blocksize [OF assms(1)]
    by (simp add: ext2_inode_get_def Let_def block_addr_def EXT2_SUPERBLOCK_OFFSET_def)
qed


definition inode_formats :: "(u16 \<times> u32) list" where
  "inode_formats = [(0x1000, FS_PIPE), (0x2000, FS_CHARDEVICE), (0x4000, FS_DIRECTORY), (0x6000, FS_BLOCKDEVICE),
     (0x8000, FS_FILE), (0xA000, FS_SYMLINK), (0xC000, FS_FILE)]"

lemma and_of_format: "c AND 0xF000 = c \<Longrightarrow> (t :: u16) AND 0xF000 = fmt \<Longrightarrow> t AND c = fmt AND c"
  by (metis and.assoc and.commute)

lemma ext2_inode_typetofile_formats:
  assumes "(inode_type (inode_at m inode) AND 0xF000, f) \<in> set inode_formats"
  shows "ext2_inode_typetofile m inode = f"
proof -
  obtain fmt where fmt: "inode_type (inode_at m inode) AND 0xF000 = fmt" by simp
  have a: "inode_type (inode_at m inode) AND c = fmt AND c" if "c AND 0xF000 = c" for c
    using that fmt by (rule and_of_format)
  have e: "ext2_inode_typetofile m inode = (if fmt AND 0xA000 = 0xA000 then FS_SYMLINK
      else if fmt AND 0x8000 = 0x8000 then FS_FILE else if fmt AND 0x6000 = 0x6000 then FS_BLOCKDEVICE
      else if fmt AND 0x4000 = 0x4000 then FS_DIRECTORY else if fmt AND 0x2000 = 0x2000 then FS_CHARDEVICE
      else if fmt AND 0x1000 = 0x1000 then FS_PIPE else 0)"
    by (simp add: ext2_inode_typetofile_def Let_def a)
  have "(fmt, f) \<in> set inode_formats" using assms fmt by simp
  then show ?thesis unfolding e inode_formats_def list.set insert_iff empty_iff prod.inject
    by (elim disjE conjE) simp_all
qed

text \<open>
  \<open>ext2_bg_des_get\<close> finds the first group descriptor, in the block after the superblock's, only when the
  blocks have 1024 bytes; with larger blocks it answers an address 1024 bytes too high.
\<close>

theorem ext2_bg_des_get_block_size:
  "ext2_bg_des_get m 0 sb = sb + EXT2_BLOCKSIZE_GET m sb \<and>
   (if small_blocks m sb then ext2_bg_des_get m 0 sb = ext2_block_get m 2 sb
    else ext2_bg_des_get m 0 sb = ext2_block_get m 1 sb + 1024)"
  by (simp add: ext2_bg_des_get_def ext2_blockgroup_get_def ext2_block_get_def EXT2_SUPERBLOCK_OFFSET_def small_blocksize)

section \<open>Reading\<close>

lemma ext2_read_block:
  assumes "buffer \<noteq> 0" and "inode \<noteq> 0" and "sb \<noteq> 0" and "bs = EXT2_BLOCKSIZE_GET m sb" and "bs \<noteq> 0"
    and "sz \<le> bs - offset mod bs" and "src = ext2_inodeblock_get m (offset div bs) inode sb + offset mod bs"
    and "disj buffer (unat sz) src (unat sz)"
  shows "\<exists>m'. ext2_read m offset buffer sz inode sb = Some (sz, m') \<and>
    (\<forall>x. m' x = (if in_rng buffer (unat sz) x then m (src + (x - buffer)) else m x))"
proof -
  have "read_loop m buffer sz (offset div bs) (offset mod bs) inode sb = Some (fst (memcpy m buffer src sz))"
    using assms(4,6,7) by (subst read_loop.simps) (simp add: Let_def)
  then have "ext2_read m offset buffer sz inode sb = Some (sz, fst (memcpy m buffer src sz))"
    using assms(1-5) by (cases "offset = 0") (simp_all add: ext2_read_def Let_def)
  then show ?thesis using memcpy_apply [OF assms(8)] by auto
qed


lemma load32_keep:
  assumes "disj buffer n a 4" "\<And>x. \<not> in_rng buffer n x \<Longrightarrow> m' x = m x"
  shows "load32 m' a = load32 m a"
  using assms disjD [OF disj_sym [OF assms(1)]] by (intro load32_cong) auto

lemma inodeblock_one:
  "ext2_inodeblock_get m 1 inode sb = (if load32 m (inode + 44) = 0 then 0 else ext2_block_get m (load32 m (inode + 44)) sb)"
proof -
  have "(1 :: u32) < EXT2_INODE_BLOCK_TOTAL" by (simp add: EXT2_INODE_BLOCK_TOTAL_def word_less_nat_alt)
  then show ?thesis by (simp add: ext2_inodeblock_get_def inode_block_def add.commute)
qed

text \<open>
  \<open>ext2_read\<close> from the start of a file over the end of its first block writes the second block to the start
  of the buffer, over the first: the first \<open>k\<close> bytes of the buffer are the first \<open>k\<close> bytes of the second
  block.
\<close>

theorem ext2_read_overwrites:
  assumes "buffer \<noteq> 0" and "inode \<noteq> 0" and "sb \<noteq> 0" and "bs = EXT2_BLOCKSIZE_GET m sb" and "k \<noteq> 0" and "k \<le> bs"
    and "unat bs + unat k < 4294967296" and "inode_block m inode 1 \<noteq> 0"
    and "src = ext2_inodeblock_get m 0 inode sb" and "src' = ext2_inodeblock_get m 1 inode sb"
    and "disj buffer (unat bs) src (unat bs)" and "disj buffer (unat bs) src' (unat bs)"
    and "disj buffer (unat bs) (sb + 24) 4" and "disj buffer (unat bs) (inode + 44) 4"
  shows "\<exists>m'. ext2_read m 0 buffer (bs + k) inode sb = Some (bs + k, m') \<and>
    (\<forall>i < unat k. m' (buffer + of_nat i) = m (src' + of_nat i))"
proof -
  let ?m = "fst (memcpy m buffer src bs)"
  have keep: "\<not> in_rng buffer (unat bs) x \<Longrightarrow> ?m x = m x" for x using memcpy_apply [OF assms(11)] by simp
  have bs: "EXT2_BLOCKSIZE_GET ?m sb = bs"
    using load32_keep [of buffer "unat bs" "sb + 24" ?m m, OF assms(13) keep] assms(4) by (simp add: EXT2_BLOCKSIZE_GET_def superblock_at_def)
  have src': "ext2_inodeblock_get ?m 1 inode sb = src'"
    using load32_keep [of buffer "unat bs" "inode + 44" ?m m, OF assms(14) keep] assms(4,10) bs
    by (simp add: inodeblock_one ext2_block_get_def)
  have "unat (bs + k) = unat bs + unat k" using assms(7) by (rule unat_u32_add_le)
  then have gt: "\<not> bs + k \<le> bs" using assms(5) by (simp add: word_le_nat_alt unat_eq_0)
  have r2: "read_loop ?m buffer k 1 0 inode sb = Some (fst (memcpy ?m buffer src' k))"
    using src' bs assms(6) by (subst read_loop.simps) (simp add: Let_def)
  have "read_loop m buffer (bs + k) 0 0 inode sb = read_loop ?m buffer (bs + k - (EXT2_BLOCKSIZE_GET ?m sb - 0)) (0 + 1) 0 inode sb"
    using assms(4,9) gt by (subst read_loop.simps) (simp add: Let_def)
  then have "read_loop m buffer (bs + k) 0 0 inode sb = Some (fst (memcpy ?m buffer src' k))" using r2 bs by simp
  then have e: "ext2_read m 0 buffer (bs + k) inode sb = Some (bs + k, fst (memcpy ?m buffer src' k))"
    using assms(1-3) by (simp add: ext2_read_def)
  have kb: "unat k \<le> unat bs" using assms(6) by (simp add: word_le_nat_alt)
  have "disj (buffer + 0) (unat k) (src' + 0) (unat k)"
    using kb assms(5) unat_u32_lt [of bs] by (intro disj_sub [OF assms(12)]) (auto simp: unat_gt_0)
  then have dk: "disj buffer (unat k) src' (unat k)" by simp
  have "fst (memcpy ?m buffer src' k) (buffer + of_nat i) = m (src' + of_nat i)" if "i < unat k" for i
  proof -
    have u: "unat (of_nat i :: u32) = i" using that unat_u32_lt [of k] by (intro unat_of_nat_u32) simp
    have "in_rng buffer (unat k) (buffer + of_nat i)" using that u by (simp add: in_rng_def)
    moreover have "in_rng src' (unat bs) (src' + of_nat i)" using that u kb by (simp add: in_rng_def)
    then have "?m (src' + of_nat i) = m (src' + of_nat i)" using keep disjD [OF disj_sym [OF assms(12)]] by blast
    ultimately show ?thesis using memcpy_apply [OF dk] by simp
  qed
  then show ?thesis using e by blast
qed

section \<open>Directories\<close>

text \<open>The offset of entry \<open>n\<close>: the record lengths of the entries before it.\<close>

fun entry_offset :: "mem \<Rightarrow> u32 \<Rightarrow> nat \<Rightarrow> u32" where
  "entry_offset m blk 0 = 0"
| "entry_offset m blk (Suc n) = entry_offset m blk n + ucast (rec_len (dir_entry_at m (blk + entry_offset m blk n)))"

lemma direntry_loop_walk:
  assumes "n \<le> unat index" "\<And>j. j < n \<Longrightarrow> entry_offset m blk j < EXT2_BLOCKSIZE_GET m sb \<and> entry_offset m blk j \<le> inode_bytes (inode_at m inode)"
  shows "direntry_loop m index inode sb blk 0 0 0 = direntry_loop m index inode sb blk 0 (entry_offset m blk n) (of_nat n)"
  using assms
proof (induction n)
  case (Suc n)
  have "unat (of_nat n :: u32) = n" using Suc.prems(1) unat_u32_lt [of index] by (intro unat_of_nat_u32) simp
  then have "(of_nat n :: u32) < index" using Suc.prems(1) by (simp add: word_less_nat_alt)
  moreover have "\<not> inode_bytes (inode_at m inode) < entry_offset m blk n" "\<not> EXT2_BLOCKSIZE_GET m sb \<le> entry_offset m blk n"
    using Suc.prems(2) [of n] by (simp_all add: not_less not_le)
  ultimately have "direntry_loop m index inode sb blk 0 (entry_offset m blk n) (of_nat n) =
      direntry_loop m index inode sb blk 0 (entry_offset m blk (Suc n)) (of_nat (Suc n))"
    by (subst direntry_loop.simps) (simp add: add.commute)
  then show ?case using Suc by simp
qed simp

text \<open>
  C27: \<open>ext2_direntry_get\<close> of an entry whose predecessors all lie in the first block of the directory ends with the
  address of that entry, the record lengths of its predecessors after the start of the block.
\<close>

theorem ext2_direntry_get_first_block:
  assumes "\<forall>j < unat index. entry_offset m (ext2_inodeblock_get m 0 inode sb) j < EXT2_BLOCKSIZE_GET m sb \<and>
    entry_offset m (ext2_inodeblock_get m 0 inode sb) j \<le> inode_bytes (inode_at m inode)"
  shows "ext2_direntry_get m index inode sb =
    Some (ext2_inodeblock_get m 0 inode sb + entry_offset m (ext2_inodeblock_get m 0 inode sb) (unat index))"
proof -
  let ?b = "ext2_inodeblock_get m 0 inode sb"
  have "ext2_direntry_get m index inode sb = direntry_loop m index inode sb ?b 0 (entry_offset m ?b (unat index)) index"
    using direntry_loop_walk [of "unat index" index m ?b sb inode] assms by (simp add: ext2_direntry_get_def)
  then show ?thesis by (simp add: direntry_loop.simps)
qed

lemma direntry_loop_Some:
  "direntry_loop m index inode sb blk n offset i = Some r \<Longrightarrow>
   \<not> (i < index \<and> offset \<le> inode_bytes (inode_at m inode) \<and> EXT2_BLOCKSIZE_GET m sb \<le> offset)"
  by (rule direntry_loop.raw_induct [of "\<lambda>m index inode sb blk n offset i r.
    \<not> (i < index \<and> offset \<le> inode_bytes (inode_at m inode) \<and> EXT2_BLOCKSIZE_GET m sb \<le> offset)"])
    (auto split: if_splits simp: not_less, metis not_le)

text \<open>
  when the entries before the wanted one fill the first block and the directory has more blocks,
  \<open>ext2_direntry_get\<close> never returns: it goes from block to block without resetting the offset.
\<close>

theorem ext2_direntry_get_hangs:
  assumes "n < unat index" and "\<forall>j < n. entry_offset m (ext2_inodeblock_get m 0 inode sb) j < EXT2_BLOCKSIZE_GET m sb \<and>
      entry_offset m (ext2_inodeblock_get m 0 inode sb) j \<le> inode_bytes (inode_at m inode)"
    and "EXT2_BLOCKSIZE_GET m sb \<le> entry_offset m (ext2_inodeblock_get m 0 inode sb) n"
    and "entry_offset m (ext2_inodeblock_get m 0 inode sb) n \<le> inode_bytes (inode_at m inode)"
  shows "ext2_direntry_get m index inode sb = None"
proof -
  let ?b = "ext2_inodeblock_get m 0 inode sb"
  have "ext2_direntry_get m index inode sb = direntry_loop m index inode sb ?b 0 (entry_offset m ?b n) (of_nat n)"
    using direntry_loop_walk [of n index m ?b sb inode] assms(1,2) by (simp add: ext2_direntry_get_def)
  moreover have "(of_nat n :: u32) < index"
    using assms(1) unat_u32_lt [of index] unat_of_nat_u32 [of n] by (simp add: word_less_nat_alt)
  ultimately show ?thesis using assms(3,4) direntry_loop_Some by (metis not_None_eq)
qed

section \<open>A sample image\<close>

text \<open>
  An image of 64 blocks at \<open>0x10000\<close>: the inode table is block 5, inode 2 is the root directory, a file of two blocks,
  8 and 9; block 8 holds two directory entries of 12 and 1012 bytes.
\<close>

definition sample_image :: "(u32 \<times> u32) list" where
  "sample_image = [(0x10400, 16), (0x10404, 64), (0x10418, 0), (0x10420, 64), (0x10428, 16), (0x10458, 128), (0x10808, 5),
    (0x11480, 0x41ED), (0x11484, 2048), (0x114A8, 8), (0x114AC, 9), (0x12000, 2), (0x12004, 0x1000C), (0x1200C, 2), (0x12010, 0x203F4),
    (0x12400, 0x64636261)]"

definition sample_disk :: mem where
  "sample_disk = words sample_image"

lemma sample_disk_load: "aligned b \<Longrightarrow> load32 sample_disk b = (case map_of sample_image b of Some v \<Rightarrow> v | None \<Rightarrow> 0)"
  unfolding sample_disk_def by (rule load32_words) (simp_all add: sample_image_def aligned_def)

lemma sample_disk_words:
  "load32 sample_disk 0x10400 = 16" "load32 sample_disk 0x10404 = 64" "load32 sample_disk 0x10418 = 0"
  "load32 sample_disk 0x10420 = 64" "load32 sample_disk 0x10428 = 16" "load32 sample_disk 0x10458 = 128"
  "load32 sample_disk 0x10808 = 5" "load32 sample_disk 0x11480 = 0x41ED" "load32 sample_disk 0x11484 = 2048"
  "load32 sample_disk 0x114A8 = 8" "load32 sample_disk 0x114AC = 9" "load32 sample_disk 0x12004 = 0x1000C"
  "load32 sample_disk 0x12010 = 0x203F4"
  by (simp_all add: sample_disk_load aligned_def) (simp_all add: sample_image_def)

lemma sample_image_facts:
  "EXT2_BLOCKSIZE_GET sample_disk 0x10400 = 1024" "inode_total (superblock_at sample_disk 0x10400) = 16"
  "inode_per_group (superblock_at sample_disk 0x10400) = 16" "block_per_group (superblock_at sample_disk 0x10400) = 64"
  "inode_size (superblock_at sample_disk 0x10400) = 128" "inode_table_addr (bg_des_at sample_disk 0x10800) = 5"
  "inode_bytes (inode_at sample_disk 0x11480) = 2048" "small_blocks sample_disk 0x10400"
  "rec_len (dir_entry_at sample_disk 0x12000) = 12" "rec_len (dir_entry_at sample_disk 0x1200C) = 1012"
  by (simp_all add: EXT2_BLOCKSIZE_GET_def superblock_at_def bg_des_at_def inode_at_def dir_entry_at_def small_blocks_def load16_low sample_disk_words)

lemma sample_inodeblocks:
  "ext2_inodeblock_get sample_disk 0 0x11480 0x10400 = 0x12000" "ext2_inodeblock_get sample_disk 1 0x11480 0x10400 = 0x12400"
  "inode_block sample_disk 0x11480 1 = 9"
  by (simp_all add: ext2_inodeblock_get_def inode_block_def EXT2_INODE_BLOCK_TOTAL_def ext2_block_get_def EXT2_SUPERBLOCK_OFFSET_def
    sample_disk_words sample_image_facts word_less_nat_alt)

theorem ext2_inode_get_first_group_witness:
  "ext2_inode_get sample_disk 2 0x10400 = Some 0x11480"
  using ext2_inode_get_first_group [of sample_disk "0x10400" 2] by (simp add: sample_image_facts block_addr_def)


theorem ext2_read_overwrites_witness:
  "\<exists>m'. ext2_read sample_disk 0 0x20000 (1024 + 4) 0x11480 0x10400 = Some (1024 + 4, m') \<and>
    (\<forall>i < unat (4 :: u32). m' (0x20000 + of_nat i) = sample_disk (0x12400 + of_nat i))"
  by (rule ext2_read_overwrites [where src = "0x12000" and bs = 1024]) (simp_all add: sample_image_facts sample_inodeblocks disj_def)

lemma sample_offsets:
  "entry_offset sample_disk 0x12000 (Suc 0) = 12" "entry_offset sample_disk 0x12000 (Suc (Suc 0)) = 1024"
  by (simp_all add: sample_image_facts)

theorem ext2_direntry_get_first_block_witness:
  "ext2_direntry_get sample_disk 1 0x11480 0x10400 = Some (0x12000 + entry_offset sample_disk 0x12000 (unat (1 :: u32))) \<and>
   entry_offset sample_disk 0x12000 (unat (1 :: u32)) = 12"
proof
  show "ext2_direntry_get sample_disk 1 0x11480 0x10400 = Some (0x12000 + entry_offset sample_disk 0x12000 (unat (1 :: u32)))"
    by (rule ext2_direntry_get_first_block [of 1 sample_disk "0x11480" "0x10400", unfolded sample_inodeblocks])
      (simp add: sample_image_facts word_less_nat_alt)
qed (simp add: sample_image_facts)

theorem ext2_direntry_get_hangs_witness:
  "ext2_direntry_get sample_disk 3 0x11480 0x10400 = None"
proof (rule ext2_direntry_get_hangs [where n = "Suc (Suc 0)"])
  show "\<forall>j < Suc (Suc 0). entry_offset sample_disk (ext2_inodeblock_get sample_disk 0 0x11480 0x10400) j < EXT2_BLOCKSIZE_GET sample_disk 0x10400 \<and>
      entry_offset sample_disk (ext2_inodeblock_get sample_disk 0 0x11480 0x10400) j \<le> inode_bytes (inode_at sample_disk 0x11480)"
    unfolding sample_inodeblocks by (simp add: sample_image_facts All_less_Suc2 word_less_nat_alt word_le_nat_alt)
qed (simp_all add: sample_inodeblocks sample_image_facts word_le_nat_alt)

end
