(* ===== verification/Initrd.thy ===== *)
theory Initrd
  imports Kalloc Libc_Str Ext2 Machine
begin

text \<open>
  The virtual file system (\<open>kernel/kernel/fs/vfs.c\<close>) and the initial ram disk behind it (\<open>initrd.c\<close>).  Files are structures in
  memory with function pointers; \<open>file_ops\<close> says what a call through them does, \<open>initrd_ops\<close> provides it for the
  ram disk.  Opening and reading compose the string functions, the kernel heap and the ext2 reader.
\<close>

section \<open>Files\<close>

text \<open>The offsets of the fields of \<open>file_t\<close> and \<open>struct dir_entry\<close>, which lie in memory.\<close>

definition file_mask :: u32 where "file_mask = 128"
definition file_uid :: u32 where "file_uid = 132"
definition file_gid :: u32 where "file_gid = 136"
definition file_flag :: u32 where "file_flag = 140"
definition file_inode :: u32 where "file_inode = 144"
definition file_size :: u32 where "file_size = 148"
definition file_impl :: u32 where "file_impl = 152"
definition file_read :: u32 where "file_read = 156"
definition file_write :: u32 where "file_write = 160"
definition file_open :: u32 where "file_open = 164"
definition file_close :: u32 where "file_close = 168"
definition file_readdir :: u32 where "file_readdir = 172"
definition file_finddir :: u32 where "file_finddir = 176"
definition file_ptr :: u32 where "file_ptr = 180"
definition sizeof_file :: u32 where "sizeof_file = 184"
definition dir_entry_inode :: u32 where "dir_entry_inode = 128"
definition sizeof_dir_entry :: u32 where "sizeof_dir_entry = 132"

text \<open>
  The file systems behind the function pointers of a file: what calling the function at an address does, in a
  state whose memory is \<open>smem\<close>.
\<close>

record 's file_ops =
  smem :: "'s \<Rightarrow> mem"
  call_read :: "u32 \<Rightarrow> u32 \<Rightarrow> u32 \<Rightarrow> u32 \<Rightarrow> u32 \<Rightarrow> 's \<Rightarrow> (u32 \<times> 's) option"
  call_write :: "u32 \<Rightarrow> u32 \<Rightarrow> u32 \<Rightarrow> u32 \<Rightarrow> u32 \<Rightarrow> 's \<Rightarrow> (u32 \<times> 's) option"
  call_open :: "u32 \<Rightarrow> u32 \<Rightarrow> 's \<Rightarrow> 's option"
  call_close :: "u32 \<Rightarrow> u32 \<Rightarrow> 's \<Rightarrow> 's option"
  call_readdir :: "u32 \<Rightarrow> u32 \<Rightarrow> u32 \<Rightarrow> 's \<Rightarrow> (u32 \<times> 's) option"
  call_finddir :: "u32 \<Rightarrow> u32 \<Rightarrow> u32 \<Rightarrow> 's \<Rightarrow> (u32 \<times> 's) option"

definition vfs_read :: "'s file_ops \<Rightarrow> u32 \<Rightarrow> u32 \<Rightarrow> u32 \<Rightarrow> u32 \<Rightarrow> 's \<Rightarrow> (u32 \<times> 's) option" where
  "vfs_read ops node offset sz buffer s =
     (let f = load32 (smem ops s) (node + file_read) in
      if f \<noteq> 0 then call_read ops f node offset sz buffer s else Some (0, s))"

definition vfs_write :: "'s file_ops \<Rightarrow> u32 \<Rightarrow> u32 \<Rightarrow> u32 \<Rightarrow> u32 \<Rightarrow> 's \<Rightarrow> (u32 \<times> 's) option" where
  "vfs_write ops node offset sz buffer s =
     (let f = load32 (smem ops s) (node + file_write) in
      if f \<noteq> 0 then call_write ops f node offset sz buffer s else Some (0, s))"

definition vfs_open :: "'s file_ops \<Rightarrow> u32 \<Rightarrow> u8 \<Rightarrow> u8 \<Rightarrow> 's \<Rightarrow> 's option" where
  "vfs_open ops node read write s =
     (let f = load32 (smem ops s) (node + file_open) in if f \<noteq> 0 then call_open ops f node s else Some s)"

definition vfs_close :: "'s file_ops \<Rightarrow> u32 \<Rightarrow> 's \<Rightarrow> 's option" where
  "vfs_close ops node s =
     (let f = load32 (smem ops s) (node + file_close) in if f \<noteq> 0 then call_close ops f node s else Some s)"

definition vfs_readdir :: "'s file_ops \<Rightarrow> u32 \<Rightarrow> u32 \<Rightarrow> 's \<Rightarrow> (u32 \<times> 's) option" where
  "vfs_readdir ops node index s =
     (let f = load32 (smem ops s) (node + file_readdir) in
      if load32 (smem ops s) (node + file_flag) AND 0x7 = FS_DIRECTORY \<and> f \<noteq> 0 then call_readdir ops f node index s
      else Some (0, s))"

definition vfs_finddir :: "'s file_ops \<Rightarrow> u32 \<Rightarrow> u32 \<Rightarrow> 's \<Rightarrow> (u32 \<times> 's) option" where
  "vfs_finddir ops node name s =
     (let f = load32 (smem ops s) (node + file_finddir) in
      if load32 (smem ops s) (node + file_flag) AND 0x7 = FS_DIRECTORY \<and> f \<noteq> 0 then call_finddir ops f node name s
      else Some (0, s))"

section \<open>The initial ram disk\<close>

text \<open>The memory of the kernel heap holds the image, the files and the structure \<open>*ext2_initrd\<close>.\<close>

record initrd =
  fs_heap :: kmem_state
  ext2_initrd :: u32
  initrd_root :: u32
  fs_log :: "(debug_status \<times> string) list"
  fs_printed :: "(string \<times> u32 list) list"

abbreviation fs_mem :: "initrd \<Rightarrow> mem" where
  "fs_mem s \<equiv> heap_mem (fs_heap s)"

definition put_mem :: "(mem \<Rightarrow> mem) \<Rightarrow> initrd \<Rightarrow> initrd" where
  "put_mem f s = s\<lparr>fs_heap := upd_mem f (fs_heap s)\<rparr>"

definition put32 :: "u32 \<Rightarrow> u32 \<Rightarrow> initrd \<Rightarrow> initrd" where
  "put32 a v s = put_mem (\<lambda>m. store32 m a v) s"

definition superblock_of :: "initrd \<Rightarrow> u32" where
  "superblock_of s = load32 (fs_mem s) (ext2_initrd s)"

definition fs_kmalloc :: "u32 \<Rightarrow> initrd \<Rightarrow> (u32 \<times> initrd) option" where
  "fs_kmalloc sz s = map_option (\<lambda>(p, h). (p, s\<lparr>fs_heap := h\<rparr>)) (kmalloc sz (fs_heap s))"

text \<open>The calls of \<open>printf\<close> are recorded with their arguments, like those of \<open>log_print\<close>.\<close>

definition fs_printf :: "string \<Rightarrow> u32 list \<Rightarrow> initrd \<Rightarrow> initrd" where
  "fs_printf format args s = s\<lparr>fs_printed := (format, args) # fs_printed s\<rparr>"

text \<open>The addresses of the functions that are stored in files, and of three literals.\<close>

record initrd_code =
  initrd_read_ptr :: u32
  initrd_readdir_ptr :: u32
  initrd_finddir_ptr :: u32
  lit_test_txt :: u32
  lit_Yes :: u32
  lit_No :: u32

definition EXT2_STATE_ERROR :: u16 where "EXT2_STATE_ERROR = 2"
definition EXT2_IFDIR :: u16 where "EXT2_IFDIR = 0x4000"

text \<open>The first part of \<open>initrd_initialize\<close>: the file of the root. \<open>hlt\<close> returns with the next interrupt.\<close>

definition initrd_mount :: "initrd_code \<Rightarrow> u32 \<Rightarrow> initrd \<Rightarrow> initrd option" where
  "initrd_mount c addr s = do {
     let (sb, m) = ext2_superblock_get (fs_mem s) addr;
     let s = put32 (ext2_initrd s) sb (put_mem (\<lambda>_. m) s);
     let s = (if fs_state (superblock_at (fs_mem s) (superblock_of s)) = EXT2_STATE_ERROR
       \<and> ext2_error (fs_mem s) (superblock_of s) = Log_and_halt
       then s\<lparr>fs_log := (CRIT, ''Ext2 superblock panic error'') # fs_log s\<rparr> else s);
     inode \<leftarrow> ext2_inode_get (fs_mem s) EXT2_INODE_ROOT (superblock_of s);
     let s = fs_printf ''Mounting File System\<newline>'' [] s;
     (root, s) \<leftarrow> fs_kmalloc sizeof_file s;
     let s = s\<lparr>initrd_root := root\<rparr>;
     let s = put_mem (\<lambda>m. m(root := 47, root + 1 := 0)) s;
     let s = put32 (root + file_mask) (ucast (inode_type (inode_at (fs_mem s) inode) AND 0xFFF)) s;
     let s = put32 (root + file_uid) (ucast (inode_uid (inode_at (fs_mem s) inode))) s;
     let s = put32 (root + file_gid) (ucast (inode_gid (inode_at (fs_mem s) inode))) s;
     let s = put32 (root + file_inode) EXT2_INODE_ROOT s;
     let s = put32 (root + file_flag) (load32 (fs_mem s) (root + file_flag) OR ext2_inode_typetofile (fs_mem s) inode) s;
     let s = put32 (root + file_size) (inode_bytes (inode_at (fs_mem s) inode)) s;
     let s = put32 (root + file_read) 0 s;
     let s = put32 (root + file_write) 0 s;
     let s = put32 (root + file_open) 0 s;
     let s = put32 (root + file_close) 0 s;
     let s = put32 (root + file_readdir) (initrd_readdir_ptr c) s;
     let s = put32 (root + file_finddir) (initrd_finddir_ptr c) s;
     let s = put32 (root + file_ptr) 0 s;
     let s = put32 (root + file_impl) 0 s;
     Some s
   }"

definition initrd_read :: "u32 \<Rightarrow> u32 \<Rightarrow> u32 \<Rightarrow> u32 \<Rightarrow> initrd \<Rightarrow> (u32 \<times> initrd) option" where
  "initrd_read node offset sz buffer s = do {
     inode \<leftarrow> ext2_inode_get (fs_mem s) (load32 (fs_mem s) (node + file_inode)) (superblock_of s);
     (r, m) \<leftarrow> ext2_read (fs_mem s) offset buffer sz inode (superblock_of s);
     Some (r, put_mem (\<lambda>_. m) s)
   }"

definition initrd_readdir :: "u32 \<Rightarrow> u32 \<Rightarrow> initrd \<Rightarrow> (u32 \<times> initrd) option" where
  "initrd_readdir node index s = do {
     inode \<leftarrow> ext2_inode_get (fs_mem s) (load32 (fs_mem s) (node + file_inode)) (superblock_of s);
     ent \<leftarrow> ext2_direntry_get (fs_mem s) index inode (superblock_of s);
     if inode = 0 \<or> ent = 0 then Some (0, s)
     else do {
       (dir_entry, s) \<leftarrow> fs_kmalloc sizeof_dir_entry s;
       let s = put_mem (\<lambda>m. fst (memcpy m dir_entry (ent + 8) (ucast (name_len (dir_entry_at m ent))))) s;
       let s = put_mem (\<lambda>m. m(dir_entry + ucast (name_len (dir_entry_at m ent)) := 0)) s;
       let s = put32 (dir_entry + dir_entry_inode) (entry_inode (dir_entry_at (fs_mem s) ent)) s;
       Some (dir_entry, s)
     }
   }"

text \<open>The branch of \<open>initrd_finddir\<close> that sets up the file for the entry \<open>ent\<close>.\<close>

definition initrd_file :: "initrd_code \<Rightarrow> u32 \<Rightarrow> initrd \<Rightarrow> (u32 \<times> initrd) option" where
  "initrd_file c ent s = do {
     inode \<leftarrow> ext2_inode_get (fs_mem s) (entry_inode (dir_entry_at (fs_mem s) ent)) (superblock_of s);
     (file, s) \<leftarrow> fs_kmalloc sizeof_file s;
     n \<leftarrow> strlen (fs_mem s) (ent + 8);
     if 128 < n then Some (0, s)
     else do {
       (_, m) \<leftarrow> strcpy (fs_mem s) file (ent + 8);
       let s = put_mem (\<lambda>_. m) s;
       let s = put32 (file + file_mask) (ucast (inode_type (inode_at (fs_mem s) inode) AND 0xFFF)) s;
       let s = put32 (file + file_uid) (ucast (inode_uid (inode_at (fs_mem s) inode))) s;
       let s = put32 (file + file_gid) (ucast (inode_gid (inode_at (fs_mem s) inode))) s;
       let s = put32 (file + file_inode) (entry_inode (dir_entry_at (fs_mem s) ent)) s;
       let s = put32 (file + file_flag) (load32 (fs_mem s) (file + file_flag) OR ext2_inode_typetofile (fs_mem s) inode) s;
       let s = put32 (file + file_size) (inode_bytes (inode_at (fs_mem s) inode)) s;
       let s = put32 (file + file_read) (initrd_read_ptr c) s;
       let s = put32 (file + file_write) 0 s;
       let s = put32 (file + file_open) 0 s;
       let s = put32 (file + file_close) 0 s;
       let s = put32 (file + file_readdir) (initrd_readdir_ptr c) s;
       let s = put32 (file + file_finddir) (initrd_finddir_ptr c) s;
       let s = put32 (file + file_ptr) 0 s;
       let s = put32 (file + file_impl) 0 s;
       Some (file, s)
     }
   }"

partial_function (option) finddir_loop :: "initrd_code \<Rightarrow> u32 \<Rightarrow> u32 \<Rightarrow> u32 \<Rightarrow> u32 \<Rightarrow> initrd \<Rightarrow> (u32 \<times> initrd) option" where
  "finddir_loop c name inode block index s =
     (if index < inode_bytes (inode_at (fs_mem s) inode) then
        let ent = block + index in
        do {
          n \<leftarrow> strlen (fs_mem s) name;
          r \<leftarrow> (if n = ucast (name_len (dir_entry_at (fs_mem s) ent)) then strcmp (fs_mem s) (ent + 8) name else Some 1);
          if n = ucast (name_len (dir_entry_at (fs_mem s) ent)) \<and> r = 0 then initrd_file c ent s
          else finddir_loop c name inode block (index + ucast (rec_len (dir_entry_at (fs_mem s) ent))) s
        }
      else Some (0, s))"

definition initrd_finddir :: "initrd_code \<Rightarrow> u32 \<Rightarrow> u32 \<Rightarrow> initrd \<Rightarrow> (u32 \<times> initrd) option" where
  "initrd_finddir c node name s = do {
     inode \<leftarrow> ext2_inode_get (fs_mem s) (load32 (fs_mem s) (node + file_inode)) (superblock_of s);
     let block = ext2_inodeblock_get (fs_mem s) 0 inode (superblock_of s);
     if node = 0 \<or> inode_type (inode_at (fs_mem s) inode) AND EXT2_IFDIR = 0 \<or> block = 0 then Some (0, s)
     else finddir_loop c name inode block 0 s
   }"

text \<open>The ram disk behind the function pointers; a call of any other address has no defined effect.\<close>

definition initrd_ops :: "initrd_code \<Rightarrow> initrd file_ops" where
  "initrd_ops c = \<lparr>smem = fs_mem,
     call_read = (\<lambda>f node offset sz buffer s. if f = initrd_read_ptr c then initrd_read node offset sz buffer s else None),
     call_write = (\<lambda>f node offset sz buffer s. None), call_open = (\<lambda>f node s. None), call_close = (\<lambda>f node s. None),
     call_readdir = (\<lambda>f node index s. if f = initrd_readdir_ptr c then initrd_readdir node index s else None),
     call_finddir = (\<lambda>f node name s. if f = initrd_finddir_ptr c then initrd_finddir c node name s else None)\<rparr>"

declare finddir_loop.simps [code]

text \<open>The second part, compiled in with \<open>DEBUG\<close> (which \<open>config.sh\<close> defines): looking a test file up and showing it.\<close>

definition initrd_test :: "initrd_code \<Rightarrow> initrd \<Rightarrow> initrd option" where
  "initrd_test c s = do {
     let s = fs_printf ''####################| EXT2 Debug | ####################\<newline>'' [] s;
     let s = fs_printf ''SuperBlock: 0x%x\<newline>'' [superblock_of s] s;
     let s = fs_printf ''superblock Validate: %s\<newline>''
       [if ext2_superblock_validate (fs_mem s) (superblock_of s) \<noteq> 0 then lit_Yes c else lit_No c] s;
     (file, s) \<leftarrow> vfs_finddir (initrd_ops c) (initrd_root s) (lit_test_txt c) s;
     s \<leftarrow> (if file \<noteq> 0 then do {
         let field = (\<lambda>offset s. load32 (fs_mem s) (file + offset));
         (buffer, s) \<leftarrow> fs_kmalloc (field file_size s) s;
         (read, s) \<leftarrow> vfs_read (initrd_ops c) file 0 (field file_size s) buffer s;
         if read \<noteq> 0 then
           let s = fs_printf ''-- Finding test file - test.txt --\<newline>'' [] s;
               s = fs_printf ''file name: %s\<newline>'' [file] s;
               s = fs_printf ''file uid: %i\<newline>'' [field file_uid s] s;
               s = fs_printf ''file gid: %i\<newline>'' [field file_gid s] s;
               s = fs_printf ''file flag: %i\<newline>'' [field file_flag s] s;
               s = fs_printf ''file inode: %i\<newline>'' [field file_inode s] s;
               s = fs_printf ''file size(bytes): %i\<newline>'' [field file_size s] s;
               s = fs_printf ''file impl: %i\<newline>'' [field file_impl s] s;
               s = fs_printf ''===== Contents =====\<newline>'' [] s;
               s = fs_printf ''%s\<newline>'' [buffer] s;
               s = fs_printf ''====================\<newline>'' [] s
           in map_option (\<lambda>h. s\<lparr>fs_heap := h\<rparr>) (kfree buffer (fs_heap s))
         else Some (fs_printf ''Test file read failed testing\<newline>'' [] s)
       }
       else Some (fs_printf ''Could not find test file\<newline>'' [] s));
     Some (fs_printf ''#######################################################\<newline>'' [] s)
   }"

definition initrd_initialize :: "initrd_code \<Rightarrow> u32 \<Rightarrow> initrd \<Rightarrow> initrd option" where
  "initrd_initialize c addr s = do {
     s \<leftarrow> initrd_mount c addr s;
     s \<leftarrow> initrd_test c s;
     Some (s\<lparr>fs_log := (NOTICE, ''Initrd'') # fs_log s\<rparr>)
   }"

section \<open>Lookup\<close>

lemma unat_ucast_u16: "unat (ucast (x :: u16) :: u32) = unat x"
proof -
  have "unat x < 2 ^ 16" using unsigned_less [of x] by simp
  then show ?thesis by (simp add: unsigned_ucast_eq take_bit_nat_eq_self)
qed

definition dir_ent :: "mem \<Rightarrow> u32 \<Rightarrow> nat \<Rightarrow> ext2_dir_entry" where
  "dir_ent m blk j = dir_entry_at m (blk + entry_offset m blk j)"

lemma finddir_skip:
  assumes "cstr (fs_mem s) name nm" "length nm < 4294967296"
    "\<forall>j < k. entry_offset (fs_mem s) blk j < inode_bytes (inode_at (fs_mem s) inode) \<and> unat (name_len (dir_ent (fs_mem s) blk j)) \<noteq> length nm"
  shows "finddir_loop c name inode blk 0 s = finddir_loop c name inode blk (entry_offset (fs_mem s) blk k) s"
  using assms(3)
proof (induction k)
  case (Suc k)
  let ?m = "fs_mem s"
  have n: "strlen ?m name = Some (of_nat (length nm))" using assms(1) by (rule strlen_correct)
  have "unat (of_nat (length nm) :: u32) = length nm" using assms(2) by (rule unat_of_nat_u32)
  moreover have "unat (ucast (name_len (dir_ent ?m blk k)) :: u32) = unat (name_len (dir_ent ?m blk k))" by (rule unat_ucast_u16)
  ultimately have "(of_nat (length nm) :: u32) \<noteq> ucast (name_len (dir_ent ?m blk k))" using Suc.prems by (metis lessI)
  then have "finddir_loop c name inode blk (entry_offset ?m blk k) s = finddir_loop c name inode blk (entry_offset ?m blk (Suc k)) s"
    using n Suc.prems by (subst finddir_loop.simps) (simp add: dir_ent_def Let_def)
  then show ?case using Suc by simp
qed simp

definition opened_dir :: "initrd \<Rightarrow> u32 \<Rightarrow> u32 \<Rightarrow> u32 \<Rightarrow> bool" where
  "opened_dir s node inode blk \<longleftrightarrow> node \<noteq> 0 \<and> blk \<noteq> 0 \<and>
     ext2_inode_get (fs_mem s) (load32 (fs_mem s) (node + file_inode)) (superblock_of s) = Some inode \<and>
     blk = ext2_inodeblock_get (fs_mem s) 0 inode (superblock_of s) \<and> inode_type (inode_at (fs_mem s) inode) AND EXT2_IFDIR \<noteq> 0"

text \<open>
  \<open>initrd_finddir\<close> opens the first entry of the directory whose name has the length of the name it is asked for,
  whatever the name: the comparison of the names always succeeds.
\<close>

theorem initrd_finddir_by_length:
  assumes "opened_dir s node inode blk" and "cstr (fs_mem s) name nm" and "length nm < 4294967296"
    and "\<forall>j < k. entry_offset (fs_mem s) blk j < inode_bytes (inode_at (fs_mem s) inode) \<and> unat (name_len (dir_ent (fs_mem s) blk j)) \<noteq> length nm"
    and "entry_offset (fs_mem s) blk k < inode_bytes (inode_at (fs_mem s) inode)" and "unat (name_len (dir_ent (fs_mem s) blk k)) = length nm"
    and "cstr (fs_mem s) (blk + entry_offset (fs_mem s) blk k + 8) other"
  shows "initrd_finddir c node name s = initrd_file c (blk + entry_offset (fs_mem s) blk k) s"
proof -
  let ?m = "fs_mem s"
  have "initrd_finddir c node name s = finddir_loop c name inode blk 0 s"
    using assms(1) by (auto simp: initrd_finddir_def opened_dir_def Let_def)
  also have "\<dots> = finddir_loop c name inode blk (entry_offset ?m blk k) s" using assms(2-4) by (rule finddir_skip)
  also have "\<dots> = initrd_file c (blk + entry_offset ?m blk k) s"
  proof -
    have "(of_nat (length nm) :: u32) = ucast (name_len (dir_ent ?m blk k))"
      unfolding assms(6) [symmetric] by (metis unat_ucast_u16 of_nat_unat ucast_id)
    moreover have "strcmp ?m (blk + entry_offset ?m blk k + 8) name = Some 0" using assms(7,2) by (rule strcmp_zero)
    ultimately show ?thesis using assms(5) strlen_correct [OF assms(2)]
      by (subst finddir_loop.simps) (simp add: dir_ent_def Let_def)
  qed
  finally show ?thesis .
qed

text \<open>
  a name of a length that no entry of the directory has is not found: \<open>initrd_finddir\<close> ends with the null pointer and
  changes nothing, when the entries end exactly at the size of the directory or beyond it.
\<close>

theorem initrd_finddir_missing:
  assumes "opened_dir s node inode blk" and "cstr (fs_mem s) name nm" and "length nm < 4294967296"
    and "\<forall>j < k. entry_offset (fs_mem s) blk j < inode_bytes (inode_at (fs_mem s) inode) \<and> unat (name_len (dir_ent (fs_mem s) blk j)) \<noteq> length nm"
    and "inode_bytes (inode_at (fs_mem s) inode) \<le> entry_offset (fs_mem s) blk k"
  shows "initrd_finddir c node name s = Some (0, s)"
proof -
  have "initrd_finddir c node name s = finddir_loop c name inode blk 0 s"
    using assms(1) by (auto simp: initrd_finddir_def opened_dir_def Let_def)
  also have "\<dots> = finddir_loop c name inode blk (entry_offset (fs_mem s) blk k) s" using assms(2-4) by (rule finddir_skip)
  finally show ?thesis using assms(5) by (subst (asm) finddir_loop.simps) (simp add: not_less [symmetric])
qed


section \<open>A sample ram disk\<close>

text \<open>
  The image of the theory \<open>Ext2\<close> with a root directory of \<open>sz\<close> bytes whose first entry is named \<open>a\<close>, a file for the
  root at \<open>0x30000\<close> and the name \<open>n\<close> at \<open>0x39000\<close>.
\<close>

definition sample_fs :: "u32 \<Rightarrow> u32 \<Rightarrow> (u32 \<times> u32) list" where
  "sample_fs sz n = [(0x11484, sz), (0x12008, 0x61), (0x30090, 2), (0x3009C, 0x101000), (0x38000, 0x10400), (0x39000, n)] @ sample_image"

definition sample_initrd :: "u32 \<Rightarrow> u32 \<Rightarrow> initrd" where
  "sample_initrd sz n = \<lparr>fs_heap = sample_fresh\<lparr>heap_mem := words (sample_fs sz n)\<rparr>, ext2_initrd = 0x38000, initrd_root = 0x30000, fs_log = [], fs_printed = []\<rparr>"

definition sample_code :: initrd_code where
  "sample_code = \<lparr>initrd_read_ptr = 0x101000, initrd_readdir_ptr = 0x102000, initrd_finddir_ptr = 0x103000, lit_test_txt = 0x3A000, lit_Yes = 0x3A010, lit_No = 0x3A020\<rparr>"

lemma sample_fs_load: "aligned b \<Longrightarrow> load32 (words (sample_fs sz n)) b = (case map_of (sample_fs sz n) b of Some v \<Rightarrow> v | None \<Rightarrow> 0)"
  by (rule load32_words) (simp_all add: sample_fs_def sample_image_def aligned_def)

lemma sample_fs_words:
  fixes sz n :: u32
  defines "m \<equiv> words (sample_fs sz n)"
  shows "load32 m 0x10400 = 16" "load32 m 0x10404 = 64" "load32 m 0x10418 = 0" "load32 m 0x10420 = 64" "load32 m 0x10428 = 16"
    "load32 m 0x10458 = 128" "load32 m 0x10808 = 5" "load32 m 0x11480 = 0x41ED" "load32 m 0x11484 = sz" "load32 m 0x114A8 = 8"
    "load32 m 0x12004 = 0x1000C" "load32 m 0x12008 = 0x61" "load32 m 0x12010 = 0x203F4" "load32 m 0x30090 = 2" "load32 m 0x38000 = 0x10400"
    "load32 m 0x39000 = n" "load32 m 0x3009C = 0x101000"
  unfolding m_def by (simp_all add: sample_fs_load aligned_def) (simp_all add: sample_fs_def sample_image_def)

lemma sample_fs_opened: "opened_dir (sample_initrd sz n) 0x30000 0x11480 0x12000"
proof -
  let ?m = "words (sample_fs sz n)"
  have b: "EXT2_BLOCKSIZE_GET ?m 0x10400 = 1024" by (simp add: EXT2_BLOCKSIZE_GET_def superblock_at_def sample_fs_words)
  have "ext2_inodeblock_get ?m 0 0x11480 0x10400 = 0x12000"
    by (simp add: ext2_inodeblock_get_def inode_block_def EXT2_INODE_BLOCK_TOTAL_def ext2_block_get_def EXT2_SUPERBLOCK_OFFSET_def
      sample_fs_words b word_less_nat_alt)
  moreover have "ext2_inode_get ?m 2 0x10400 = Some 0x11480"
    by (simp add: ext2_inode_get_def Let_def superblock_at_def load16_low sample_fs_words b ext2_bg_des_get_def ext2_blockgroup_get_def
      bg_des_at_def EXT2_SUPERBLOCK_OFFSET_def word_less_nat_alt)
  ultimately show ?thesis
    by (simp add: opened_dir_def sample_initrd_def superblock_of_def file_inode_def sample_fs_words inode_at_def load16_low EXT2_IFDIR_def)
qed

lemma sample_fs_entries:
  fixes sz n :: u32
  defines "m \<equiv> fs_mem (sample_initrd sz n)"
  shows "entry_offset m 0x12000 (Suc 0) = 12" "entry_offset m 0x12000 (Suc (Suc 0)) = 1024" "unat (name_len (dir_ent m 0x12000 0)) = 1"
    "unat (name_len (dir_ent m 0x12000 (Suc 0))) = 2" "inode_bytes (inode_at m 0x11480) = sz"
proof -
  have e: "m = words (sample_fs sz n)" by (simp add: m_def sample_initrd_def)
  have h: "load16 (words (sample_fs sz n)) 0x12006 = 1" "load16 (words (sample_fs sz n)) 0x12012 = 2"
    using load16_high [of "words (sample_fs sz n)" "0x12004"] load16_high [of "words (sample_fs sz n)" "0x12010"] by (simp_all add: sample_fs_words)
  show o: "entry_offset m 0x12000 (Suc 0) = 12" "entry_offset m 0x12000 (Suc (Suc 0)) = 1024" "inode_bytes (inode_at m 0x11480) = sz"
    unfolding e by (simp_all add: dir_entry_at_def load16_low sample_fs_words inode_at_def)
  show "unat (name_len (dir_ent m 0x12000 0)) = 1" "unat (name_len (dir_ent m 0x12000 (Suc 0))) = 2"
    using h unfolding dir_ent_def o(1) by (simp_all add: dir_entry_at_def e)
qed

lemma sample_fs_names:
  "cstr (fs_mem (sample_initrd sz 0x62)) 0x39000 [0x62]" "cstr (fs_mem (sample_initrd sz 0x64636200)) 0x39000 []"
  "cstr (fs_mem (sample_initrd sz 0x646362)) 0x39000 [0x62, 0x63, 0x64]" "cstr (fs_mem (sample_initrd sz n)) 0x12008 [0x61]"
  using load32_bytes_of [of "words (sample_fs sz 0x62)" "0x39000"] load32_bytes_of [of "words (sample_fs sz 0x646362)" "0x39000"]
    load32_bytes_of [of "words (sample_fs sz n)" "0x12008"] load32_bytes_of [of "words (sample_fs sz 0x64636200)" "0x39000"]
  by (simp_all add: sample_initrd_def sample_fs_words)

theorem initrd_finddir_by_length_witness:
  "cstr (fs_mem (sample_initrd 1024 0x62)) 0x39000 [0x62] \<and> cstr (fs_mem (sample_initrd 1024 0x62)) (0x12000 + 8) [0x61] \<and>
   initrd_finddir sample_code 0x30000 0x39000 (sample_initrd 1024 0x62) = initrd_file sample_code 0x12000 (sample_initrd 1024 0x62)"
proof -
  have "initrd_finddir sample_code 0x30000 0x39000 (sample_initrd 1024 0x62) =
      initrd_file sample_code (0x12000 + entry_offset (fs_mem (sample_initrd 1024 0x62)) 0x12000 0) (sample_initrd 1024 0x62)"
    by (rule initrd_finddir_by_length [OF sample_fs_opened sample_fs_names(1), where other = "[0x61]"]) (simp_all add: sample_fs_entries sample_fs_names del: cstr.simps)
  then show ?thesis using sample_fs_names by simp
qed

theorem initrd_finddir_missing_witness:
  "initrd_finddir sample_code 0x30000 0x39000 (sample_initrd 1024 0x646362) = Some (0, sample_initrd 1024 0x646362)"
proof (rule initrd_finddir_missing [OF sample_fs_opened sample_fs_names(3), where k = "Suc (Suc 0)"])
  show "\<forall>j < Suc (Suc 0). entry_offset (fs_mem (sample_initrd 1024 0x646362)) 0x12000 j <
      inode_bytes (inode_at (fs_mem (sample_initrd 1024 0x646362)) 0x11480) \<and>
      unat (name_len (dir_ent (fs_mem (sample_initrd 1024 0x646362)) 0x12000 j)) \<noteq> length [0x62, 0x63, 0x64 :: u8]"
    unfolding All_less_Suc2 by (simp add: sample_fs_entries word_less_nat_alt del: entry_offset.simps(2))
qed (simp_all add: sample_fs_entries del: entry_offset.simps(2))


end
