(* ===== verification/Kernel_Main.thy ===== *)
theory Kernel_Main
  imports Multiboot Boot_Heap Rtc Descriptors Keyboard Initrd
begin

text \<open>
  \<^verbatim>\<open>kernel/kernel/kernel.c\<close>: the start of the kernel.  The state puts the states of the components side by side; the devices and the
  record of the calls of \<open>log_print\<close> are shared, the memory manager is shared by the boot messages and the file system, and the table
  of exception routines by the dispatcher and the memory manager.  Interrupts that arrive after \<open>sti\<close> are not part of this theory.
  The macro \<open>DEBUG\<close>, which \<^verbatim>\<open>config.sh\<close> defines, is taken as defined, \<open>FLOPPY\<close> as not defined.
\<close>

section \<open>The state\<close>

record system =
  sys_bus :: bus
  sys_log :: "(debug_status \<times> string) list"
  gates :: idt_state
  irqs :: "unit intr"
  boot :: boot_console
  clock :: rtc
  files :: initrd
  fs_root :: u32
  interrupts_on :: bool

text \<open>Running an operation of a component: the shared parts go in and come back.\<close>

definition on_gates :: "(idt_state \<Rightarrow> idt_state) \<Rightarrow> system \<Rightarrow> system" where
  "on_gates f s = (let g = f ((gates s)\<lparr>mbus := sys_bus s, klog := sys_log s\<rparr>) in s\<lparr>gates := g, sys_bus := mbus g, sys_log := klog g\<rparr>)"

definition on_irqs :: "(unit intr \<Rightarrow> unit intr option) \<Rightarrow> system \<Rightarrow> system option" where
  "on_irqs f s = do { i \<leftarrow> f ((irqs s)\<lparr>mbus := sys_bus s, klog := sys_log s\<rparr>); Some (s\<lparr>irqs := i, sys_bus := mbus i, sys_log := klog i\<rparr>) }"

definition on_screen :: "(boot_console \<Rightarrow> boot_console option) \<Rightarrow> system \<Rightarrow> system option" where
  "on_screen f s = do {
     b \<leftarrow> f ((boot s)\<lparr>mb_screen := (mb_screen (boot s))\<lparr>tbus := sys_bus s\<rparr>\<rparr>);
     Some (s\<lparr>boot := b, sys_bus := tbus (mb_screen b)\<rparr>) }"

definition on_kernel :: "(kernel \<Rightarrow> kernel option) \<Rightarrow> system \<Rightarrow> system option" where
  "on_kernel f s = do {
     k \<leftarrow> f ((mb_kernel (boot s))\<lparr>isr_routine := (\<lambda>i. isr_routines (irqs s) ! unat i)\<rparr>);
     Some (s\<lparr>boot := (boot s)\<lparr>mb_kernel := k\<rparr>,
       irqs := (irqs s)\<lparr>isr_routines := map (\<lambda>i. isr_routine k (of_nat i)) [0..<length (isr_routines (irqs s))]\<rparr>\<rparr>) }"

definition on_files :: "(initrd \<Rightarrow> initrd option) \<Rightarrow> system \<Rightarrow> system option" where
  "on_files f s = do {
     d \<leftarrow> f ((files s)\<lparr>fs_heap := (fs_heap (files s))\<lparr>pages := mb_kernel (boot s)\<rparr>, fs_log := sys_log s\<rparr>);
     Some (s\<lparr>files := d, boot := (boot s)\<lparr>mb_kernel := pages (fs_heap d)\<rparr>, sys_log := fs_log d\<rparr>) }"

definition sys_log_print :: "debug_status \<Rightarrow> string \<Rightarrow> system \<Rightarrow> system" where
  "sys_log_print status message s = s\<lparr>sys_log := (status, message) # sys_log s\<rparr>"

section \<open>The program\<close>

text \<open>Addresses of code, data and literals, and what the locals of \<open>read_rtc\<close> happen to hold.\<close>

record kernel_image =
  isr_entry :: "nat \<Rightarrow> u32"
  irq_entry :: "nat \<Rightarrow> u32"
  idt_address :: u32
  pit_handler_ptr :: u32
  page_fault_ptr :: u32
  keyboard_handler_ptr :: u32
  initrd_functions :: initrd_code
  literal :: "string \<Rightarrow> u32"
  rtc_locals :: "u8 \<times> u8"

definition MAX_MEM :: u32 where "MAX_MEM = 0xEE6B2800"

definition kernel_early :: "system \<Rightarrow> system" where
  "kernel_early s = s\<lparr>boot := (boot s)\<lparr>mb_screen := terminal_initialize (mb_screen (boot s))\<rparr>\<rparr>"

text \<open>The main loop, or \<open>hlt\<close> with interrupts off.\<close>

datatype kernel_end = Main_loop system | Hlt system

definition kernel_hang :: "system \<Rightarrow> kernel_end" where
  "kernel_hang s = Hlt (sys_log_print CRIT ''Kernel hlt'' s)"

definition record_of :: "u32 \<Rightarrow> system \<Rightarrow> multiboot" where
  "record_of p s = multiboot_at (mb_memory (boot s)) p"

text \<open>Up to the test of the size of the memory.\<close>

definition kernel_devices :: "kernel_image \<Rightarrow> u32 \<Rightarrow> system \<Rightarrow> system option" where
  "kernel_devices c p s = do {
     s \<leftarrow> on_screen (multiboot_print (literal c) p) s;
     s \<leftarrow> on_screen (mb_printf (literal c) ''--------------------------------------------------\<newline>'' []) s;
     let s = on_gates (idt_initialize (isr_entry c) (irq_entry c) (idt_address c)) s;
     s \<leftarrow> on_irqs (\<lambda>i. Some (pic_initialize i)) s;
     on_irqs (pit_install (pit_handler_ptr c)) s
   }"

text \<open>From the first interrupt on; gcc evaluates the arguments of \<open>printf\<close> from the last to the first.\<close>

definition sys_time :: "kernel_image \<Rightarrow> u32 \<Rightarrow> system \<Rightarrow> (u32 \<times> system) option" where
  "sys_time c type s = do {
     (v, r, b) \<leftarrow> time_get (fst (rtc_locals c)) (snd (rtc_locals c)) type (clock s) (sys_bus s);
     Some (v, s\<lparr>clock := r, sys_bus := b\<rparr>) }"

definition kernel_services :: "kernel_image \<Rightarrow> u32 \<Rightarrow> system \<Rightarrow> system option" where
  "kernel_services c p s = do {
     let s = sys_log_print INFO ''Interupts On'' (s\<lparr>interrupts_on := True\<rparr>);
     s \<leftarrow> on_screen (multiboot_print (literal c) p) s;
     s \<leftarrow> on_irqs (keyboard_install (keyboard_handler_ptr c)) s;
     s \<leftarrow> on_files (initrd_initialize (initrd_functions c) (module_start (boot s))) s;
     let s = s\<lparr>fs_root := initrd_root (files s)\<rparr>;
     (seconds, s) \<leftarrow> sys_time c 0 s;
     (minutes, s) \<leftarrow> sys_time c 1 s;
     (hours, s) \<leftarrow> sys_time c 2 s;
     s \<leftarrow> on_screen (mb_printf (literal c) ''CometOS ver 0.0.0  -  time:%i:%i:%i\<newline>'' [hours, minutes, seconds]) s;
     on_screen (mb_printf (literal c) ''Hello, kernel World!\<newline>'' []) s
   }"

definition kernel_main :: "kernel_image \<Rightarrow> u32 \<Rightarrow> u32 \<Rightarrow> system \<Rightarrow> kernel_end option" where
  "kernel_main c p initial_stack s = do {
     s \<leftarrow> kernel_devices c p s;
     if MAX_MEM < mb_mem_upper (record_of p s)
     then Some (kernel_hang (sys_log_print ERROR ''---- MEM LARGER THEN 4GB ----\<newline>PAE is not enabled'' s))
     else do {
       s \<leftarrow> on_kernel (paging_initialize (page_fault_ptr c) (mb_mem_lower (record_of p s)) (mb_mem_upper (record_of p s))) s;
       s \<leftarrow> kernel_services c p s;
       Some (Main_loop s)
     }
   }"

section \<open>The way to the first interrupt\<close>

abbreviation boot_kernel :: "system \<Rightarrow> kernel" where "boot_kernel s \<equiv> mb_kernel (boot s)"

text \<open>The literals of \<open>kernel_main\<close> and of \<open>multiboot_print\<close> are in memory, and the screen is not in the way.\<close>

definition boot_ready :: "kernel_image \<Rightarrow> u32 \<Rightarrow> u8 list \<Rightarrow> u8 list \<Rightarrow> system \<Rightarrow> bool" where
  "boot_ready c p cmdline loader s \<longleftrightarrow> terminal_ok (mb_screen (boot s)) \<and> multiboot_ready (literal c) p cmdline loader (mb_memory (boot s)) \<and>
     string_at (mb_memory (boot s)) (literal c ''--------------------------------------------------\<newline>'')
       (chars ''--------------------------------------------------\<newline>'') \<and>
     length (irq_routines (irqs s)) = 16 \<and> length (isr_routines (irqs s)) = 32"

text \<open>By how much the modules move the end of the kernel.\<close>

definition modules_moved :: "u32 \<Rightarrow> system \<Rightarrow> u32" where
  "modules_moved p s = (let mb = record_of p s in
     modules_size (mb_memory (boot s)) mb (if bit (mb_flags mb) 3 then unat (mb_mods_count mb) else 0))"

text \<open>What the controllers and the timer have been told, in the order of the accesses, last first.\<close>

definition devices_ready :: "io_event list \<Rightarrow> bool" where
  "devices_ready es \<longleftrightarrow> (\<exists>fs. es = Out8 0x40 0x2E # Out8 0x40 0x9B # Out8 0x43 0x36 # fs \<and>
     (\<forall>c d. vector_base (pic_replay PIC_MASTER fs c) = 32 \<and> imr (pic_replay PIC_MASTER fs c) = 0 \<and>
       vector_base (pic_replay PIC_SLAVE fs d) = 40 \<and> imr (pic_replay PIC_SLAVE fs d) = 0))"

definition gates_ready :: "kernel_image \<Rightarrow> idt_state \<Rightarrow> bool" where
  "gates_ready c g \<longleftrightarrow> idtr_base g = idt_address c \<and> (\<forall>v < 48. gate_present (idt g ! v) \<and>
     gate_offset (idt g ! v) = (if v < 32 then isr_entry c v else irq_entry c (v - 32)))"

lemma gates_ready_initialize: "gates_ready c (idt_initialize (isr_entry c) (irq_entry c) (idt_address c) g)"
  by (auto simp: gates_ready_def idt_initialize_nth idt_table_def gate_simps) (simp add: idt_initialize_runs log_call_def lidt_def)

lemma pit_install_ready:
  assumes "length (irq_routines i) = 16"
  shows "\<exists>j. pit_install h (pic_initialize i) = Some j \<and> devices_ready (ports j) \<and> irq_routines j = (irq_routines i)[0 := h] \<and>
    isr_routines j = isr_routines i"
proof -
  have r: "irq_routines (pic_initialize i) = irq_routines i" "isr_routines (pic_initialize i) = isr_routines i"
    by (simp_all add: pic_initialize_def Let_def out8_def log_call_def)
  have d: "pit_phase 100 s = Some (out8 0x40 0x2E (out8 0x40 0x9B (out8 0x43 0x36 s)))" for s :: "'b intr"
    by (simp add: pit_phase_def Let_def)
  obtain es where es: "ports (pic_initialize i) = es @ ports i" using pic_initialize_remaps [of i] by blast
  have "vector_base (pic_replay PIC_MASTER (ports (pic_initialize i)) c) = 32 \<and> imr (pic_replay PIC_MASTER (ports (pic_initialize i)) c) = 0 \<and>
      vector_base (pic_replay PIC_SLAVE (ports (pic_initialize i)) d) = 40 \<and> imr (pic_replay PIC_SLAVE (ports (pic_initialize i)) d) = 0" for c d
    using pic_initialize_remaps [of i "pic_replay PIC_MASTER (ports i) c" "pic_replay PIC_SLAVE (ports i) d"] by (auto simp: pic_replay_append)
  then show ?thesis using r by (simp add: pit_install_def irq_install_handler_def d devices_ready_def log_call_def out8_def outport8_def)
qed

text \<open>The boot messages on the shared bus.\<close>

lemma on_screen_multiboot:
  assumes "boot_ready c p cmdline loader s"
  shows "\<exists>s'. on_screen (multiboot_print (literal c) p) s = Some s' \<and> terminal_ok (mb_screen (boot s')) \<and>
    (\<forall>x. \<not> in_rng VGA_MEMORY 4000 x \<longrightarrow> mb_memory (boot s') x = mb_memory (boot s) x) \<and>
    boot_kernel s' = (boot_kernel s)\<lparr>kernel_pointer := kernel_pointer (boot_kernel s) + modules_moved p s\<rparr> \<and>
    irqs s' = irqs s \<and> interrupts_on s' = interrupts_on s"
proof -
  let ?b = "(boot s)\<lparr>mb_screen := (mb_screen (boot s))\<lparr>tbus := sys_bus s\<rparr>\<rparr>"
  have "mb_ok (mb_memory (boot s)) (terminal_color (mb_screen (boot s))) ?b"
    using assms by (simp add: boot_ready_def mb_ok_def terminal_ok_def)
  moreover have "multiboot_ready (literal c) p cmdline loader (mb_memory (boot s))" using assms by (simp add: boot_ready_def)
  ultimately obtain b where "multiboot_print (literal c) p ?b = Some b"
    "mb_ok (mb_memory (boot s)) (terminal_color (mb_screen (boot s))) b"
    "mb_kernel b = (boot_kernel s)\<lparr>kernel_pointer := kernel_pointer (boot_kernel s) + modules_moved p s\<rparr>"
    using multiboot_print_shown [OF _ _ refl refl] by (fastforce simp: shown_def modules_moved_def record_of_def Let_def)
  then show ?thesis by (simp add: on_screen_def mb_ok_def)
qed

lemma on_screen_literal:
  assumes "terminal_ok (mb_screen (boot s))" "string_at M (literal c f) (chars f)" "fits (chars f) []"
    "\<forall>x. \<not> in_rng VGA_MEMORY 4000 x \<longrightarrow> mb_memory (boot s) x = M x"
  shows "\<exists>s'. on_screen (mb_printf (literal c) f []) s = Some s' \<and>
    (\<forall>x. \<not> in_rng VGA_MEMORY 4000 x \<longrightarrow> mb_memory (boot s') x = M x) \<and> boot_kernel s' = boot_kernel s \<and>
    irqs s' = irqs s \<and> interrupts_on s' = interrupts_on s"
proof -
  let ?b = "(boot s)\<lparr>mb_screen := (mb_screen (boot s))\<lparr>tbus := sys_bus s\<rparr>\<rparr>"
  have "mb_ok M (terminal_color (mb_screen (boot s))) ?b" using assms(1,4) by (simp add: mb_ok_def terminal_ok_def)
  then obtain b where "mb_printf (literal c) f [] ?b = Some b" "mb_ok M (terminal_color (mb_screen (boot s))) b" "mb_kernel b = boot_kernel s"
    using mb_printf_shown [of M "terminal_color (mb_screen (boot s))" ?b "literal c" f "[]", OF _ assms(2,3)] by (auto simp: shown_def)
  then show ?thesis by (simp add: on_screen_def mb_ok_def)
qed

lemma kernel_devices_ready:
  assumes "boot_ready c p cmdline loader s"
  shows "\<exists>s'. kernel_devices c p s = Some s' \<and> gates_ready c (gates s') \<and> devices_ready (trace (sys_bus s')) \<and>
    irq_routines (irqs s') = (irq_routines (irqs s))[0 := pit_handler_ptr c] \<and> isr_routines (irqs s') = isr_routines (irqs s) \<and>
    boot_kernel s' = (boot_kernel s)\<lparr>kernel_pointer := kernel_pointer (boot_kernel s) + modules_moved p s\<rparr> \<and>
    record_of p s' = record_of p s \<and> interrupts_on s' = interrupts_on s"
proof -
  let ?M = "mb_memory (boot s)"
  obtain s1 where s1: "on_screen (multiboot_print (literal c) p) s = Some s1" "terminal_ok (mb_screen (boot s1))"
    "\<forall>x. \<not> in_rng VGA_MEMORY 4000 x \<longrightarrow> mb_memory (boot s1) x = ?M x"
    "boot_kernel s1 = (boot_kernel s)\<lparr>kernel_pointer := kernel_pointer (boot_kernel s) + modules_moved p s\<rparr>"
    "irqs s1 = irqs s" "interrupts_on s1 = interrupts_on s"
    using on_screen_multiboot [OF assms] by blast
  have fit: "fits (chars ''--------------------------------------------------\<newline>'') []" by (simp add: chars_def)
  have str: "string_at ?M (literal c ''--------------------------------------------------\<newline>'') (chars ''--------------------------------------------------\<newline>'')"
    using assms by (simp add: boot_ready_def)
  obtain s2 where s2: "on_screen (mb_printf (literal c) ''--------------------------------------------------\<newline>'' []) s1 = Some s2"
    "\<forall>x. \<not> in_rng VGA_MEMORY 4000 x \<longrightarrow> mb_memory (boot s2) x = ?M x" "boot_kernel s2 = boot_kernel s1" "irqs s2 = irqs s1"
    "interrupts_on s2 = interrupts_on s1"
    using on_screen_literal [OF s1(2) str fit s1(3)] by blast
  define s3 where "s3 = on_gates (idt_initialize (isr_entry c) (irq_entry c) (idt_address c)) s2"
  have s3: "gates_ready c (gates s3)" "boot s3 = boot s2" "irqs s3 = irqs s2" "interrupts_on s3 = interrupts_on s2"
    using gates_ready_initialize by (simp_all add: s3_def on_gates_def Let_def)
  let ?i = "(irqs s3)\<lparr>mbus := sys_bus s3, klog := sys_log s3\<rparr>"
  have "length (irq_routines ?i) = 16" using assms s1(5) s2(4) s3(3) by (simp add: boot_ready_def)
  from pit_install_ready [OF this, of "pit_handler_ptr c"] obtain j where j: "pit_install (pit_handler_ptr c) (pic_initialize ?i) = Some j"
    "devices_ready (ports j)" "irq_routines j = (irq_routines (irqs s))[0 := pit_handler_ptr c]" "isr_routines j = isr_routines (irqs s)"
    using s1(5) s2(4) s3(3) by auto
  have p: "(pic_initialize i)\<lparr>mbus := mbus (pic_initialize i), klog := klog (pic_initialize i)\<rparr> = pic_initialize i" for i :: "unit intr" by simp
  have "kernel_devices c p s = Some (s3\<lparr>irqs := j, sys_bus := mbus j, sys_log := klog j\<rparr>)"
    using s1(1) s2(1) j(1) by (simp add: kernel_devices_def s3_def [symmetric] on_irqs_def)
  moreover have "record_of p s2 = record_of p s"
    unfolding record_of_def using assms s2(2) header_ready by (intro multiboot_off_screen) (auto simp: boot_ready_def)
  ultimately show ?thesis using s1(4,6) s2(3,5) s3 j(2-4) by (simp add: record_of_def)
qed

lemma kernel_main_booted:
  assumes "boot_ready c p cmdline loader s" and "kernel_pointer (boot_kernel s) + modules_moved p s = of_nat K"
    and "boot_window K (unat (mb_mem_upper (record_of p s)))" and "paging_state (boot_kernel s) = 0"
  shows "\<exists>s'. kernel_main c p stack s = map_option Main_loop (kernel_services c p s') \<and> interrupts_on s' = interrupts_on s \<and>
    gates_ready c (gates s') \<and> devices_ready (trace (sys_bus s')) \<and>
    irq_routines (irqs s') ! 0 = pit_handler_ptr c \<and> isr_routines (irqs s') ! 14 = page_fault_ptr c \<and>
    booted K (unat (mb_mem_upper (record_of p s))) 0 (boot_kernel s')"
proof -
  let ?U = "unat (mb_mem_upper (record_of p s))"
  obtain s1 where s1: "kernel_devices c p s = Some s1" "gates_ready c (gates s1)" "devices_ready (trace (sys_bus s1))"
    "irq_routines (irqs s1) = (irq_routines (irqs s))[0 := pit_handler_ptr c]" "isr_routines (irqs s1) = isr_routines (irqs s)"
    "boot_kernel s1 = (boot_kernel s)\<lparr>kernel_pointer := kernel_pointer (boot_kernel s) + modules_moved p s\<rparr>"
    "record_of p s1 = record_of p s" "interrupts_on s1 = interrupts_on s"
    using kernel_devices_ready [OF assms(1)] by blast
  let ?k = "(boot_kernel s1)\<lparr>isr_routine := (\<lambda>i. isr_routines (irqs s1) ! unat i)\<rparr>"
  have "kernel_pointer ?k = of_nat K" "paging_state ?k = 0" using s1(6) assms(2,4) by simp_all
  from paging_initialize_booted [OF assms(3) this] obtain k' where k': "paging_initialize (page_fault_ptr c) (mb_mem_lower (record_of p s)) (of_nat ?U) ?k = Some k'"
    "booted K ?U 0 k'" "isr_routine k' = (isr_routine ?k)(14 := page_fault_ptr c)" by blast
  have "?U < 0x400000" using boot_windowD [OF assms(3)] by simp
  then have small: "\<not> MAX_MEM < mb_mem_upper (record_of p s)" by (simp add: MAX_MEM_def word_less_nat_alt)
  let ?s2 = "s1\<lparr>boot := (boot s1)\<lparr>mb_kernel := k'\<rparr>,
    irqs := (irqs s1)\<lparr>isr_routines := map (\<lambda>i. isr_routine k' (of_nat i)) [0..<length (isr_routines (irqs s1))]\<rparr>\<rparr>"
  have "kernel_main c p stack s = map_option Main_loop (kernel_services c p ?s2)"
    using s1(1,7) k'(1) small by (simp add: kernel_main_def on_kernel_def map_conv_bind_option comp_def)
  moreover have "irq_routines (irqs s1) ! 0 = pit_handler_ptr c" "length (isr_routines (irqs s1)) = 32"
    using s1(4,5) assms(1) by (simp_all add: boot_ready_def)
  ultimately show ?thesis using s1 k'(2,3) by (intro exI [of _ ?s2]) simp
qed

section \<open>Properties\<close>

text \<open>
  C4: the start of the kernel composed of its parts: on a machine whose kernel end, moved by the modules, and memory size lie in the window,
  \<open>kernel_main\<close> comes to the point where it turns interrupts on, and nothing is missing then: all gates in use are present and lead to
  their entry points, the controllers raise the vectors from 32 and 40 with no line masked, the timer has its divisor and its routine
  is installed for line 0, the page fault handler is installed, paging is on and maps the first four megabytes to themselves.
\<close>

theorem kernel_main_ready:
  assumes "boot_ready c p cmdline loader s" and "kernel_pointer (boot_kernel s) + modules_moved p s = of_nat K"
    and "boot_window K (unat (mb_mem_upper (record_of p s)))" and "paging_state (boot_kernel s) = 0"
  shows "\<exists>s'. kernel_main c p stack s = map_option Main_loop (kernel_services c p s') \<and> interrupts_on s' = interrupts_on s \<and>
    gates_ready c (gates s') \<and> devices_ready (trace (sys_bus s')) \<and>
    irq_routines (irqs s') ! 0 = pit_handler_ptr c \<and> isr_routines (irqs s') ! 14 = page_fault_ptr c \<and>
    paging_state (boot_kernel s') = 1 \<and> (\<forall>v < 0x400000. walk (kmem (boot_kernel s')) (cr3 (boot_kernel s')) v = Some v)"
proof -
  obtain s' where s': "kernel_main c p stack s = map_option Main_loop (kernel_services c p s')" "interrupts_on s' = interrupts_on s"
    "gates_ready c (gates s')" "devices_ready (trace (sys_bus s'))" "irq_routines (irqs s') ! 0 = pit_handler_ptr c"
    "isr_routines (irqs s') ! 14 = page_fault_ptr c" and b: "booted K (unat (mb_mem_upper (record_of p s))) 0 (boot_kernel s')"
    using kernel_main_booted [OF assms, of stack] by blast
  have "paging_state (boot_kernel s') = 1" using b by (simp add: booted_def)
  with s' booted_walk [OF assms(3) b] show ?thesis by blast
qed

text \<open>More memory than the limit: the kernel stops before paging, with interrupts as it found them.\<close>

lemma kernel_main_hangs:
  assumes "boot_ready c p cmdline loader s" "MAX_MEM < mb_mem_upper (record_of p s)"
  shows "\<exists>s'. kernel_main c p stack s = Some (Hlt s') \<and> interrupts_on s' = interrupts_on s \<and>
    paging_state (boot_kernel s') = paging_state (boot_kernel s) \<and> hd (sys_log s') = (CRIT, ''Kernel hlt'')"
  using kernel_devices_ready [OF assms(1)] assms(2) by (auto simp: kernel_main_def kernel_hang_def sys_log_print_def)


section \<open>A machine\<close>

text \<open>The machine of the sample record: \<open>0x3FC00\<close> units of memory, the kernel ends at \<open>0x110123\<close>, the module fills \<open>0x111000\<close> to \<open>0x113800\<close>.\<close>

definition sample_strings :: "string list" where
  "sample_strings = multiboot_literals @ [''--------------------------------------------------\<newline>'']"

definition sample_kernel_image :: kernel_image where
  "sample_kernel_image = \<lparr>isr_entry = (\<lambda>i. 0x100100 + of_nat i), irq_entry = (\<lambda>i. 0x100200 + of_nat i), idt_address = 0x108000,
     pit_handler_ptr = 0x103000, page_fault_ptr = 0x104000, keyboard_handler_ptr = 0x105000, initrd_functions = sample_code,
     literal = sample_lit sample_strings, rtc_locals = (0, 0)\<rparr>"

definition sample_system :: system where
  "sample_system = \<lparr>sys_bus = \<lparr>device = (\<lambda>_ _. 0), trace = []\<rparr>, sys_log = [], gates = sample_idt,
     irqs = \<lparr>mbus = \<lparr>device = (\<lambda>_ _. 0), trace = []\<rparr>, klog = [], irq_routines = replicate 16 0, isr_routines = replicate 32 0,
       timer_ticks = 0, printed = [], halted = False, world = ()\<rparr>,
     boot = sample_console sample_strings, clock = sample_rtc, files = sample_initrd 1024 0x62, fs_root = 0, interrupts_on = False\<rparr>"

lemma sample_strings_short: "short_literals sample_strings" "set multiboot_literals \<subseteq> set sample_strings"
  "''--------------------------------------------------\<newline>'' \<in> set sample_strings"
proof -
  show "short_literals sample_strings" using multiboot_literals_short
    by (simp add: short_literals_def sample_strings_def) (simp add: multiboot_literals_def header_prints_def chars_def)
qed (auto simp: sample_strings_def)

lemma sample_system_ready: "boot_ready sample_kernel_image 0x4000 [] [] sample_system"
  using sample_console_fields [of sample_strings] sample_multiboot_ready [OF sample_strings_short(1,2)]
    sample_literals [OF sample_strings_short(1,3)]
  by (simp add: boot_ready_def sample_system_def sample_kernel_image_def)

lemma sample_system_record:
  "mb_flags (record_of 0x4000 sample_system) = 8" "mb_mods_count (record_of 0x4000 sample_system) = 1"
  "mb_mem_upper (record_of 0x4000 sample_system) = 0x3FC00"
  "module_entry (mb_memory (boot sample_system)) (record_of 0x4000 sample_system) 0 = (0x111000, 0x113800)"
  "kernel_pointer (boot_kernel sample_system) = 0x110123" "paging_state (boot_kernel sample_system) = 0"
  using sample_record [OF sample_strings_short(1)] sample_console_fields [of sample_strings]
  by (simp_all add: record_of_def sample_system_def)

lemma sample_system_window: "boot_window 0x112923 0x3FC00" "frames_at 0x112923 = 0x113000" "next_page 0x110123 = 0x111000"
  by (simp_all add: boot_window_def boot_frames_def boot_end_def pages_at_def heap_at_def frames_at_def next_page_def)

theorem kernel_main_ready_witness:
  "\<exists>s'. kernel_main sample_kernel_image 0x4000 0 sample_system = map_option Main_loop (kernel_services sample_kernel_image 0x4000 s') \<and>
    isr_routines (irqs s') ! 14 = 0x104000"
proof -
  have b: "bit (8 :: u32) 3" by (simp add: bit_numeral_rec)
  have "modules_moved 0x4000 sample_system = 0x2800"
    by (simp add: modules_moved_def Let_def sample_system_record b modules_size_def)
  then have "kernel_pointer (boot_kernel sample_system) + modules_moved 0x4000 sample_system = of_nat 0x112923"
    by (simp add: sample_system_record)
  from kernel_main_ready [OF sample_system_ready this _ sample_system_record(6), of 0] sample_system_window(1)
  show ?thesis by (auto simp: sample_system_record sample_kernel_image_def)
qed


end
