(* ===== verification/Page_Fault.thy ===== *)
theory Page_Fault
  imports Printf_Text
begin

text \<open>
  The page fault handler of \<^verbatim>\<open>mem/paging.c\<close>, which shows the address and the error code of a fault and returns to \<open>isr_handler\<close>.  \<open>lit\<close> is the address of a
  literal, \<open>cr2\<close> the register with the address of the fault.
\<close>

section \<open>The handler\<close>

definition tprintf :: "(string \<Rightarrow> u32) \<Rightarrow> string \<Rightarrow> u32 list \<Rightarrow> terminal \<Rightarrow> terminal option" where
  "tprintf lit format args t = map_option snd (kprintf (lit format) args t)"

definition page_fault :: "(string \<Rightarrow> u32) \<Rightarrow> u32 \<Rightarrow> u32 \<Rightarrow> terminal \<Rightarrow> terminal option" where
  "page_fault lit cr2 int_ctx t = do {
     let addr = cr2;
     let present = (if int_ctx AND 0x1 = 0 then 1 else 0);
     let rw = int_ctx AND 0x2;
     let us = int_ctx AND 0x4;
     let reserved = int_ctx AND 0x8;
     let id = int_ctx AND 0x10;
     t \<leftarrow> tprintf lit ''\<newline>\<newline>|---------------- '' [] t;
     t \<leftarrow> tprintf lit ''Page Fault'' [] (terminal_setcolor (make_color COLOR_RED COLOR_BLACK) t);
     t \<leftarrow> tprintf lit '' ----------------|\<newline>'' [] (terminal_setcolor (make_color COLOR_LIGHT_GREY COLOR_BLACK) t);
     t \<leftarrow> tprintf lit ''Address: 0x%x\<newline>'' [addr] (terminal_setcolor (make_color COLOR_LIGHT_BLUE COLOR_BLACK) t);
     t \<leftarrow> tprintf lit ''Present: %i\<newline>'' [present] t;
     t \<leftarrow> tprintf lit ''RW: %i\<newline>'' [rw] t;
     t \<leftarrow> tprintf lit ''US: %i\<newline>'' [us] t;
     t \<leftarrow> tprintf lit ''Reserved: %i\<newline>'' [reserved] t;
     t \<leftarrow> tprintf lit ''ID: %i\<newline>'' [id] t;
     tprintf lit ''|--------------------------------------------|'' [] (terminal_setcolor (make_color COLOR_LIGHT_GREY COLOR_BLACK) t)
   }"

section \<open>What it shows\<close>

definition page_fault_literals :: "string list" where
  "page_fault_literals = [''\<newline>\<newline>|---------------- '', ''Page Fault'', '' ----------------|\<newline>'', ''Address: 0x%x\<newline>'', ''Present: %i\<newline>'',
     ''RW: %i\<newline>'', ''US: %i\<newline>'', ''Reserved: %i\<newline>'', ''ID: %i\<newline>'', ''|--------------------------------------------|'']"

text \<open>A report is a list of colored lines; \<open>flag code n\<close> is the value of bit \<open>n\<close> in its place.\<close>

type_synonym colored = "(u8 \<times> line) list"

definition paint :: "colored \<Rightarrow> screen \<Rightarrow> screen" where
  "paint ls = fold (\<lambda>(c, format, args). fold (screen_putchar c) (expand (chars format) args)) ls"

definition flag :: "u32 \<Rightarrow> nat \<Rightarrow> u32" where "flag code n = (if bit code n then 2 ^ n else 0)"

definition page_fault_report :: "u8 \<Rightarrow> u32 \<Rightarrow> u32 \<Rightarrow> colored" where
  "page_fault_report color addr code =
     (let grey = make_color COLOR_LIGHT_GREY COLOR_BLACK; red = make_color COLOR_RED COLOR_BLACK; blue = make_color COLOR_LIGHT_BLUE COLOR_BLACK in
     [(color, ''\<newline>\<newline>|---------------- '', []), (red, ''Page Fault'', []), (grey, '' ----------------|\<newline>'', []),
      (blue, ''Address: 0x%x\<newline>'', [Num addr]), (blue, ''Present: %i\<newline>'', [Num (1 - flag code 0)]), (blue, ''RW: %i\<newline>'', [Num (flag code 1)]),
      (blue, ''US: %i\<newline>'', [Num (flag code 2)]), (blue, ''Reserved: %i\<newline>'', [Num (flag code 3)]), (blue, ''ID: %i\<newline>'', [Num (flag code 4)]),
      (grey, ''|--------------------------------------------|'', [])])"

text \<open>\<open>t'\<close> is \<open>t\<close> with the lines painted, memory off the screen being \<open>M\<close>.\<close>

definition painted :: "mem \<Rightarrow> colored \<Rightarrow> terminal \<Rightarrow> terminal \<Rightarrow> bool" where
  "painted M ls t t' \<longleftrightarrow> terminal_ok t' \<and> screen_of t' = paint ls (screen_of t) \<and> (\<forall>x. \<not> in_rng VGA_MEMORY 4000 x \<longrightarrow> tmem t' x = M x)"

lemma painted_line:
  assumes "painted M ls t0 t" "string_at M (lit f) (chars f)" "fits (chars f) (map Num vs)"
  shows "\<exists>t'. tprintf lit f vs t = Some t' \<and> painted M (ls @ [(terminal_color t, f, map Num vs)]) t0 t' \<and> terminal_color t' = terminal_color t"
proof -
  have t: "terminal_ok t" "\<forall>x. \<not> in_rng VGA_MEMORY 4000 x \<longrightarrow> tmem t x = M x" using assms(1) by (simp_all add: painted_def)
  have "cstr (tmem t) (lit f) (chars f)" "8 \<notin> set (chars f)" using assms(2) cstr_off_screen [OF _ t(2)] by (auto simp: string_at_def)
  moreover have "map parg_word (map Num vs) = vs" by (simp add: comp_def)
  ultimately obtain n t' where "kprintf (lit f) vs t = Some (n, t')"
    "video_step (fold (screen_putchar (terminal_color t)) (expand (chars f) (map Num vs))) t t'"
    using kprintf_expand [OF t(1) _ _ assms(3)] by auto
  then show ?thesis using assms(1) by (auto simp: tprintf_def painted_def video_step_def paint_def)
qed

lemma painted_color: "painted M ls t0 t \<Longrightarrow> painted M ls t0 (terminal_setcolor c t)"
proof -
  have "screen_of (terminal_setcolor c t) = screen_of t" by (simp add: screen_of_def cells_def buffer_get_def terminal_setcolor_def)
  then show "painted M ls t0 t \<Longrightarrow> painted M ls t0 (terminal_setcolor c t)"
    by (simp only: painted_def) (simp add: terminal_ok_def terminal_setcolor_def)
qed

lemma flag_mask: "code AND 0x2 = flag code 1" "code AND 0x4 = flag code 2" "code AND 0x8 = flag code 3" "code AND 0x10 = flag code 4"
    "(if code AND 0x1 = 0 then 1 else 0) = 1 - flag code 0"
  for code :: u32
proof -
  have m: "code AND 2 ^ n = flag code n" for n by (rule bit_word_eqI) (auto simp: flag_def bit_simps)
  show "code AND 0x2 = flag code 1" "code AND 0x4 = flag code 2" "code AND 0x8 = flag code 3" "code AND 0x10 = flag code 4"
    using m [of 1] m [of 2] m [of 3] m [of 4] by simp_all
  show "(if code AND 0x1 = 0 then 1 else 0) = 1 - flag code 0" using m [of 0] by (simp add: flag_def)
qed

lemma report_step:
  assumes M: "\<forall>f \<in> set page_fault_literals. string_at M (lit f) (chars f)" and p: "painted M (take n (page_fault_report color addr code)) t u"
    and n: "n < length (page_fault_report color addr code)" "page_fault_report color addr code ! n = (c, f, map Num vs)" "c = terminal_color u" "m = Suc n"
  shows "\<exists>t'. tprintf lit f vs u = Some t' \<and> painted M (take m (page_fault_report color addr code)) t t' \<and> terminal_color t' = terminal_color u"
proof -
  let ?r = "page_fault_report color addr code"
  have "\<forall>(c, f, args) \<in> set ?r. f \<in> set page_fault_literals \<and> fits (chars f) args"
    by (simp add: page_fault_report_def page_fault_literals_def chars_def Let_def)
  moreover have "(terminal_color u, f, map Num vs) \<in> set ?r" using n(1-3) nth_mem by metis
  ultimately have "string_at M (lit f) (chars f)" "fits (chars f) (map Num vs)" using M by auto
  then show ?thesis using painted_line [OF p] n by (simp add: take_Suc_conv_app_nth)
qed

lemma page_fault_painted:
  assumes "terminal_ok t" and "\<forall>f \<in> set page_fault_literals. string_at (tmem t) (lit f) (chars f)"
  shows "\<exists>t'. page_fault lit cr2 code t = Some t' \<and> painted (tmem t) (page_fault_report (terminal_color t) cr2 code) t t' \<and>
    terminal_color t' = make_color COLOR_LIGHT_GREY COLOR_BLACK"
proof -
  let ?M = "tmem t" and ?r = "page_fault_report (terminal_color t) cr2 code"
  let ?grey = "make_color COLOR_LIGHT_GREY COLOR_BLACK" and ?red = "make_color COLOR_RED COLOR_BLACK" and ?blue = "make_color COLOR_LIGHT_BLUE COLOR_BLACK"
  note step = report_step [OF assms(2), where color = "terminal_color t" and addr = cr2 and code = code]
  have l: "length ?r = 10" by (simp add: page_fault_report_def Let_def)
  have nine: "(9 :: nat) < 10" "(10 :: nat) = Suc 9" by simp_all
  have p0: "painted ?M (take 0 ?r) t t" using assms(1) by (simp add: painted_def paint_def)
  have col: "terminal_color (terminal_setcolor c u) = c" for c u by (simp add: terminal_setcolor_def)
  have r: "?r ! 0 = (terminal_color t, ''\<newline>\<newline>|---------------- '', map Num [])"
    "?r ! 1 = (?red, ''Page Fault'', map Num [])"
    "?r ! 2 = (?grey, '' ----------------|\<newline>'', map Num [])"
    "?r ! 3 = (?blue, ''Address: 0x%x\<newline>'', map Num [cr2])"
    "?r ! 4 = (?blue, ''Present: %i\<newline>'', map Num [1 - flag code 0])"
    "?r ! 5 = (?blue, ''RW: %i\<newline>'', map Num [flag code 1])"
    "?r ! 6 = (?blue, ''US: %i\<newline>'', map Num [flag code 2])"
    "?r ! 7 = (?blue, ''Reserved: %i\<newline>'', map Num [flag code 3])"
    "?r ! 8 = (?blue, ''ID: %i\<newline>'', map Num [flag code 4])"
    "?r ! 9 = (?grey, ''|--------------------------------------------|'', map Num [])"
    by (simp_all add: page_fault_report_def Let_def)
  obtain t1 where t1: "tprintf lit ''\<newline>\<newline>|---------------- '' [] t = Some t1" "painted ?M (take 1 ?r) t t1" "terminal_color t1 = terminal_color t"
    using step [where m = 1, OF p0 _ r(1) refl] unfolding l by auto
  obtain t2 where t2: "tprintf lit ''Page Fault'' [] (terminal_setcolor ?red t1) = Some t2" "painted ?M (take 2 ?r) t t2" "terminal_color t2 = ?red"
    using step [where m = 2, OF painted_color [OF t1(2), of "?red"] _ r(2) col [symmetric]] unfolding l col by auto
  obtain t3 where t3: "tprintf lit '' ----------------|\<newline>'' [] (terminal_setcolor ?grey t2) = Some t3" "painted ?M (take 3 ?r) t t3" "terminal_color t3 = ?grey"
    using step [where m = 3, OF painted_color [OF t2(2), of "?grey"] _ r(3) col [symmetric]] unfolding l col by auto
  obtain t4 where t4: "tprintf lit ''Address: 0x%x\<newline>'' [cr2] (terminal_setcolor ?blue t3) = Some t4" "painted ?M (take 4 ?r) t t4" "terminal_color t4 = ?blue"
    using step [where m = 4, OF painted_color [OF t3(2), of "?blue"] _ r(4) col [symmetric]] unfolding l col by auto
  obtain t5 where t5: "tprintf lit ''Present: %i\<newline>'' [1 - flag code 0] t4 = Some t5" "painted ?M (take 5 ?r) t t5" "terminal_color t5 = ?blue"
    using step [where m = 5, OF t4(2) _ r(5) t4(3) [symmetric]] unfolding l t4(3) by auto
  obtain t6 where t6: "tprintf lit ''RW: %i\<newline>'' [flag code 1] t5 = Some t6" "painted ?M (take 6 ?r) t t6" "terminal_color t6 = ?blue"
    using step [where m = 6, OF t5(2) _ r(6) t5(3) [symmetric]] unfolding l t5(3) by auto
  obtain t7 where t7: "tprintf lit ''US: %i\<newline>'' [flag code 2] t6 = Some t7" "painted ?M (take 7 ?r) t t7" "terminal_color t7 = ?blue"
    using step [where m = 7, OF t6(2) _ r(7) t6(3) [symmetric]] unfolding l t6(3) by auto
  obtain t8 where t8: "tprintf lit ''Reserved: %i\<newline>'' [flag code 3] t7 = Some t8" "painted ?M (take 8 ?r) t t8" "terminal_color t8 = ?blue"
    using step [where m = 8, OF t7(2) _ r(8) t7(3) [symmetric]] unfolding l t7(3) by auto
  obtain t9 where t9: "tprintf lit ''ID: %i\<newline>'' [flag code 4] t8 = Some t9" "painted ?M (take 9 ?r) t t9" "terminal_color t9 = ?blue"
    using step [where m = 9, OF t8(2) _ r(9) t8(3) [symmetric]] unfolding l t8(3) by auto
  obtain t10 where t10: "tprintf lit ''|--------------------------------------------|'' [] (terminal_setcolor ?grey t9) = Some t10" "painted ?M (take 10 ?r) t t10" "terminal_color t10 = ?grey"
    using step [OF painted_color [OF t9(2), of "?grey"] _ r(10) col [symmetric], of 10] unfolding l col using nine by blast
  have "page_fault lit cr2 code t = Some t10"
    unfolding page_fault_def Let_def flag_mask by (simp only: Option.bind.bind_lunit t1(1) t2(1) t3(1) t4(1) t5(1) t6(1) t7(1) t8(1) t9(1) t10(1))
  moreover have "painted ?M ?r t t10" using t10(2) l by simp
  ultimately show ?thesis using t10(3) by blast
qed

text \<open>
  C15: the page fault handler ends for every fault and shows on the screen, in the colors of the code, the address and the bits of the error
  code, each as its mask; only the bit for a present page is inverted, so \<open>Present\<close> is 1 for a page that is not present.  It touches
  nothing but the screen and leaves the terminal grey on black.
\<close>

theorem page_fault_reports:
  assumes "terminal_ok t" and "\<forall>f \<in> set page_fault_literals. string_at (tmem t) (lit f) (chars f)"
  shows "\<exists>t'. page_fault lit cr2 code t = Some t' \<and> terminal_ok t' \<and>
    screen_of t' = paint (page_fault_report (terminal_color t) cr2 code) (screen_of t) \<and>
    terminal_color t' = make_color COLOR_LIGHT_GREY COLOR_BLACK \<and> (\<forall>x. \<not> in_rng VGA_MEMORY 4000 x \<longrightarrow> tmem t' x = tmem t x)"
  using page_fault_painted [OF assms, of cr2 code] unfolding painted_def by blast

theorem page_fault_reports_witness:
  "\<exists>t'. page_fault (sample_lit page_fault_literals) 0xA0000000 2 (sample_terminal\<lparr>tmem := (\<lambda>x. literal_byte page_fault_literals (unat x))\<rparr>) = Some t'"
proof -
  let ?t = "sample_terminal\<lparr>tmem := (\<lambda>x. literal_byte page_fault_literals (unat x))\<rparr>"
  have "short_literals page_fault_literals" by (simp add: short_literals_def page_fault_literals_def chars_def)
  then have "\<forall>f \<in> set page_fault_literals. string_at (tmem ?t) (sample_lit page_fault_literals f) (chars f)"
    by (auto intro!: sample_string_at simp: unat_of_nat_u32)
  moreover have "terminal_ok ?t" by (simp add: terminal_ok_def sample_terminal_def)
  ultimately show ?thesis using page_fault_reports [of ?t "sample_lit page_fault_literals" "0xA0000000" 2] by blast
qed

end
