(* ===== verification/Keyboard_Kernel.thy ===== *)
theory Keyboard_Kernel
  imports Keyboard Page_Fault Boot_Heap
begin

text \<open>
  The keyboard interrupt in the running kernel: the keys 1, 2 and 3 of \<^verbatim>\<open>kb.c\<close>, which read the address \<open>0xA0000000\<close>, take a page of the
  kernel heap and allocate an integer, on the paging structures, the allocator and the dispatcher of exceptions.
\<close>

section \<open>The handler\<close>

record key_system =
  driver :: keyboard
  allocator :: kmem_state
  dispatch :: "terminal intr"

abbreviation key_kernel :: "key_system \<Rightarrow> kernel" where "key_kernel s \<equiv> pages (allocator s)"
abbreviation key_screen :: "key_system \<Rightarrow> terminal" where "key_screen s \<equiv> kterm (driver s)"

definition on_key_screen :: "terminal \<Rightarrow> key_system \<Rightarrow> key_system" where
  "on_key_screen t s = s\<lparr>driver := (driver s)\<lparr>kterm := t\<rparr>\<rparr>"

definition key_printf :: "(string \<Rightarrow> u32) \<Rightarrow> string \<Rightarrow> u32 list \<Rightarrow> key_system \<Rightarrow> key_system option" where
  "key_printf lit format args s = do { t \<leftarrow> tprintf lit format args (key_screen s); Some (on_key_screen t s) }"

text \<open>How the interrupt ends: the handler returns, or an exception inside it has stopped the processor.\<close>

datatype key_end = Handled key_system | Stopped key_system

text \<open>The routines of the exceptions: \<open>page_fault\<close> at \<open>ptr\<close>, called with the error code; \<open>cr2\<close> is the address of the fault.\<close>

definition fault_routines :: "(string \<Rightarrow> u32) \<Rightarrow> u32 \<Rightarrow> u32 \<Rightarrow> terminal routines" where
  "fault_routines lit ptr cr2 p arg s = (case arg of
     Code code \<Rightarrow> if p = ptr then map_option (\<lambda>t. s\<lparr>world := t\<rparr>) (page_fault lit cr2 code (world s)) else None
   | Context _ \<Rightarrow> None)"

text \<open>
  A read of the kernel: the word at the frame the page is mapped to, or, if it is not mapped, exception 14 with the error code 0, which stands
  for a read by the kernel of a page that is not present.  \<open>ctx\<close> holds the registers the entry code pushes.
\<close>

definition read_word :: "(string \<Rightarrow> u32) \<Rightarrow> u32 \<Rightarrow> interrupt_context \<Rightarrow> u32 \<Rightarrow> key_system \<Rightarrow> (u32 + key_system) option" where
  "read_word lit ptr ctx v s = (case walk (kmem (key_kernel s)) (cr3 (key_kernel s)) v of
     Some p \<Rightarrow> Some (Inl (load32 (kmem (key_kernel s)) p))
   | None \<Rightarrow> do {
       d \<leftarrow> interrupt_handler (fault_routines lit ptr v) (ctx\<lparr>int_no := 14, err_code := 0\<rparr>) ((dispatch s)\<lparr>world := key_screen s\<rparr>);
       Some (Inr (on_key_screen (world d) (s\<lparr>dispatch := d\<rparr>)))
     })"

definition key_fault :: "(string \<Rightarrow> u32) \<Rightarrow> u32 \<Rightarrow> interrupt_context \<Rightarrow> key_system \<Rightarrow> key_end option" where
  "key_fault lit ptr ctx s = do {
     s \<leftarrow> key_printf lit ''Doing Page fault Enjoy! - (remove in kb.c)'' [] s;
     r \<leftarrow> read_word lit ptr ctx 0xA0000000 s;
     case r of
       Inl do_page_fault \<Rightarrow> do { (_, t) \<leftarrow> kprintf do_page_fault [] (key_screen s); Some (Handled (on_key_screen t s)) }
     | Inr s \<Rightarrow> Some (Stopped s)
   }"

definition key_page :: "(string \<Rightarrow> u32) \<Rightarrow> key_system \<Rightarrow> key_end option" where
  "key_page lit s = do {
     (addr, k) \<leftarrow> heap_alloc 0x1000 (kernel_heap (key_kernel s)) (key_kernel s);
     s \<leftarrow> key_printf lit ''Addr:%x\<newline>'' [addr] (s\<lparr>allocator := (allocator s)\<lparr>pages := k\<rparr>\<rparr>);
     Some (Handled s)
   }"

definition key_int :: "(string \<Rightarrow> u32) \<Rightarrow> key_system \<Rightarrow> key_end option" where
  "key_int lit s = do {
     (addr, h) \<leftarrow> kmalloc 4 (allocator s);
     s \<leftarrow> key_printf lit ''Addr:%x\<newline>'' [addr] (s\<lparr>allocator := h\<rparr>);
     Some (Handled s)
   }"

definition keyboard_interrupt :: "(string \<Rightarrow> u32) \<Rightarrow> u32 \<Rightarrow> interrupt_context \<Rightarrow> key_system \<Rightarrow> key_end option" where
  "keyboard_interrupt lit ptr ctx s = (let (d, e) = keyboard_handler (driver s); s = s\<lparr>driver := d\<rparr> in
     case e of Returns \<Rightarrow> Some (Handled s)
     | Reads_unmapped \<Rightarrow> key_fault lit ptr ctx s
     | Allocates_page \<Rightarrow> key_page lit s
     | Allocates_int \<Rightarrow> key_int lit s)"

section \<open>The three keys\<close>

definition key_literals :: "string list" where
  "key_literals = [''Doing Page fault Enjoy! - (remove in kb.c)'', ''Addr:%x\<newline>''] @ page_fault_literals"

text \<open>The driver is well-formed, its buffers lie off the screen and hold no literal.\<close>

definition key_ready :: "(string \<Rightarrow> u32) \<Rightarrow> keyboard \<Rightarrow> bool" where
  "key_ready lit d \<longleftrightarrow> kb_reachable d \<and> terminal_ok (kterm d) \<and>
     disj (kb_buffer d) 256 VGA_MEMORY 4000 \<and> disj (kb_buffer_raw d) 256 VGA_MEMORY 4000 \<and>
     (\<forall>f \<in> set key_literals. string_at (tmem (kterm d)) (lit f) (chars f) \<and>
       (\<forall>i \<le> length f. \<not> in_rng (kb_buffer d) 256 (lit f + of_nat i) \<and> \<not> in_rng (kb_buffer_raw d) 256 (lit f + of_nat i)))"

text \<open>\<open>t\<close> shows the screen \<open>scr\<close>, and off the screen the memory is \<open>M\<close>.\<close>

definition showing :: "mem \<Rightarrow> u8 \<Rightarrow> screen \<Rightarrow> terminal \<Rightarrow> bool" where
  "showing M c scr t \<longleftrightarrow> terminal_ok t \<and> terminal_color t = c \<and> screen_of t = scr \<and> (\<forall>x. \<not> in_rng VGA_MEMORY 4000 x \<longrightarrow> tmem t x = M x)"

lemma digit_pressed:
  assumes r: "key_ready lit d" and sc: "scancode_of d \<in> {2, 3, 4}"
  shows "keyboard_handler d = (kb_pressed d, if scancode_of d = 2 then Reads_unmapped else if scancode_of d = 3 then Allocates_page else Allocates_int)"
    "showing (tmem (kterm (kb_pressed d))) (terminal_color (kterm d)) (screen_of (kterm d)) (kterm (kb_pressed d))"
    "f \<in> set key_literals \<Longrightarrow> string_at (tmem (kterm (kb_pressed d))) (lit f) (chars f)"
proof -
  have k: "kb_counts d" using r kb_reachable_inv by (simp add: key_ready_def)
  have "kbdus ! 2 = 49" "kbdus ! 3 = 50" "kbdus ! 4 = 51" by (simp_all add: kbdus_def)
  then show "keyboard_handler d = (kb_pressed d, if scancode_of d = 2 then Reads_unmapped else if scancode_of d = 3 then Allocates_page else Allocates_int)"
    using sc unfolding handler_cases [OF k] Let_def by (auto simp: KB_BRAKECODE_def)
  show "showing (tmem (kterm (kb_pressed d))) (terminal_color (kterm d)) (screen_of (kterm d)) (kterm (kb_pressed d))"
    using r kb_pressed_facts [OF k] kb_pressed_screen [OF k] by (simp add: key_ready_def showing_def)
  assume f: "f \<in> set key_literals"
  have "tmem (kterm (kb_pressed d)) (lit f + of_nat i) = tmem (kterm d) (lit f + of_nat i)" if "i < length (chars f) + 1" for i
  proof (rule kb_pressed_facts(4) [OF k])
    have l: "\<not> in_rng (kb_buffer d) 256 (lit f + of_nat i)" "\<not> in_rng (kb_buffer_raw d) 256 (lit f + of_nat i)"
      using r f that by (auto simp: key_ready_def chars_def)
    then show "\<not> in_rng (kb_buffer_raw d) 255 (lit f + of_nat i)" "\<not> in_rng (kb_buffer d) 256 (lit f + of_nat i)"
      by (simp_all add: in_rng_def)
  qed
  then have "cstr (tmem (kterm (kb_pressed d))) (lit f) (chars f) = cstr (tmem (kterm d)) (lit f) (chars f)"
    by (intro cstr_cong) auto
  then show "string_at (tmem (kterm (kb_pressed d))) (lit f) (chars f)" using r f by (auto simp: key_ready_def string_at_def)
qed

text \<open>One line of a key on the screen.\<close>

lemma key_printf_shows:
  assumes s: "showing M c scr (key_screen s)" and f: "string_at M (lit f) (chars f)" "fits (chars f) (map Num vs)"
  shows "\<exists>t. key_printf lit f vs s = Some (on_key_screen t s) \<and>
    showing M c (fold (screen_putchar c) (expand (chars f) (map Num vs)) scr) t"
proof -
  have "painted M [] (key_screen s) (key_screen s)" using s by (simp add: painted_def showing_def paint_def)
  from painted_line [OF this, of lit f vs] f s show ?thesis
    by (auto simp: key_printf_def showing_def painted_def paint_def)
qed

lemma on_key_screen_fields [simp]:
  "key_screen (on_key_screen t s) = t" "allocator (on_key_screen t s) = allocator s" "dispatch (on_key_screen t s) = dispatch s"
  by (simp_all add: on_key_screen_def)

text \<open>What a key that shows an address leaves on the screen.\<close>

definition address_shown :: "key_system \<Rightarrow> u32 \<Rightarrow> key_system \<Rightarrow> bool" where
  "address_shown s p s' \<longleftrightarrow> terminal_ok (key_screen s') \<and> screen_of (key_screen s') =
     fold (screen_putchar (terminal_color (key_screen s))) (expand (chars ''Addr:%x\<newline>'') [Num p]) (screen_of (key_screen s))"

lemma address_line:
  assumes "key_ready lit (driver s)" "scancode_of (driver s) \<in> {2, 3, 4}" "driver u = kb_pressed (driver s)"
  shows "\<exists>u'. key_printf lit ''Addr:%x\<newline>'' [p] u = Some u' \<and> address_shown s p u' \<and> allocator u' = allocator u"
proof -
  have f: "''Addr:%x\<newline>'' \<in> set key_literals" "fits (chars ''Addr:%x\<newline>'') (map Num [p])" by (simp_all add: key_literals_def chars_def)
  note d = digit_pressed [OF assms(1,2)]
  from key_printf_shows [where vs = "[p]" and lit = lit and f = "''Addr:%x\<newline>''", OF d(2) [folded assms(3)] d(3) [OF f(1), folded assms(3)] f(2)] show ?thesis
    by (fastforce simp: address_shown_def showing_def)
qed

text \<open>Another page in the hands of the heap does not disturb the allocator.\<close>

lemma kheap_ok_more_pages:
  assumes "kheap_ok s T F" "kinv k" "kregions (pages s) \<subseteq> kregions k"
  shows "kheap_ok (s\<lparr>pages := k\<rparr>) T F"
proof -
  have "owns h T W \<Longrightarrow> owns h T W'" if "W \<subseteq> W'" for h T W W' using that unfolding owns_def by blast
  then have "heap_ok h fp cp T F {} (kregions (pages s)) \<Longrightarrow> heap_ok h fp cp T F {} (kregions k)" for h fp cp
    using assms(3) unfolding heap_ok_def tiling_def by blast
  then show ?thesis using assms(1,2) by (auto simp: kheap_ok_def)
qed

text \<open>
  the key 2 takes a page of the kernel heap, or none when the heap is full, and shows its address; no block of the allocator
  changes, and nothing keeps the address, so that the page is never given back.
\<close>

theorem key_two_takes_page:
  assumes "key_ready lit (driver s)" and "scancode_of (driver s) = 3" and "kheap_ok (allocator s) T F"
  shows "\<exists>p s'. keyboard_interrupt lit ptr ctx s = Some (Handled s') \<and> address_shown s p s' \<and> kheap_ok (allocator s') T F \<and>
    blocks (allocator s') T = blocks (allocator s) T \<and>
    (if p = 0 then kregions (key_kernel s') = kregions (key_kernel s)
     else (p, 4096) \<notin> kregions (key_kernel s) \<and> kregions (key_kernel s') = insert (p, 4096) (kregions (key_kernel s)))"
proof -
  let ?k = "key_kernel s"
  have inv: "kinv ?k" using assms(3) by (simp add: kheap_ok_def)
  obtain p k where k: "heap_alloc 4096 (kernel_heap ?k) ?k = Some (p, k)" "kinv k"
    "if p = 0 then kregions k = kregions ?k
     else \<exists>i. unat i < kpages ?k \<and> p = kpage ?k i \<and> bitmap_entry (kmem ?k) (kbitmap ?k) i = 0 \<and> kregions k = insert (p, 4096) (kregions ?k)"
    using heap_alloc_page [OF inv] by metis
  have new: "(p, 4096) \<notin> kregions ?k" if "p \<noteq> 0"
  proof
    assume "(p, 4096) \<in> kregions ?k"
    then obtain j where j: "p = kpage ?k j" "unat j < kpages ?k" "bitmap_entry (kmem ?k) (kbitmap ?k) j \<noteq> 0" by (auto simp: kregions_eq)
    moreover obtain i where i: "unat i < kpages ?k" "p = kpage ?k i" "bitmap_entry (kmem ?k) (kbitmap ?k) i = 0" using k(3) \<open>p \<noteq> 0\<close> by auto
    moreover have "kbase ?k" using inv by (simp add: kinv_def)
    ultimately have "(kpages ?k - unat i) * 4096 = (kpages ?k - unat j) * 4096" using kpage_addr(1) by metis
    then have "i = j" using i(1) j(2) by (simp add: word_unat_eq_iff)
    then show False using i(3) j(3) by simp
  qed
  let ?u = "s\<lparr>driver := kb_pressed (driver s), allocator := (allocator s)\<lparr>pages := k\<rparr>\<rparr>"
  obtain s' where s': "key_printf lit ''Addr:%x\<newline>'' [p] ?u = Some s'" "address_shown s p s'" "allocator s' = (allocator s)\<lparr>pages := k\<rparr>"
    using address_line [OF assms(1), of ?u p] assms(2) by auto
  have "keyboard_interrupt lit ptr ctx s = Some (Handled s')"
    using digit_pressed(1) [OF assms(1)] assms(2) k(1) s'(1) by (simp add: keyboard_interrupt_def key_page_def)
  moreover have "kregions ?k \<subseteq> kregions k" using k(3) by (auto split: if_splits)
  then have "kheap_ok ((allocator s)\<lparr>pages := k\<rparr>) T F" by (rule kheap_ok_more_pages [OF assms(3) k(2)])
  ultimately show ?thesis using s'(2) k(3) new
    by (intro exI [of _ p] exI [of _ s']) (auto simp: s'(3))
qed


text \<open>
  C37: the key 1 stops the machine when nothing is mapped at \<open>0xA0000000\<close>: its message and the report of the page fault, with this address
  and an error code of 0, are on the screen, and the dispatcher halts the processor inside the handler, which never returns; the
  message at the end of the key is not reached and the allocator is as it was.
\<close>

theorem key_one_stops:
  assumes "key_ready lit (driver s)" and "scancode_of (driver s) = 2" and "walk (kmem (key_kernel s)) (cr3 (key_kernel s)) 0xA0000000 = None"
    and "isr_routines (dispatch s) ! 14 = ptr" and "ptr \<noteq> 0"
  shows "\<exists>s'. keyboard_interrupt lit ptr ctx s = Some (Stopped s') \<and> halted (dispatch s') \<and> allocator s' = allocator s \<and>
    screen_of (key_screen s') = paint (page_fault_report (terminal_color (key_screen s)) 0xA0000000 0)
      (fold (screen_putchar (terminal_color (key_screen s))) (chars ''Doing Page fault Enjoy! - (remove in kb.c)'') (screen_of (key_screen s)))"
proof -
  let ?d = "kb_pressed (driver s)" and ?c = "terminal_color (key_screen s)" and ?f = "''Doing Page fault Enjoy! - (remove in kb.c)''"
  let ?M = "tmem (kterm ?d)" and ?u = "s\<lparr>driver := ?d\<rparr>"
  have sc: "scancode_of (driver s) \<in> {2, 3, 4}" using assms(2) by simp
  note d = digit_pressed [OF assms(1) sc]
  have f: "?f \<in> set key_literals" "fits (chars ?f) (map Num [])" "expand (chars ?f) (map Num []) = chars ?f"
    by (simp_all add: key_literals_def chars_def)
  obtain t where t: "key_printf lit ?f [] ?u = Some (on_key_screen t ?u)" "showing ?M ?c (fold (screen_putchar ?c) (chars ?f) (screen_of (key_screen s))) t"
    using key_printf_shows [of ?M ?c "screen_of (key_screen s)" ?u lit ?f "[]"] d(2,3) f by auto
  have off: "\<forall>x. \<not> in_rng VGA_MEMORY 4000 x \<longrightarrow> tmem t x = ?M x" using t(2) by (simp add: showing_def)
  have "\<forall>g \<in> set page_fault_literals. string_at (tmem t) (lit g) (chars g)"
  proof
    fix g assume "g \<in> set page_fault_literals"
    then have "string_at ?M (lit g) (chars g)" using d(3) by (simp add: key_literals_def)
    then show "string_at (tmem t) (lit g) (chars g)" using cstr_off_screen [OF _ off] by (simp add: string_at_def)
  qed
  then obtain t' where t': "page_fault lit 0xA0000000 0 t = Some t'" "painted (tmem t) (page_fault_report ?c 0xA0000000 0) t t'"
    using page_fault_painted [of t lit "0xA0000000" 0] t(2) by (auto simp: showing_def)
  let ?i = "(dispatch s)\<lparr>world := t\<rparr>"
  have "interrupt_handler (fault_routines lit ptr 0xA0000000) (ctx\<lparr>int_no := 14, err_code := 0\<rparr>) ?i = Some (?i\<lparr>world := t', halted := True\<rparr>)"
    using assms(4,5) t'(1) by (simp add: interrupt_handler_def isr_handler_def fault_routines_def Let_def)
  then have "read_word lit ptr ctx 0xA0000000 (on_key_screen t ?u) =
      Some (Inr (on_key_screen t' ((on_key_screen t ?u)\<lparr>dispatch := ?i\<lparr>world := t', halted := True\<rparr>\<rparr>)))"
    using assms(3) by (simp add: read_word_def)
  then have "keyboard_interrupt lit ptr ctx s = Some (Stopped (on_key_screen t' ((on_key_screen t ?u)\<lparr>dispatch := ?i\<lparr>world := t', halted := True\<rparr>\<rparr>)))"
    using d(1) assms(2) t(1) by (simp add: keyboard_interrupt_def key_fault_def)
  then show ?thesis using t(2) t'(2) by (simp add: painted_def showing_def)
qed

section \<open>A sample state\<close>

lemma key_literals_short: "short_literals key_literals"
  by (simp add: short_literals_def key_literals_def page_fault_literals_def chars_def)

text \<open>The keyboard of \<open>sample_keyboard\<close> with the literals in memory below its buffers, over the sample kernel and a fresh allocator.\<close>

definition sample_driver :: "u8 \<Rightarrow> keyboard" where
  "sample_driver sc = (sample_keyboard 0 sc)\<lparr>kterm := (kterm (sample_keyboard 0 sc))\<lparr>tmem := (\<lambda>x. literal_byte key_literals (unat x))\<rparr>\<rparr>"

definition sample_keys :: "u8 \<Rightarrow> key_system" where
  "sample_keys sc = \<lparr>driver = sample_driver sc, allocator = sample_fresh,
     dispatch = \<lparr>mbus = \<lparr>device = (\<lambda>_ _. 0), trace = []\<rparr>, klog = [], irq_routines = replicate 16 0, isr_routines = (replicate 32 0)[14 := 0x5000],
       timer_ticks = 0, printed = [], halted = False, world = sample_terminal\<rparr>\<rparr>"

lemma sample_keys_ready: "key_ready (sample_lit key_literals) (driver (sample_keys sc))" "scancode_of (driver (sample_keys sc)) = sc"
proof -
  let ?d = "sample_driver sc"
  have b: "kb_buffer ?d = 0x1000" "kb_buffer_raw ?d = 0x2000" by (simp_all add: sample_driver_def sample_keyboard_def)
  have "\<not> in_rng (kb_buffer ?d) 256 (sample_lit key_literals f + of_nat i) \<and> \<not> in_rng (kb_buffer_raw ?d) 256 (sample_lit key_literals f + of_nat i)"
    if "f \<in> set key_literals" "i \<le> length f" for f i
  proof -
    have u: "unat (sample_lit key_literals f + of_nat i) < 4096" by (rule sample_lit_low [OF key_literals_short that])
    then have "sample_lit key_literals f + of_nat i < 0x1000" by (simp add: word_less_nat_alt)
    with u show ?thesis unfolding b in_rng_def by (simp add: unat_sub_if_size word_size word_le_nat_alt)
  qed
  moreover have "string_at (tmem (kterm ?d)) (sample_lit key_literals f) (chars f)" if "f \<in> set key_literals" for f
    by (rule sample_string_at [OF key_literals_short that]) (simp add: sample_driver_def unat_of_nat_u32)
  moreover have "kb_reachable ?d" by (rule kb_reachable.init) (simp_all add: sample_driver_def sample_keyboard_def)
  moreover have "terminal_ok (kterm ?d)" using sample_keyboard_facts(2) by (simp add: sample_driver_def)
  ultimately show "key_ready (sample_lit key_literals) (driver (sample_keys sc))"
    by (auto simp: key_ready_def b sample_keys_def disj_def VGA_MEMORY_def)
  show "scancode_of (driver (sample_keys sc)) = sc" using sample_keyboard_facts(3) by (simp add: sample_keys_def sample_driver_def scancode_of_def)
qed

lemma sample_keys_fields: "allocator (sample_keys sc) = sample_fresh" "isr_routines (dispatch (sample_keys sc)) ! 14 = 0x5000"
  by (simp_all add: sample_keys_def)

theorem key_two_takes_page_witness:
  "\<exists>p s'. keyboard_interrupt (sample_lit key_literals) 0x5000 (sample_ctx 33) (sample_keys 3) = Some (Handled s') \<and> address_shown (sample_keys 3) p s'"
  using key_two_takes_page [OF sample_keys_ready, where F = "\<lambda>_. []" and T = "{}" and ptr = "0x5000" and ctx = "sample_ctx 33"] sample_fresh_ok
  by (fastforce simp: sample_keys_fields)


theorem key_one_stops_witness:
  "\<exists>s'. keyboard_interrupt (sample_lit key_literals) 0x5000 (sample_ctx 33) (sample_keys 2) = Some (Stopped s') \<and> halted (dispatch s')"
proof -
  have "pde sample_kmem 0x1000 0xA0000000 = 0" by (simp add: pde_def DIR_GET_def load32_def sample_kmem_def)
  then have "walk (kmem (key_kernel (sample_keys 2))) (cr3 (key_kernel (sample_keys 2))) 0xA0000000 = None"
    by (simp add: sample_keys_fields sample_fresh_def sample_kernel_fields walk_def)
  from key_one_stops [OF sample_keys_ready this, of "0x5000" "sample_ctx 33"] show ?thesis by (auto simp: sample_keys_fields)
qed

end
