(* ===== verification/Initrd_Mount.thy ===== *)
theory Initrd_Mount
  imports Initrd
begin

text \<open>
  Mounting the ram disk on the kernel heap: the first part of \<open>initrd_initialize\<close> with the allocator behind it.  The image lies above the heap,
  so that the allocator, which stays below the top of its pages, and the image do not disturb each other.
\<close>

section \<open>The allocator stays below the top of the heap\<close>

text \<open>The contract of the pages with the start of the heap fixed: no operation moves it.\<close>

interpretation placed: page_provider kernel_hooks "\<lambda>k. kinv k \<and> kstart k = st" kregions "\<lambda>n. n = 1" for st
  by (rule kernel_provider)

definition heap_end :: "kmem_state \<Rightarrow> nat" where "heap_end s = unat (kstart (pages s)) + 4096"

lemma placed_ok: "placed.allocator_ok st s T F \<longleftrightarrow> kheap_ok s T F \<and> kstart (pages s) = st"
  by (auto simp: placed.allocator_ok_def kheap_ok_def)

lemma heap_below:
  assumes "kheap_ok s T F" "t \<in> T"
  shows "unat t + rsz (tag_at (heap_mem s)) t \<le> heap_end s" "32 \<le> rsz (tag_at (heap_mem s)) t"
proof -
  have hi: "heap_inv s T F {} (kregions (pages s))" "kbase (pages s)" using assms by (auto simp: kheap_ok_def kinv_def split: if_splits)
  note ok = heap_okD [OF hi(1)]
  obtain a n where a: "(a, n) \<in> kregions (pages s)" "unat t + rsz (tag_at (heap_mem s)) t \<le> unat a + n"
    using ok(4) assms(2) unfolding owns_def by blast
  then obtain i where "unat i < kpages (pages s)" "a = kpage (pages s) i" "n = 4096" by (auto simp: kregions_eq)
  with kpage_addr(5) [OF hi(2)] a(2) show "unat t + rsz (tag_at (heap_mem s)) t \<le> heap_end s"
    by (fastforce simp: heap_end_def word_le_nat_alt)
  show "32 \<le> rsz (tag_at (heap_mem s)) t" using geomD(4) [OF ok(2) assms(2)] .
qed

lemma tag_below:
  assumes "kheap_ok s T F" "t \<in> T" "in_rng t 32 x"
  shows "unat x < heap_end s"
proof -
  have "kinv (pages s)" using assms(1) by (simp add: kheap_ok_def)
  then have "kbase (pages s)" by (simp add: kinv_def)
  then have "heap_end s \<le> 4294967296" using kstart_eq [of "pages s"] by (simp add: heap_end_def)
  then show ?thesis using heap_below [OF assms(1,2)] in_rng_linear(2) [OF assms(3)] by simp
qed

lemma block_below:
  assumes "kheap_ok s T F" "blocks s T p = Some n" "in_rng p (unat n) x"
  shows "unat x < heap_end s"
proof -
  have "heap_inv s T F {} (kregions (pages s))" using assms(1,2) by (auto simp: kheap_ok_def live_def split: if_splits)
  note l = liveD [OF this assms(2)]
  have "0 < unat n" using assms(3) by (simp add: in_rng_def)
  then show ?thesis using in_rng_linear(2) [OF assms(3)] l heap_below(1) [OF assms(1) l(1)] by simp
qed

text \<open>Writes above the heap do not concern the allocator.\<close>

lemma kheap_ok_above:
  assumes ok: "kheap_ok s T F" and m: "\<And>x. unat x < heap_end s \<Longrightarrow> m x = heap_mem s x"
  shows "kheap_ok (s\<lparr>heap_mem := m\<rparr>) T F" "blocks (s\<lparr>heap_mem := m\<rparr>) T = blocks s T"
proof -
  have t: "tag_at m t = tag_at (heap_mem s) t" if "t \<in> T" for t
    by (rule tag_at_cong) (use m tag_below [OF ok that] in blast)
  show "kheap_ok (s\<lparr>heap_mem := m\<rparr>) T F" using ok heap_ok_cong [of "tag_at (heap_mem s)" _ _ T F "{}" _ "tag_at m"] t by (simp add: kheap_ok_def)
  show "blocks (s\<lparr>heap_mem := m\<rparr>) T = blocks s T" using t by (intro ext live_cong [THEN fun_cong]) simp
qed

text \<open>\<open>kmalloc\<close> changes nothing above the heap and does not touch the new block.\<close>

lemma kmalloc_below:
  assumes ok: "kheap_ok s T F" and n: "unat n \<le> 4064"
  shows "\<exists>p s' T' F'. kmalloc n s = Some (p, s') \<and> kheap_ok s' T' F' \<and> heap_end s' = heap_end s \<and>
    (if p = 0 then blocks s' T' = blocks s T else blocks s T p = None \<and> blocks s' T' = (blocks s T)(p \<mapsto> n)) \<and>
    (\<forall>x. heap_end s \<le> unat x \<longrightarrow> heap_mem s' x = heap_mem s x) \<and>
    (\<forall>q k x. blocks s' T' q = Some k \<longrightarrow> in_rng q (unat k) x \<longrightarrow> heap_mem s' x = heap_mem s x)"
proof -
  obtain p s' T' F' where m: "malloc kernel_hooks n s = Some (p, s')" "placed.allocator_ok (kstart (pages s)) s' T' F'"
    "if p = 0 then blocks s' T' = blocks s T else blocks s T p = None \<and> blocks s' T' = (blocks s T)(p \<mapsto> n)"
    "tags_only T' (heap_mem s) (heap_mem s')"
    using placed.malloc_correct [of "kstart (pages s)" s T F n] ok one_page [OF n] by (auto simp: placed_ok)
  have ok': "kheap_ok s' T' F'" "heap_end s' = heap_end s" using m(2) by (simp_all add: placed_ok heap_end_def)
  have "heap_mem s' x = heap_mem s x" if "heap_end s \<le> unat x" for x
    using m(4) tag_below [OF ok'(1), of _ x] that ok'(2) by (fastforce simp: tags_only_def)
  moreover have "paging_state (pages s) \<noteq> 0" using ok by (simp add: kheap_ok_def kinv_def kbase_def Let_def)
  then have "kmalloc n s = Some (p, s')" using m(1) by (simp add: kmalloc_def)
  moreover have "heap_mem s' x = heap_mem s x" if "blocks s' T' q = Some k" "in_rng q (unat k) x" for q k x
    using kernel_frame(1) [OF ok'(1) m(4) that] .
  ultimately show ?thesis using m(3) ok' by blast
qed

section \<open>Mounting the image\<close>

text \<open>The image after its superblock is looked up: the size of an inode is set to 128; then the address of the superblock is stored.\<close>

definition image_mem :: "u32 \<Rightarrow> initrd \<Rightarrow> mem" where
  "image_mem addr s = store32 (store16 (fs_mem s) (addr + 1024 + 88) 128) (ext2_initrd s) (addr + 1024)"

text \<open>The image can be read and lies above the heap, with the inode of the root at \<open>inode\<close>, a directory.\<close>

definition above_heap :: "initrd \<Rightarrow> u32 \<Rightarrow> nat \<Rightarrow> bool" where
  "above_heap s a n \<longleftrightarrow> heap_end (fs_heap s) \<le> unat a \<and> unat a + n \<le> 4294967296"

definition root_image :: "u32 \<Rightarrow> u32 \<Rightarrow> initrd \<Rightarrow> bool" where
  "root_image addr inode s \<longleftrightarrow> ext2_superblock_validate (fs_mem s) (addr + 1024) \<noteq> 0 \<and>
     ext2_inode_get (image_mem addr s) EXT2_INODE_ROOT (addr + 1024) = Some inode \<and>
     ext2_inode_typetofile (image_mem addr s) inode = FS_DIRECTORY \<and>
     above_heap s (addr + 1024 + 88) 2 \<and> above_heap s (ext2_initrd s) 4 \<and> above_heap s inode 128"

text \<open>The file of the root: a name and the fields, from the inode.\<close>

definition root_fields :: "initrd_code \<Rightarrow> u32 \<Rightarrow> mem \<Rightarrow> (u32 \<times> u32) list" where
  "root_fields c inode m = [(file_mask, ucast (inode_type (inode_at m inode) AND 0xFFF)), (file_uid, ucast (inode_uid (inode_at m inode))),
     (file_gid, ucast (inode_gid (inode_at m inode))), (file_inode, EXT2_INODE_ROOT), (file_size, inode_bytes (inode_at m inode)),
     (file_read, 0), (file_write, 0), (file_open, 0), (file_close, 0), (file_readdir, initrd_readdir_ptr c),
     (file_finddir, initrd_finddir_ptr c), (file_ptr, 0), (file_impl, 0)]"

lemmas file_offsets = file_mask_def file_uid_def file_gid_def file_flag_def file_inode_def file_size_def file_read_def file_write_def
  file_open_def file_close_def file_readdir_def file_finddir_def file_ptr_def file_impl_def

text \<open>The stores of \<open>initrd_mount\<close> after the allocation.\<close>

definition store_root :: "initrd_code \<Rightarrow> u32 \<Rightarrow> u32 \<Rightarrow> mem \<Rightarrow> mem" where
  "store_root c root inode m = (let
     m = m(root := 47, root + 1 := 0);
     m = store32 m (root + file_mask) (ucast (inode_type (inode_at m inode) AND 0xFFF));
     m = store32 m (root + file_uid) (ucast (inode_uid (inode_at m inode)));
     m = store32 m (root + file_gid) (ucast (inode_gid (inode_at m inode)));
     m = store32 m (root + file_inode) EXT2_INODE_ROOT;
     m = store32 m (root + file_flag) (load32 m (root + file_flag) OR ext2_inode_typetofile m inode);
     m = store32 m (root + file_size) (inode_bytes (inode_at m inode));
     m = store32 m (root + file_read) 0;
     m = store32 m (root + file_write) 0;
     m = store32 m (root + file_open) 0;
     m = store32 m (root + file_close) 0;
     m = store32 m (root + file_readdir) (initrd_readdir_ptr c);
     m = store32 m (root + file_finddir) (initrd_finddir_ptr c);
     m = store32 m (root + file_ptr) 0
     in store32 m (root + file_impl) 0)"

definition with_mem :: "mem \<Rightarrow> initrd \<Rightarrow> initrd" where
  "with_mem m s = s\<lparr>fs_heap := (fs_heap s)\<lparr>heap_mem := m\<rparr>\<rparr>"

lemma put_mem_with: "put_mem f s = with_mem (f (fs_mem s)) s" "with_mem m (with_mem m' s) = with_mem m s" "fs_mem (with_mem m s) = m"
  by (simp_all add: put_mem_def upd_mem_def with_mem_def)

lemma initrd_mount_eq:
  assumes "ext2_superblock_validate (fs_mem s) (addr + 1024) \<noteq> 0" "ext2_inode_get (image_mem addr s) EXT2_INODE_ROOT (addr + 1024) = Some inode"
    and "kmalloc sizeof_file ((fs_heap s)\<lparr>heap_mem := image_mem addr s\<rparr>) = Some (root, h)"
  shows "\<exists>s'. initrd_mount c addr s = Some s' \<and> fs_heap s' = h\<lparr>heap_mem := store_root c root inode (heap_mem h)\<rparr> \<and>
    ext2_initrd s' = ext2_initrd s \<and> initrd_root s' = root"
proof -
  have g: "ext2_superblock_get (fs_mem s) addr = (addr + 1024, store16 (fs_mem s) (addr + 1024 + 88) 128)"
    using assms(1) by (simp add: ext2_superblock_get_def EXT2_SUPERBLOCK_OFFSET_def Let_def)
  define s1 where "s1 = put32 (ext2_initrd s) (addr + 1024) (put_mem (\<lambda>_. store16 (fs_mem s) (addr + 1024 + 88) 128) s)"
  define s2 where "s2 = (if fs_state (superblock_at (fs_mem s1) (superblock_of s1)) = EXT2_STATE_ERROR
       \<and> ext2_error (fs_mem s1) (superblock_of s1) = Log_and_halt
       then s1\<lparr>fs_log := (CRIT, ''Ext2 superblock panic error'') # fs_log s1\<rparr> else s1)"
  have h1: "fs_heap s1 = (fs_heap s)\<lparr>heap_mem := image_mem addr s\<rparr>" "ext2_initrd s1 = ext2_initrd s"
    by (simp_all add: s1_def put32_def image_mem_def put_mem_def upd_mem_def)
  have h2: "fs_heap s2 = (fs_heap s)\<lparr>heap_mem := image_mem addr s\<rparr>" "ext2_initrd s2 = ext2_initrd s"
    using h1 by (simp_all add: s2_def)
  have sb: "superblock_of s2 = addr + 1024" by (simp add: superblock_of_def h2 image_mem_def)
  define s3 where "s3 = (fs_printf ''Mounting File System\<newline>'' [] s2)\<lparr>fs_heap := h, initrd_root := root\<rparr>"
  have k: "fs_kmalloc sizeof_file (fs_printf ''Mounting File System\<newline>'' [] s2) = Some (root, (fs_printf ''Mounting File System\<newline>'' [] s2)\<lparr>fs_heap := h\<rparr>)"
    using assms(3) by (simp add: fs_kmalloc_def fs_printf_def h2)
  have m3: "fs_mem s3 = heap_mem h" by (simp add: s3_def)
  have "initrd_mount c addr s = Some (with_mem (store_root c root inode (heap_mem h)) s3)"
    using assms(2) sb unfolding initrd_mount_def g Let_def prod.case s1_def [symmetric] s2_def [symmetric]
    by (simp add: h2 k s3_def [symmetric] put32_def put_mem_with store_root_def Let_def m3 del: fun_upd_apply)
  then show ?thesis using h2 by (simp add: with_mem_def s3_def fs_printf_def)
qed

lemma inode_keep:
  assumes "\<And>x. in_rng inode 128 x \<Longrightarrow> m' x = m x"
  shows "inode_type (inode_at m' inode) = inode_type (inode_at m inode)" "inode_uid (inode_at m' inode) = inode_uid (inode_at m inode)"
    "inode_gid (inode_at m' inode) = inode_gid (inode_at m inode)" "inode_bytes (inode_at m' inode) = inode_bytes (inode_at m inode)"
    "ext2_inode_typetofile m' inode = ext2_inode_typetofile m inode"
proof -
  have e: "m' x = m x" if "in_rng (inode + k) 4 x" "unat k + 4 \<le> 128" for k x
    using assms in_rng_shift [OF that(1), of 128] that(2) by simp
  have w: "load32 m' (inode + k) = load32 m (inode + k)" "load16 m' (inode + k) = load16 m (inode + k)" if "unat k + 4 \<le> 128" for k
    using that e [of k] by (auto intro!: load32_cong load16_cong simp: in_rng_def)
  show t: "inode_type (inode_at m' inode) = inode_type (inode_at m inode)" and "inode_uid (inode_at m' inode) = inode_uid (inode_at m inode)"
    "inode_gid (inode_at m' inode) = inode_gid (inode_at m inode)" "inode_bytes (inode_at m' inode) = inode_bytes (inode_at m inode)"
    using w(2) [of 0] w(2) [of 2] w(1) [of 4] w(2) [of 24] by (simp_all add: inode_at_def)
  show "ext2_inode_typetofile m' inode = ext2_inode_typetofile m inode" unfolding ext2_inode_typetofile_def t ..
qed

lemma field_in: "unat k + 4 \<le> 184 \<Longrightarrow> in_rng (root + k) 4 x \<Longrightarrow> in_rng root 184 x"
  using in_rng_shift [of root k 4 x 184] by simp

lemma store_root_outside: "\<not> in_rng root 184 x \<Longrightarrow> store_root c root inode m x = m x"
proof -
  assume x: "\<not> in_rng root 184 x"
  then have "x \<noteq> root" "x \<noteq> root + 1" using in_rng_offset [of 1 184 root] by auto
  moreover have "\<not> in_rng (root + k) 4 x" if "unat k + 4 \<le> 184" for k using field_in [OF that] x by blast
  ultimately show ?thesis by (simp add: store_root_def Let_def store32_outside file_offsets)
qed

lemma store_root_fields:
  assumes d: "disj root 184 inode 128"
  shows "\<forall>(k, v) \<in> set (root_fields c inode m). load32 (store_root c root inode m) (root + k) = v"
    "load32 (store_root c root inode m) (root + file_flag) = load32 m (root + file_flag) OR ext2_inode_typetofile m inode"
    "store_root c root inode m root = 47" "store_root c root inode m (root + 1) = 0"
proof -
  have x: "in_rng inode 128 x \<Longrightarrow> \<not> in_rng root 184 x" for x using disjD [OF disj_sym [OF d]] .
  have "(m(root := 47, root + 1 := 0)) x = m x" if "in_rng inode 128 x" for x
    using x [OF that] in_rng_offset [of 1 184 root] by auto
  note b = inode_keep [of inode "m(root := 47, root + 1 := 0)" m, OF this]
  have "store32 m' (root + k) v x = m' x" if "unat k + 4 \<le> 184" "in_rng inode 128 x" for m' k v x
    using x [OF that(2)] field_in [OF that(1)] store32_outside by blast
  note s = inode_keep [of inode "store32 m' (root + k) v" m' for m' k v, OF this]
  have f: "load32 (m(root := 47, root + 1 := 0)) (root + file_flag) = load32 m (root + file_flag)"
    by (rule load32_cong) (auto simp: in_rng_def file_flag_def)
  note st = store_root_def Let_def b s f load32_store32_disj disj_def file_offsets
  show "\<forall>(k, v) \<in> set (root_fields c inode m). load32 (store_root c root inode m) (root + k) = v"
    unfolding root_fields_def by (simp add: st del: fun_upd_apply)
  show "load32 (store_root c root inode m) (root + file_flag) = load32 m (root + file_flag) OR ext2_inode_typetofile m inode"
    using f by (simp add: st del: fun_upd_apply)
  show "store_root c root inode m root = 47" "store_root c root inode m (root + 1) = 0"
    by (simp_all add: store_root_def Let_def store32_outside in_rng_def file_offsets)
qed

lemmas kernel_write_ok = kernel.write_ok [unfolded kheap_ok_eq]

text \<open>A word that is combined with the type of a directory has this type if its bits 0 and 2 are clear.\<close>

lemma directory_flag: "(old OR FS_DIRECTORY) AND 0x7 = FS_DIRECTORY \<longleftrightarrow> old AND 5 = 0" for old :: u32
proof -
  have "old AND 7 = (old AND 5) OR (old AND 2)" unfolding bit.conj_disj_distrib [symmetric] by simp
  then have e: "(old OR 2) AND 7 = (old AND 5) OR 2" by (simp add: bit.conj_disj_distrib2 or.assoc)
  have "old AND 5 = ((old AND 5) OR 2) AND 5" by (simp add: bit.conj_disj_distrib2 and.assoc)
  then show ?thesis unfolding FS_DIRECTORY_def e by auto
qed


section \<open>A sample mount\<close>

text \<open>The image of the theory \<open>Ext2\<close> from \<open>0x20000\<close> on, the pointer to its superblock at \<open>0x48000\<close>, and a fresh allocator.\<close>

definition mount_disk :: "(u32 \<times> u32) list" where "mount_disk = [(0x38000, 0x20400), (0x10438, 0xEF53)] @ sample_image"

definition sample_mount :: initrd where
  "sample_mount = \<lparr>fs_heap = sample_fresh\<lparr>heap_mem := (\<lambda>x. words mount_disk (x - 0x10000))\<rparr>, ext2_initrd = 0x48000, initrd_root = 0, fs_log = [],
     fs_printed = []\<rparr>"

lemma sample_mount_load: "aligned (a - 0x10000) \<Longrightarrow>
  load32 (fs_mem sample_mount) a = (case map_of mount_disk (a - 0x10000) of Some v \<Rightarrow> v | None \<Rightarrow> 0)"
proof -
  have "load32 (fs_mem sample_mount) a = load32 (words mount_disk) (a - 0x10000)" by (simp add: sample_mount_def load32_def algebra_simps)
  then show "aligned (a - 0x10000) \<Longrightarrow> load32 (fs_mem sample_mount) a = (case map_of mount_disk (a - 0x10000) of Some v \<Rightarrow> v | None \<Rightarrow> 0)"
    by (simp only:) (rule load32_words, simp_all add: mount_disk_def sample_image_def aligned_def)
qed

lemma sample_mount_words:
  defines "m \<equiv> fs_mem sample_mount"
  shows "load32 m 0x20400 = 16" "load32 m 0x20404 = 64" "load32 m 0x20418 = 0" "load32 m 0x20420 = 64" "load32 m 0x20428 = 16"
    "load32 m 0x20458 = 128" "load32 m 0x20808 = 5" "load32 m 0x21480 = 0x41ED" "load32 m 0x48000 = 0x20400" "load32 m 0x20438 = 0xEF53"
  unfolding m_def by (simp_all add: sample_mount_load aligned_def) (simp_all add: mount_disk_def sample_image_def)

lemma sample_mount_image: "image_mem 0x20000 sample_mount = fs_mem sample_mount" "root_image 0x20000 0x21480 sample_mount"
proof -
  let ?m = "fs_mem sample_mount"
  have "load16 ?m 0x20458 = 128" by (simp add: load16_low sample_mount_words)
  then have "store16 ?m 0x20458 128 = ?m" using store16_same [of ?m "0x20458"] by simp
  moreover have "store32 ?m 0x48000 0x20400 = ?m" using store32_same [of ?m "0x48000"] by (simp add: sample_mount_words)
  ultimately show i: "image_mem 0x20000 sample_mount = ?m" by (simp add: image_mem_def) (simp add: sample_mount_def)
  have b: "EXT2_BLOCKSIZE_GET ?m 0x20400 = 1024" by (simp add: EXT2_BLOCKSIZE_GET_def superblock_at_def sample_mount_words)
  have "ext2_inode_get ?m 2 0x20400 = Some 0x21480"
    by (simp add: ext2_inode_get_def Let_def superblock_at_def load16_low sample_mount_words b ext2_bg_des_get_def ext2_blockgroup_get_def
      bg_des_at_def EXT2_SUPERBLOCK_OFFSET_def word_less_nat_alt)
  moreover have "ext2_superblock_validate ?m 0x20400 \<noteq> 0"
    by (simp add: ext2_superblock_validate_def superblock_at_def load16_low sample_mount_words EXT2_MAGIC_def)
  moreover have "ext2_inode_typetofile ?m 0x21480 = FS_DIRECTORY"
    by (simp add: ext2_inode_typetofile_def inode_at_def load16_low sample_mount_words)
  moreover have "heap_end (fs_heap sample_mount) = 0x11000"
    by (simp add: heap_end_def sample_mount_def sample_fresh_def sample_kernel_fields)
  ultimately show "root_image 0x20000 0x21480 sample_mount"
    unfolding root_image_def i above_heap_def by (simp add: EXT2_INODE_ROOT_def) (simp add: sample_mount_def)
qed


end
