(* ===== verification/Klog.thy ===== *)
theory Klog
  imports Printf Rtc
begin

text \<open>
  The kernel log, \<open>kernel/kernel/ui/log.c\<close>: the number printers, \<open>vasprintf\<close>, which expands a format into a
  buffer in memory, and \<open>log_print\<close>, which prefixes the message with the time and prints it.  Every printer
  is shown to be a \<open>write_bytes\<close> of a text; \<open>vprints\<close> says what a format prints.
\<close>

section \<open>Numbers\<close>

partial_function (option) dec_width :: "u32 \<Rightarrow> u32 \<Rightarrow> u32 \<Rightarrow> u32 option" where
  "dec_width v n_width i = (if i < v \<and> i < 0xFFFFFFFF then dec_width v (n_width + 1) (i * 10 + 9) else Some n_width)"

function pad_dec :: "u32 \<Rightarrow> u32 \<Rightarrow> u32 \<Rightarrow> mem \<Rightarrow> u32 \<Rightarrow> u32 \<Rightarrow> mem \<times> u32" where
  "pad_dec n_width printed width m buf ptr =
     (if n_width + printed < width then pad_dec n_width (printed + 1) width (m(buf + ptr := 48)) buf (ptr + 1)
      else (m, ptr))"
  by auto
termination
  by (relation "measure (\<lambda>(n, p, w, _). unat w - unat (n + p))") (auto simp: loop_up_dec add.assoc [symmetric])

function dec_digits :: "u32 \<Rightarrow> u32 \<Rightarrow> mem \<Rightarrow> u32 \<Rightarrow> u32 \<Rightarrow> mem" where
  "dec_digits v i m buf ptr =
     (if 0 < i then dec_digits (v div 10) (i - 1) (m(buf + (ptr + i - 1) := ucast (v mod 10) + 48)) buf ptr else m)"
  by auto
termination by (relation "measure (\<lambda>(v, i, _). unat i)") (auto simp: loop_down_dec word_gt_0)

definition print_dec :: "u32 \<Rightarrow> u32 \<Rightarrow> mem \<Rightarrow> u32 \<Rightarrow> u32 \<Rightarrow> (mem \<times> u32) option" where
  "print_dec v width m buf ptr = do {
     n_width \<leftarrow> dec_width v 1 9;
     let (m, ptr) = pad_dec n_width 0 width m buf ptr;
     let m = dec_digits v n_width m buf ptr;
     Some (m, ptr + n_width)
   }"

partial_function (option) hex_width :: "u32 \<Rightarrow> u32 \<Rightarrow> u32 \<Rightarrow> u32 option" where
  "hex_width v n_width j = (if j < v \<and> j < 0xFFFFFFFF then hex_width v (n_width + 1) (j * 0x10 + 0x0F) else Some n_width)"

text \<open>\<open>i\<close> and \<open>(int)n_width\<close> are signed.\<close>

function pad_hex :: "int \<Rightarrow> int \<Rightarrow> mem \<Rightarrow> u32 \<Rightarrow> u32 \<Rightarrow> mem \<times> u32" where
  "pad_hex i n_width m buf ptr =
     (if n_width < i then pad_hex (i - 1) n_width (m(buf + ptr := 48)) buf (ptr + 1) else (m, ptr))"
  by auto
termination by (relation "measure (\<lambda>(i, n, _). nat (i - n))") auto

fun hex_digits :: "u32 \<Rightarrow> nat \<Rightarrow> mem \<Rightarrow> u32 \<Rightarrow> u32 \<Rightarrow> mem \<times> u32" where
  "hex_digits v 0 m buf ptr = (m, ptr)"
| "hex_digits v (Suc i) m buf ptr =
     hex_digits v i (m(buf + ptr := lower_digits ! unat (drop_bit (i * 4) v AND 0xF))) buf (ptr + 1)"

definition print_hex :: "u32 \<Rightarrow> u32 \<Rightarrow> mem \<Rightarrow> u32 \<Rightarrow> u32 \<Rightarrow> (mem \<times> u32) option" where
  "print_hex v width m buf ptr = do {
     let i = (if sint width = 0 then 8 else sint width);
     n_width \<leftarrow> hex_width v 1 0x0F;
     let (m, ptr) = pad_hex i (sint n_width) m buf ptr;
     Some (hex_digits v (nat (sint n_width)) m buf ptr)
   }"

section \<open>Formatting into a buffer\<close>

partial_function (option) arg_width_loop :: "mem \<Rightarrow> u32 \<Rightarrow> u32 \<Rightarrow> u32 \<Rightarrow> (u32 \<times> u32) option" where
  "arg_width_loop m fmt i arg_width =
     (if 48 \<le> m (fmt + i) \<and> m (fmt + i) \<le> 57
      then arg_width_loop m fmt (i + 1) (arg_width * 10 + (ucast (m (fmt + i)) - 48))
      else Some (i, arg_width))"

partial_function (option) copy_string :: "mem \<Rightarrow> u32 \<Rightarrow> u32 \<Rightarrow> u32 \<Rightarrow> (mem \<times> u32) option" where
  "copy_string m buf ptr s =
     (if m s \<noteq> 0 then copy_string (m(buf + ptr := m s)) buf (ptr + 1) (s + 1) else Some (m, ptr))"

text \<open>The switch on the conversion; \<open>null\<close> is where the literal \<open>"(null)"\<close> lies.\<close>

definition vasprintf_conv :: "u32 \<Rightarrow> mem \<Rightarrow> u32 \<Rightarrow> u8 \<Rightarrow> u32 \<Rightarrow> u32 list \<Rightarrow> u32 \<Rightarrow> (mem \<times> u32 list \<times> u32) option" where
  "vasprintf_conv null m buf c arg_width args ptr =
     (if c = 115 then do {
        (s, args) \<leftarrow> va_word args;
        (m, ptr) \<leftarrow> copy_string m buf ptr (if s = 0 then null else s);
        Some (m, args, ptr)
      }
      else if c = 99 then do { (w, args) \<leftarrow> va_word args; Some (m(buf + ptr := ucast w), args, ptr + 1) }
      else if c = 120 then do {
        (w, args) \<leftarrow> va_word args;
        (m, ptr) \<leftarrow> print_hex w arg_width m buf ptr;
        Some (m, args, ptr)
      }
      else if c = 100 then do {
        (w, args) \<leftarrow> va_word args;
        (m, ptr) \<leftarrow> print_dec w arg_width m buf ptr;
        Some (m, args, ptr)
      }
      else if c = 37 then Some (m(buf + ptr := 37), args, ptr + 1)
      else Some (m(buf + ptr := c), args, ptr + 1))"

definition vasprintf_turn :: "u32 \<Rightarrow> mem \<Rightarrow> u32 \<Rightarrow> u32 \<Rightarrow> u32 list \<Rightarrow> u32 \<Rightarrow> u32 \<Rightarrow> (mem \<times> u32 list \<times> u32 \<times> u32) option" where
  "vasprintf_turn null m buf fmt args i ptr =
     (if m (fmt + i) \<noteq> 37 then Some (m(buf + ptr := m (fmt + i)), args, i, ptr + 1)
      else do {
        (i, arg_width) \<leftarrow> arg_width_loop m fmt (i + 1) 0;
        (m, args, ptr) \<leftarrow> vasprintf_conv null m buf (m (fmt + i)) arg_width args ptr;
        Some (m, args, i, ptr)
      })"

partial_function (option) vasprintf_loop :: "u32 \<Rightarrow> mem \<Rightarrow> u32 \<Rightarrow> u32 \<Rightarrow> u32 list \<Rightarrow> u32 \<Rightarrow> u32 \<Rightarrow> u32 \<Rightarrow> (mem \<times> u32) option" where
  "vasprintf_loop null m buf fmt args len i ptr =
     (if sint i < sint len \<and> m (fmt + i) \<noteq> 0
      then do {
        (m, args, i, ptr) \<leftarrow> vasprintf_turn null m buf fmt args i ptr;
        vasprintf_loop null m buf fmt args len (i + 1) ptr
      }
      else Some (m(buf + ptr := 0), ptr))"

definition vasprintf :: "u32 \<Rightarrow> mem \<Rightarrow> u32 \<Rightarrow> u32 \<Rightarrow> u32 list \<Rightarrow> (mem \<times> u32) option" where
  "vasprintf null m buf fmt args = do { len \<leftarrow> strlen m fmt; vasprintf_loop null m buf fmt args len 0 0 }"

text \<open>
  The addresses of the literals of \<open>log_print\<close> and of its buffer.  The arguments of the last \<open>printf\<close> are
  evaluated from the right, as the compiler pushes them.
\<close>

record log_literals =
  lit_null :: u32
  lit_open :: u32
  lit_ok :: u32
  lit_close :: u32
  lit_notice :: u32
  lit_message :: u32
  log_buffer :: u32

definition log_line :: "u8 \<Rightarrow> u8 \<Rightarrow> u32 \<Rightarrow> u32 \<Rightarrow> u32 \<Rightarrow> rtc \<Rightarrow> terminal \<Rightarrow> (rtc \<times> terminal) option" where
  "log_line rb0 c0 fmt format buffer r t = do {
     (s, r, b) \<leftarrow> time_get rb0 c0 0 r (tbus t);
     (mi, r, b) \<leftarrow> time_get rb0 c0 1 r b;
     (h, r, b) \<leftarrow> time_get rb0 c0 2 r b;
     (_, t) \<leftarrow> kprintf fmt [h, mi, s, format, buffer] (t\<lparr>tbus := b\<rparr>);
     Some (r, t)
   }"

definition log_print :: "log_literals \<Rightarrow> u8 \<Rightarrow> u8 \<Rightarrow> u32 \<Rightarrow> u32 \<Rightarrow> u32 list \<Rightarrow> rtc \<Rightarrow> terminal \<Rightarrow> (rtc \<times> terminal) option" where
  "log_print l rb0 c0 status format args r t = do {
     (m, _) \<leftarrow> vasprintf (lit_null l) (tmem t) (log_buffer l) format args;
     let t = t\<lparr>tmem := m\<rparr>;
     if status = 0 then do {
       (_, t) \<leftarrow> kprintf (lit_open l) [] t;
       (_, t) \<leftarrow> kprintf (lit_ok l) [] (terminal_setcolor (make_color COLOR_GREEN COLOR_BLACK) t);
       (_, t) \<leftarrow> kprintf (lit_close l) [] (terminal_setcolor (make_color COLOR_LIGHT_GREY COLOR_BLACK) t);
       log_line rb0 c0 (lit_notice l) format (log_buffer l) r t
     }
     else log_line rb0 c0 (lit_message l) format (log_buffer l) r t
   }"

declare dec_width.simps [code] hex_width.simps [code] arg_width_loop.simps [code] copy_string.simps [code]
  vasprintf_loop.simps [code]
declare pad_dec.simps [simp del] dec_digits.simps [simp del] pad_hex.simps [simp del]

section \<open>Bytes written in a row\<close>

fun write_bytes :: "mem \<Rightarrow> u32 \<Rightarrow> u8 list \<Rightarrow> mem" where
  "write_bytes m a [] = m"
| "write_bytes m a (b # bs) = write_bytes (m(a := b)) (a + 1) bs"

lemma write_bytes_append: "write_bytes m a (bs @ cs) = write_bytes (write_bytes m a bs) (a + of_nat (length bs)) cs"
  by (induction bs arbitrary: m a) (simp_all add: ac_simps)

lemma write_bytes_outside: "\<not> in_rng a (length bs) x \<Longrightarrow> write_bytes m a bs x = m x"
proof (induction bs arbitrary: m a)
  case (Cons b bs)
  have "x \<noteq> a" using Cons.prems by auto
  moreover have "\<not> in_rng (a + 1) (length bs) x"
  proof
    assume "in_rng (a + 1) (length bs) x"
    moreover have "unat (x - a) \<le> unat (x - (a + 1)) + 1"
      using unat_Suc_max [of "x - (a + 1)"] by (cases "x - (a + 1) = - 1") (auto simp: algebra_simps)
    ultimately show False using Cons.prems by (simp add: in_rng_def)
  qed
  ultimately show ?case using Cons.IH by simp
qed simp

lemma write_bytes_upd:
  "length bs \<le> n \<Longrightarrow> n < 4294967296 \<Longrightarrow>
   write_bytes (m(a + of_nat n := d)) a bs = (write_bytes m a bs)(a + of_nat n := d)"
proof (induction bs arbitrary: m a n)
  case (Cons b bs)
  obtain k where n: "n = Suc k" using Cons.prems(1) by (cases n) auto
  have "(of_nat n :: u32) \<noteq> 0" using of_nat_Suc_u32 [of k] Cons.prems(2) n by simp
  then have "(m(a + of_nat n := d))(a := b) = (m(a := b))(a + 1 + of_nat k := d)"
    using n by (auto simp: fun_eq_iff ac_simps)
  then show ?case using Cons.IH [of k "m(a := b)" "a + 1"] Cons.prems n by (simp add: ac_simps del: fun_upd_apply)
qed simp

text \<open>The last \<open>n\<close> decimal digits.\<close>

fun decimals :: "nat \<Rightarrow> nat \<Rightarrow> u8 list" where
  "decimals 0 v = []"
| "decimals (Suc n) v = decimals n (v div 10) @ [of_nat (v mod 10) + 48]"

lemma length_decimals [simp]: "length (decimals n v) = n"
  by (induction n arbitrary: v) auto

lemma decimals_add: "decimals (a + b) v = decimals a (v div 10 ^ b) @ decimals b v"
  by (induction b arbitrary: v) (simp_all add: div_mult2_eq)

lemma decimals_zero: "decimals n 0 = replicate n 48"
  by (induction n) (simp_all add: replicate_append_same)

lemma decimals_radix: "decimals (length (radix 10 v)) v = map (\<lambda>d. of_nat d + 48) (radix 10 v)"
proof (induction "10 :: nat" v rule: radix.induct)
  case (1 v)
  then show ?case by (cases "v < 10") (simp_all add: radix.simps [of 10 v])
qed

lemma dec_digits_write:
  "n < 4294967296 \<Longrightarrow> dec_digits v (of_nat n) m buf ptr = write_bytes m (buf + ptr) (decimals n (unat v))"
proof (induction n arbitrary: v m)
  case 0
  then show ?case by (simp add: dec_digits.simps)
next
  case (Suc n)
  have "0 < (of_nat (Suc n) :: u32)" using of_nat_Suc_u32 [OF Suc.prems] by (simp only: word_gt_0)
  moreover have "(of_nat (unat (v mod 10)) :: u8) = ucast (v mod 10)" by simp
  then have "ucast (v mod 10) = (of_nat (unat v mod 10) :: u8)" by (simp add: unat_mod)
  moreover have "unat (v div 10) = unat v div 10" by (simp add: unat_div)
  ultimately show ?case using Suc write_bytes_upd [of "decimals n (unat v div 10)" n m "buf + ptr"]
    by (subst dec_digits.simps) (simp add: write_bytes_append ac_simps del: fun_upd_apply)
qed

lemma pad_dec_write:
  "unat (n + printed) + k = unat width \<or> k = 0 \<and> unat width \<le> unat (n + printed) \<Longrightarrow>
   pad_dec n printed width m buf ptr = (write_bytes m (buf + ptr) (replicate k 48), ptr + of_nat k)"
proof (induction k arbitrary: printed m ptr)
  case 0
  then show ?case by (subst pad_dec.simps) (auto simp: word_less_nat_alt)
next
  case (Suc k)
  then have lt: "n + printed < width" by (auto simp: word_less_nat_alt)
  then have "unat (n + (printed + 1)) = Suc (unat (n + printed))"
    using unat_Suc_u32 by (simp add: add.assoc [symmetric])
  then show ?case using Suc lt by (simp add: pad_dec.simps [of n printed width m buf ptr] ac_simps del: fun_upd_apply)
qed

lemma radix_less: "2 \<le> b \<Longrightarrow> n < b ^ length (radix b n)"
proof (induction b n rule: radix.induct)
  case (1 b n)
  then show ?case
  proof (cases "n < b")
    case False
    then have "n div b < b ^ length (radix b (n div b))" using 1 by simp
    then have "n < b ^ length (radix b (n div b)) * b" using "1.prems" by (simp add: div_less_iff_less_mult)
    then show ?thesis using False "1.prems" by (subst radix.simps) (simp add: mult.commute)
  qed (simp add: radix.simps)
qed

lemma radix_length_le: "2 \<le> b \<Longrightarrow> 0 < k \<Longrightarrow> length (radix b n) \<le> k \<longleftrightarrow> n < b ^ k"
  using radix_length [of b n "k - 1"] radix_less [of b n] power_increasing [of "length (radix b n)" k b]
  by (auto intro: less_le_trans)

lemma dec_width_radix:
  assumes "unat v \<le> 1410065407" "1 \<le> k" "k \<le> 9" "k \<le> length (radix 10 (unat v))"
  shows "dec_width v (of_nat k) (of_nat (10 ^ k - 1)) = Some (of_nat (length (radix 10 (unat v))))"
  using assms(2-)
proof (induction "9 - k" arbitrary: k)
  case 0
  then have k: "k = 9" by simp
  let ?l = "length (radix 10 (unat v))"
  have l: "?l \<le> 10" "?l \<le> 9 \<longleftrightarrow> unat v < 1000000000" using radix_length_le [of 10 10 "unat v"] radix_length_le [of 10 9 "unat v"] assms(1) by auto
  have step: "dec_width v 10 1410065407 = Some 10"
    using assms(1) by (subst dec_width.simps) (simp add: word_less_nat_alt)
  show ?case
  proof (cases "unat v < 1000000000")
    case True
    then show ?thesis using k l 0 by (subst dec_width.simps) (simp add: word_less_nat_alt)
  next
    case False
    then have "?l = 10" using l by simp
    moreover have e: "(9999999999 :: u32) = 1410065407" by simp
    have "dec_width v 10 9999999999 = Some 10" unfolding e by (rule step)
    ultimately show ?thesis using k step False by (subst dec_width.simps) (simp add: word_less_nat_alt)
  qed
next
  case (Suc n)
  have k: "k < 9" using Suc.hyps(2) by simp
  have "(10 :: nat) ^ k \<le> 10 ^ 9" using k by (intro power_increasing) auto
  then have u: "unat (of_nat (10 ^ k - 1) :: u32) = 10 ^ k - 1" by (intro unat_of_nat_u32) simp
  have l: "length (radix 10 (unat v)) \<le> k \<longleftrightarrow> unat v < 10 ^ k" using Suc.prems by (intro radix_length_le) auto
  show ?case
  proof (cases "unat v < 10 ^ k")
    case True
    then have "\<not> unat (of_nat (10 ^ k - 1) :: u32) < unat v" unfolding u by linarith
    then show ?thesis using l Suc.prems True
      by (subst dec_width.simps) (simp add: word_less_nat_alt del: of_nat_diff of_nat_power)
  next
    case False
    have e: "(10 ^ k - 1) * 10 + 9 = (10 ^ Suc k - 1 :: nat)" by (simp add: algebra_simps)
    have "of_nat (10 ^ k - 1) * 10 + 9 = (of_nat (10 ^ Suc k - 1) :: u32)"
      using arg_cong [OF e, of "of_nat :: nat \<Rightarrow> u32"] by (simp del: power_Suc of_nat_diff of_nat_power)
    moreover have "(of_nat (10 ^ k - 1) :: u32) < v" "(of_nat (10 ^ k - 1) :: u32) < 0xFFFFFFFF"
    proof -
      have "unat (0xFFFFFFFF :: u32) = 4294967295" by simp
      moreover have "(10 :: nat) ^ k \<ge> 1" by simp
      moreover have "(10 :: nat) ^ k < 4294967295" using \<open>(10 :: nat) ^ k \<le> 10 ^ 9\<close> by simp
      ultimately show "(of_nat (10 ^ k - 1) :: u32) < v" "(of_nat (10 ^ k - 1) :: u32) < 0xFFFFFFFF"
        using False unfolding word_less_nat_alt u by linarith+
    qed
    ultimately show ?thesis using Suc.hyps(1) [of "Suc k"] Suc.hyps(2) Suc.prems k l False
      by (subst dec_width.simps) (simp add: add.commute del: power_Suc of_nat_diff of_nat_power)
  qed
qed


lemma hex_width_radix:
  assumes "1 \<le> k" "k \<le> 8" "k \<le> length (radix 16 (unat v))"
  shows "hex_width v (of_nat k) (of_nat (16 ^ k - 1)) = Some (of_nat (length (radix 16 (unat v))))"
  using assms
proof (induction "8 - k" arbitrary: k)
  case 0
  then have k: "k = 8" by simp
  have "length (radix 16 (unat v)) \<le> 8" using radix_length_le [of 16 8 "unat v"] unat_u32_lt [of v] by simp
  then show ?case using 0 k by (subst hex_width.simps) simp
next
  case (Suc n)
  have k: "k < 8" using Suc.hyps(2) by simp
  have p: "(16 :: nat) ^ k \<le> 16 ^ 7" using k by (intro power_increasing) auto
  then have u: "unat (of_nat (16 ^ k - 1) :: u32) = 16 ^ k - 1" by (intro unat_of_nat_u32) simp
  have l: "length (radix 16 (unat v)) \<le> k \<longleftrightarrow> unat v < 16 ^ k" using Suc.prems by (intro radix_length_le) auto
  show ?case
  proof (cases "unat v < 16 ^ k")
    case True
    then have "\<not> unat (of_nat (16 ^ k - 1) :: u32) < unat v" unfolding u by linarith
    then show ?thesis using l Suc.prems True
      by (subst hex_width.simps) (simp add: word_less_nat_alt del: of_nat_diff of_nat_power)
  next
    case False
    have e: "(16 ^ k - 1) * 16 + 15 = (16 ^ Suc k - 1 :: nat)" by (simp add: algebra_simps)
    have "of_nat (16 ^ k - 1) * 16 + 15 = (of_nat (16 ^ Suc k - 1) :: u32)"
      using arg_cong [OF e, of "of_nat :: nat \<Rightarrow> u32"] by (simp del: power_Suc of_nat_diff of_nat_power)
    moreover have "(of_nat (16 ^ k - 1) :: u32) < v" "(of_nat (16 ^ k - 1) :: u32) < 0xFFFFFFFF"
    proof -
      have "unat (0xFFFFFFFF :: u32) = 4294967295" by simp
      moreover have "(16 :: nat) ^ k \<ge> 1" by simp
      moreover have "(16 :: nat) ^ k < 4294967295" using p by simp
      ultimately show "(of_nat (16 ^ k - 1) :: u32) < v" "(of_nat (16 ^ k - 1) :: u32) < 0xFFFFFFFF"
        using False unfolding word_less_nat_alt u by linarith+
    qed
    ultimately show ?thesis using Suc.hyps(1) [of "Suc k"] Suc.hyps(2) Suc.prems k l False
      by (subst hex_width.simps) (simp add: add.commute del: power_Suc of_nat_diff of_nat_power)
  qed
qed

lemma pad_hex_write:
  "pad_hex i n m buf ptr = (write_bytes m (buf + ptr) (replicate (nat (i - n)) 48), ptr + of_nat (nat (i - n)))"
proof (induction "nat (i - n)" arbitrary: i m ptr)
  case 0
  then show ?case by (simp add: pad_hex.simps)
next
  case (Suc k)
  then have "nat (i - n) = Suc (nat (i - 1 - n))" "k = nat (i - 1 - n)" "n < i" by auto
  then show ?case using Suc.hyps(1) [of "i - 1"]
    by (simp add: pad_hex.simps [of i n m buf ptr] ac_simps del: fun_upd_apply)
qed

lemma hex_digits_write:
  "hex_digits v n m buf ptr =
     (write_bytes m (buf + ptr) (map (\<lambda>i. lower_digits ! (unat v div 16 ^ i mod 16)) (rev [0..<n])), ptr + of_nat n)"
proof (induction n arbitrary: m ptr)
  case (Suc n)
  have "unat (drop_bit (n * 4) v AND 0xF) = unat v div 16 ^ n mod 16"
  proof -
    have "drop_bit (n * 4) v AND 0xF = take_bit 4 (drop_bit (n * 4) v)" by (simp add: take_bit_eq_mask mask_eq_exp_minus_1)
    then have "unat (drop_bit (n * 4) v AND 0xF) = take_bit 4 (drop_bit (n * 4) (unat v))"
      using unat_u32_lt [of v] by (simp add: unsigned_take_bit_eq unsigned_drop_bit_eq take_bit_nat_eq_self)
    then show ?thesis by (simp add: take_bit_eq_mod drop_bit_eq_div power_mult mult.commute [of n])
  qed
  then show ?case using Suc by (simp add: ac_simps del: fun_upd_apply)
qed simp

lemma radix_map: "2 \<le> b \<Longrightarrow> radix b n = map (\<lambda>i. n div b ^ i mod b) (rev [0..<length (radix b n)])"
proof (induction b n rule: radix.induct)
  case (1 b n)
  show ?case
  proof (cases "n < b")
    case False
    let ?l = "length (radix b (n div b))"
    have "rev [0..<Suc ?l] = map Suc (rev [0..<?l]) @ [0]" 
      by (simp add: upt_conv_Cons rev_map [symmetric] map_Suc_upt del: upt_Suc)
    moreover have "radix b n = radix b (n div b) @ [n mod b]" using False 1 by (subst radix.simps) simp
    moreover have ih: "radix b (n div b) = map (\<lambda>i. n div b div b ^ i mod b) (rev [0..<?l])" using 1 False by simp
    have "map (\<lambda>i. n div b ^ i mod b) (map Suc (rev [0..<?l])) = map (\<lambda>i. n div b div b ^ i mod b) (rev [0..<?l])"
      by (simp add: comp_def div_mult2_eq)
    then have "map (\<lambda>i. n div b ^ i mod b) (map Suc (rev [0..<?l])) = radix b (n div b)" using ih by (rule trans [OF _ sym])
    ultimately show ?thesis by (simp del: upt_Suc map_map)
  qed (simp add: radix.simps)
qed

definition pad_text :: "nat \<Rightarrow> u8 list \<Rightarrow> u8 list" where
  "pad_text w s = replicate (w - length s) 48 @ s"

lemma print_dec_write:
  assumes "unat v \<le> 1410065407"
  shows "print_dec v width m buf ptr = (let s = pad_text (unat width) (map (\<lambda>d. of_nat d + 48) (radix 10 (unat v))) in
    Some (write_bytes m (buf + ptr) s, ptr + of_nat (length s)))"
proof -
  let ?l = "length (radix 10 (unat v))"
  have w: "dec_width v 1 9 = Some (of_nat ?l)" using dec_width_radix [of v 1] assms radix_nonempty [of 10 "unat v"] by simp
  have l: "?l \<le> 10" using radix_length_le [of 10 10 "unat v"] assms by simp
  have u: "unat (of_nat ?l :: u32) = ?l" using l by (simp add: unat_of_nat)
  have "pad_dec (of_nat ?l) 0 width m buf ptr =
      (write_bytes m (buf + ptr) (replicate (unat width - ?l) 48), ptr + of_nat (unat width - ?l))"
    using u by (intro pad_dec_write) auto
  then show ?thesis
    using u l w by (simp add: print_dec_def dec_digits_write decimals_radix pad_text_def Let_def write_bytes_append ac_simps)
qed

lemma print_hex_write:
  assumes "unat width < 2147483648"
  shows "print_hex v width m buf ptr = (let s = pad_text (if width = 0 then 8 else unat width) (map (\<lambda>d. lower_digits ! d) (radix 16 (unat v))) in
    Some (write_bytes m (buf + ptr) s, ptr + of_nat (length s)))"
proof -
  let ?l = "length (radix 16 (unat v))"
  have w: "hex_width v 1 15 = Some (of_nat ?l)" using hex_width_radix [of 1 v] radix_nonempty [of 16 "unat v"] by simp
  have l: "?l \<le> 8" using radix_length_le [of 16 8 "unat v"] unat_u32_lt [of v] by simp
  have u: "sint (of_nat ?l :: u32) = int ?l" using sint_small [of "of_nat ?l"] l by (simp add: unat_of_nat)
  have s: "sint width = int (unat width)" using sint_small [OF assms] .
  have "nat (int a - int b) = a - b" for a b by arith
  from this [of "unat width" ?l] this [of 8 ?l]
  have pad: "nat (sint width - int ?l) = unat width - ?l" "nat (8 - int ?l) = 8 - ?l" using s by simp_all
  have z: "sint width = 0 \<longleftrightarrow> width = 0" by (metis s of_nat_eq_0_iff unat_eq_0)
  have "map (\<lambda>d. lower_digits ! d) (radix 16 (unat v)) = map (\<lambda>i. lower_digits ! (unat v div 16 ^ i mod 16)) (rev [0..<?l])"
    using arg_cong [OF radix_map [of 16 "unat v"], of "map (\<lambda>d. lower_digits ! d)"] by (simp add: comp_def)
  then show ?thesis
    using u l w pad z
    by (simp add: print_hex_def pad_hex_write hex_digits_write pad_text_def Let_def write_bytes_append ac_simps)
qed

section \<open>What a format prints\<close>

datatype vpiece = VLit u8 | VConv "u8 list" u8

fun vbytes :: "vpiece \<Rightarrow> u8 list" where
  "vbytes (VLit c) = [c]"
| "vbytes (VConv w c) = 37 # w @ [c]"

definition vformat :: "vpiece list \<Rightarrow> u8 list" where
  "vformat ps = concat (map vbytes ps)"

definition field_width :: "u8 list \<Rightarrow> u32" where
  "field_width w = foldl (\<lambda>a c. a * 10 + (ucast c - 48)) 0 w"

definition width_ok :: "u8 list \<Rightarrow> bool" where
  "width_ok w \<longleftrightarrow> (\<forall>c \<in> set w. 48 \<le> c \<and> c \<le> 57)"

text \<open>\<open>outside R p n\<close>: none of the \<open>n\<close> bytes from \<open>p\<close> is in \<open>R\<close>.\<close>

definition outside :: "(u32 \<Rightarrow> bool) \<Rightarrow> u32 \<Rightarrow> nat \<Rightarrow> bool" where
  "outside R p n \<longleftrightarrow> (\<forall>i < n. \<not> R (p + of_nat i))"

text \<open>
  \<open>vprints null m R ps args out\<close>: with these arguments, whose strings lie in \<open>m\<close> outside \<open>R\<close>, the pieces
  print \<open>out\<close>.
\<close>

inductive vprints :: "u32 \<Rightarrow> mem \<Rightarrow> (u32 \<Rightarrow> bool) \<Rightarrow> vpiece list \<Rightarrow> u32 list \<Rightarrow> u8 list \<Rightarrow> bool" for null m R where
  vnil: "vprints null m R [] args []"
| vlit: "c \<noteq> 37 \<Longrightarrow> vprints null m R ps args out \<Longrightarrow> vprints null m R (VLit c # ps) args (c # out)"
| vpercent: "width_ok w \<Longrightarrow> vprints null m R ps args out \<Longrightarrow> vprints null m R (VConv w 37 # ps) args (37 # out)"
| vchar: "width_ok w \<Longrightarrow> vprints null m R ps args out \<Longrightarrow> vprints null m R (VConv w 99 # ps) (a # args) (ucast a # out)"
| vstring: "width_ok w \<Longrightarrow> cstr m (if p = 0 then null else p) s \<Longrightarrow> outside R (if p = 0 then null else p) (Suc (length s)) \<Longrightarrow>
    vprints null m R ps args out \<Longrightarrow> vprints null m R (VConv w 115 # ps) (p # args) (s @ out)"
| vhex: "width_ok w \<Longrightarrow> unat (field_width w) < 2147483648 \<Longrightarrow> vprints null m R ps args out \<Longrightarrow>
    vprints null m R (VConv w 120 # ps) (a # args)
      (pad_text (if field_width w = 0 then 8 else unat (field_width w)) (map (\<lambda>d. lower_digits ! d) (radix 16 (unat a))) @ out)"
| vdec: "width_ok w \<Longrightarrow> unat a \<le> 1410065407 \<Longrightarrow> vprints null m R ps args out \<Longrightarrow>
    vprints null m R (VConv w 100 # ps) (a # args)
      (pad_text (unat (field_width w)) (map (\<lambda>d. of_nat d + 48) (radix 10 (unat a))) @ out)"

definition same_outside :: "(u32 \<Rightarrow> bool) \<Rightarrow> mem \<Rightarrow> mem \<Rightarrow> bool" where
  "same_outside R m m' \<longleftrightarrow> (\<forall>x. \<not> R x \<longrightarrow> m' x = m x)"

lemma same_outside_write:
  "same_outside R m m' \<Longrightarrow> (\<And>i. i < length bs \<Longrightarrow> R (a + of_nat i)) \<Longrightarrow> same_outside R m (write_bytes m' a bs)"
proof (induction bs arbitrary: a m')
  case (Cons b bs)
  have "same_outside R m (m'(a := b))" using Cons.prems(1) Cons.prems(2) [of 0] by (auto simp: same_outside_def)
  moreover have "R (a + 1 + of_nat i)" if "i < length bs" for i
    using Cons.prems(2) [of "Suc i"] that by (simp add: ac_simps)
  ultimately have "same_outside R m (write_bytes (m'(a := b)) (a + 1) bs)" by (rule Cons.IH)
  then show ?case by simp
qed simp

lemma cstr_same:
  assumes "same_outside R m m'" "outside R p (Suc (length s))" "cstr m p s"
  shows "cstr m' p s"
  using assms cstr_cong [of s m' p m] by (auto simp: same_outside_def outside_def)

lemma copy_string_write:
  assumes "cstr m p s" "outside R p (Suc (length s))" "same_outside R m m'" "\<And>i. i < length s \<Longrightarrow> R (buf + ptr + of_nat i)"
  shows "copy_string m' buf ptr p = Some (write_bytes m' (buf + ptr) s, ptr + of_nat (length s))"
  using assms
proof (induction s arbitrary: p ptr m')
  case Nil
  then show ?case by (subst copy_string.simps) (simp add: same_outside_def outside_def)
next
  case (Cons c s)
  have c: "m' p = c" "c \<noteq> 0"
    using Cons.prems(1-3) by (auto simp: same_outside_def outside_def)
  have "same_outside R m (write_bytes m' (buf + ptr) [c])"
    using Cons.prems(3) Cons.prems(4) [of 0] by (intro same_outside_write) auto
  moreover have "outside R (p + 1) (Suc (length s))"
    using Cons.prems(2) by (auto simp: outside_def add.assoc dest: spec [of _ "Suc _"])
  moreover have "R (buf + (ptr + 1) + of_nat i)" if "i < length s" for i
    using Cons.prems(4) [of "Suc i"] that by (simp add: ac_simps)
  ultimately show ?case using c Cons.IH [of "p + 1" "m'(buf + ptr := c)" "ptr + 1"] Cons.prems(1)
    by (subst copy_string.simps) (simp add: ac_simps del: fun_upd_apply)
qed

lemma arg_width_loop_correct:
  "width_ok w \<Longrightarrow> \<not> (48 \<le> c \<and> c \<le> 57) \<Longrightarrow> cstr m (fmt + i) (w @ c # t) \<Longrightarrow>
   arg_width_loop m fmt i a = Some (i + of_nat (length w), foldl (\<lambda>a c. a * 10 + (ucast c - 48)) a w)"
proof (induction w arbitrary: i a)
  case Nil
  then show ?case by (subst arg_width_loop.simps) auto
next
  case (Cons x w)
  then show ?case by (subst arg_width_loop.simps) (simp add: width_ok_def ac_simps)
qed

text \<open>The bytes of a conversion, as the loop meets them.\<close>

lemma turn_conv:
  assumes "cstr m (fmt + i) (vbytes (VConv w c) @ t)" "width_ok w" "c \<in> {37, 99, 115, 120, 100}"
  shows "vasprintf_turn null m buf fmt args i ptr = do {
    (m, args, ptr) \<leftarrow> vasprintf_conv null m buf c (field_width w) args ptr;
    Some (m, args, i + of_nat (length (vbytes (VConv w c))) - 1, ptr) }"
proof -
  have b: "m (fmt + i) = 37" "cstr m (fmt + (i + 1)) (w @ c # t)" using assms(1) by (simp_all add: add.assoc)
  have "\<not> (48 \<le> c \<and> c \<le> 57)" using assms(3) by auto
  from arg_width_loop_correct [OF assms(2) this b(2), of 0]
  have "arg_width_loop m fmt (i + 1) 0 = Some (i + 1 + of_nat (length w), field_width w)" by (simp add: field_width_def)
  moreover have "m (fmt + (i + 1 + of_nat (length w))) = c" using b(2) by (simp add: cstr_append add.assoc)
  ultimately show ?thesis using b(1) by (simp add: vasprintf_turn_def ac_simps)
qed

text \<open>One turn of the loop: the text of the first piece is written, the index is at its last byte.\<close>

lemma vasprintf_turn_correct:
  assumes "vprints null m R (p # ps) args out"
    "cstr m' (fmt + i) (vbytes p @ t)" "same_outside R m m'" "\<And>j. j < length out \<Longrightarrow> R (buf + ptr + of_nat j)"
  shows "\<exists>o1 o2 args'. out = o1 @ o2 \<and> vprints null m R ps args' o2 \<and>
    vasprintf_turn null m' buf fmt args i ptr =
      Some (write_bytes m' (buf + ptr) o1, args', i + of_nat (length (vbytes p)) - 1, ptr + of_nat (length o1))"
proof -
  have fin: ?thesis if "out = o1 @ o2" "vprints null m R ps args' o2" "p = VConv w c" "width_ok w" "c \<in> {37, 99, 115, 120, 100}"
    "vasprintf_conv null m' buf c (field_width w) args ptr = Some (write_bytes m' (buf + ptr) o1, args', ptr + of_nat (length o1))"
    for o1 o2 args' w c
    using that turn_conv [OF assms(2) [unfolded that(3)] that(4,5), of null buf args ptr] by auto
  show ?thesis using assms(1)
  proof cases
    case (vlit c out')
    then have "out = [c] @ out'" "vasprintf_turn null m' buf fmt args i ptr =
        Some (write_bytes m' (buf + ptr) [c], args, i + of_nat (length (vbytes p)) - 1, ptr + of_nat (length [c]))"
      using assms(2) by (simp_all add: vasprintf_turn_def)
    then show ?thesis using vlit(4) by blast
  next
    case (vpercent w out')
    then show ?thesis by (intro fin [of "[37]" out' args w 37]) (simp_all add: vasprintf_conv_def)
  next
    case (vchar w args' out' a)
    then show ?thesis by (intro fin [of "[ucast a]" out' args' w 99]) (simp_all add: vasprintf_conv_def)
  next
    case (vstring w p' s args' out')
    have "copy_string m' buf ptr (if p' = 0 then null else p') = Some (write_bytes m' (buf + ptr) s, ptr + of_nat (length s))"
      using vstring assms(3,4) by (intro copy_string_write [of m _ _ R]) auto
    then show ?thesis using vstring by (intro fin [of s out' args' w 115]) (simp_all add: vasprintf_conv_def)
  next
    case (vhex w args' out' a)
    then show ?thesis using print_hex_write [OF vhex(5), of a m' buf ptr]
      by (intro fin [OF vhex(3) vhex(6) vhex(1) vhex(4)]) (simp_all add: vasprintf_conv_def Let_def)
  next
    case (vdec w a args' out')
    then show ?thesis using print_dec_write [OF vdec(5), of "field_width w" m' buf ptr]
      by (intro fin [OF vdec(3) vdec(6) vdec(1) vdec(4)]) (simp_all add: vasprintf_conv_def Let_def)
  qed
qed


lemma vprints_bytes: "vprints null m R ps args out \<Longrightarrow> length ps \<le> length (vformat ps)"
  by (induction rule: vprints.induct) (auto simp: vformat_def)

lemma sint_of_nat_less:
  "j < 2147483648 \<Longrightarrow> i < 2147483648 \<Longrightarrow> sint (of_nat i :: u32) < sint (of_nat j :: u32) \<longleftrightarrow> i < j"
  using sint_small [of "of_nat i"] sint_small [of "of_nat j"] by (simp add: unat_of_nat_u32)

lemma outside_shift: "outside R (p + of_nat k) n \<longleftrightarrow> (\<forall>i. k \<le> i \<and> i < k + n \<longrightarrow> \<not> R (p + of_nat i))"
proof -
  have "\<not> R (p + of_nat i)" if "outside R (p + of_nat k) n" "k \<le> i" "i < k + n" for i
    using that by (auto simp: outside_def add.assoc simp flip: of_nat_add dest!: spec [of _ "i - k"])
  then show ?thesis by (auto simp: outside_def add.assoc simp flip: of_nat_add)
qed

text \<open>
  The loop from index \<open>k\<close> on, with the rest of the format in memory outside the buffer.
\<close>

lemma vasprintf_loop_correct:
  assumes "vprints null m R ps args out" "cstr m (fmt + of_nat k) (vformat ps)" "same_outside R m m'"
    "outside R (fmt + of_nat k) (Suc (length (vformat ps)))" "k + length (vformat ps) < 2147483648"
    "\<And>j. j \<le> length out \<Longrightarrow> R (buf + ptr + of_nat j)"
  shows "vasprintf_loop null m' buf fmt args (of_nat (k + length (vformat ps))) (of_nat k) ptr =
    Some (write_bytes m' (buf + ptr) (out @ [0]), ptr + of_nat (length out))"
  using assms
proof (induction ps arbitrary: k args out m' ptr)
  case Nil
  then have "out = []" by (auto elim: vprints.cases)
  then show ?case by (subst vasprintf_loop.simps) (simp add: vformat_def)
next
  case (Cons p ps)
  let ?n = "length (vbytes p)"
  have f: "vformat (p # ps) = vbytes p @ vformat ps" by (simp add: vformat_def)
  have c: "cstr m' (fmt + of_nat k) (vbytes p @ vformat ps)"
    using cstr_same [OF Cons.prems(3,4,2)] f by simp
  have n: "0 < ?n" by (cases p) auto
  obtain o1 o2 args' where t: "out = o1 @ o2" "vprints null m R ps args' o2"
    "vasprintf_turn null m' buf fmt args (of_nat k) ptr =
      Some (write_bytes m' (buf + ptr) o1, args', of_nat k + of_nat ?n - 1, ptr + of_nat (length o1))"
    using vasprintf_turn_correct [OF Cons.prems(1) c Cons.prems(3)] Cons.prems(6) by (metis less_imp_le)
  have nz: "m' (fmt + of_nat k) \<noteq> 0" using c n by (cases "vbytes p") auto
  let ?m = "write_bytes m' (buf + ptr) o1" and ?k = "k + ?n" and ?ptr = "ptr + of_nat (length o1)"
  have "vasprintf_loop null ?m buf fmt args' (of_nat (?k + length (vformat ps))) (of_nat ?k) ?ptr =
    Some (write_bytes ?m (buf + ?ptr) (o2 @ [0]), ?ptr + of_nat (length o2))"
  proof (rule Cons.IH [OF t(2)])
    show "cstr m (fmt + of_nat ?k) (vformat ps)" using Cons.prems(2) f by (simp add: cstr_append add.assoc)
    show "same_outside R m ?m" using Cons.prems(3,6) t(1) by (intro same_outside_write) auto
    show "outside R (fmt + of_nat ?k) (Suc (length (vformat ps)))"
      using Cons.prems(4) unfolding outside_shift f by auto
    show "?k + length (vformat ps) < 2147483648" using Cons.prems(5) f by simp
    show "R (buf + ?ptr + of_nat j)" if "j \<le> length o2" for j
      using Cons.prems(6) [of "length o1 + j"] that t(1) by (simp add: add.assoc)
  qed
  moreover have "of_nat k + of_nat ?n - 1 + 1 = (of_nat ?k :: u32)" by simp
  moreover have "sint (of_nat k :: u32) < sint (of_nat (k + length (vformat (p # ps))) :: u32)"
    using Cons.prems(5) n f by (subst sint_of_nat_less) auto
  moreover have "write_bytes ?m (buf + ?ptr) (o2 @ [0]) = write_bytes m' (buf + ptr) (out @ [0])"
    using t(1) by (simp add: write_bytes_append add.assoc)
  ultimately show ?case using t nz f
    by (subst vasprintf_loop.simps) (simp add: add.assoc)
qed

lemma write_bytes_nth:
  "i < length bs \<Longrightarrow> length bs \<le> 4294967296 \<Longrightarrow> write_bytes m a bs (a + of_nat i) = bs ! i"
proof (induction bs arbitrary: i a m rule: rev_induct)
  case (snoc b bs)
  have w: "write_bytes m a (bs @ [b]) = (write_bytes m a bs)(a + of_nat (length bs) := b)"
    by (simp add: write_bytes_append)
  show ?case
  proof (cases "i = length bs")
    case False
    then have "(of_nat i :: u32) \<noteq> of_nat (length bs)" using snoc.prems offset_eq [of i "length bs" 0] by auto
    then show ?thesis using w snoc False by (simp add: nth_append)
  qed (simp add: w)
qed simp


definition sample_log :: mem where
  "sample_log = (\<lambda>_. 0)(0x100 := 110, 0x101 := 61, 0x102 := 37, 0x103 := 51, 0x104 := 100)"


text \<open>
  the largest 32-bit number, 4294967295, is printed by \<open>print_dec\<close> with 32 digits, 22 of them leading
  zeros that were not asked for.
\<close>

theorem print_dec_wide:
  "print_dec 0xFFFFFFFF 0 m buf ptr =
     Some (write_bytes m (buf + ptr) (replicate 22 48 @ [52, 50, 57, 52, 57, 54, 55, 50, 57, 53]), ptr + 32)"
proof -
  have w: "dec_width 0xFFFFFFFF 1 9 = Some 32" by code_simp
  have r: "radix 10 4294967295 = [4, 2, 9, 4, 9, 6, 7, 2, 9, 5]" by (simp add: radix.simps)
  then have l: "length (radix 10 4294967295) = 10" by simp
  from decimals_radix [of 4294967295, unfolded l, unfolded r]
  have "decimals 10 4294967295 = [52, 50, 57, 52, 57, 54, 55, 50, 57, 53]" by (simp del: decimals.simps)
  then have d: "decimals 32 4294967295 = replicate 22 48 @ [52, 50, 57, 52, 57, 54, 55, 50, 57, 53]"
    using decimals_add [of 22 10 4294967295] by (simp add: decimals_zero)
  have p: "pad_dec 32 0 0 m buf ptr = (m, ptr)" by (simp add: pad_dec.simps)
  from dec_digits_write [of 32 "0xFFFFFFFF" m buf ptr] w d p show ?thesis by (simp add: print_dec_def)
qed

end
