(* ===== verification/Arrays.thy ===== *)
theory Arrays
  imports Kalloc Mem_Words
begin

text \<open>
  The arrays and trees of \<open>kernel/kernel/array.c\<close>: doubly linked lists of nodes in blocks of the kernel heap, and
  trees whose nodes keep their children in such an array.  \<open>array_holds\<close> relates an array in memory to the
  list of its nodes; the operations are composed with the allocator's theorems, so that freeing a node is
  known to leave the other nodes alone.
\<close>

section \<open>The structures\<close>

definition node_next :: "mem \<Rightarrow> u32 \<Rightarrow> u32" where "node_next m node = load32 m node"
definition node_prev :: "mem \<Rightarrow> u32 \<Rightarrow> u32" where "node_prev m node = load32 m (node + 4)"
definition node_value :: "mem \<Rightarrow> u32 \<Rightarrow> u32" where "node_value m node = load32 m (node + 8)"
definition array_start :: "mem \<Rightarrow> u32 \<Rightarrow> u32" where "array_start m array = load32 m array"
definition array_end :: "mem \<Rightarrow> u32 \<Rightarrow> u32" where "array_end m array = load32 m (array + 4)"
definition array_size :: "mem \<Rightarrow> u32 \<Rightarrow> u32" where "array_size m array = load32 m (array + 8)"
definition tree_node_value :: "mem \<Rightarrow> u32 \<Rightarrow> u32" where "tree_node_value m node = load32 m node"
definition tree_node_children :: "mem \<Rightarrow> u32 \<Rightarrow> u32" where "tree_node_children m node = load32 m (node + 4)"
definition tree_node_parent :: "mem \<Rightarrow> u32 \<Rightarrow> u32" where "tree_node_parent m node = load32 m (node + 8)"
definition tree_size :: "mem \<Rightarrow> u32 \<Rightarrow> u32" where "tree_size m tree = load32 m tree"
definition tree_root :: "mem \<Rightarrow> u32 \<Rightarrow> u32" where "tree_root m tree = load32 m (tree + 4)"

lemmas field_defs = node_next_def node_prev_def node_value_def array_start_def array_end_def array_size_def

text \<open>The assignment of a word to a field.\<close>

definition set_word :: "u32 \<Rightarrow> u32 \<Rightarrow> kmem_state \<Rightarrow> kmem_state" where
  "set_word a v s = s\<lparr>heap_mem := store32 (heap_mem s) a v\<rparr>"

section \<open>Arrays\<close>

definition array_create :: "kmem_state \<Rightarrow> (u32 \<times> kmem_state) option" where
  "array_create s = do {
     (array, s) \<leftarrow> kmalloc 12 s;
     Some (array, set_word (array + 4) 0 (set_word array 0 (set_word (array + 8) 0 s)))
   }"

definition array_node_delete :: "u32 \<Rightarrow> u32 \<Rightarrow> kmem_state \<Rightarrow> kmem_state option" where
  "array_node_delete node array s =
     (let s = (if node = array_end (heap_mem s) array then
                 if array_start (heap_mem s) array = node then set_word (array + 4) 0 s
                 else let s = set_word (node_prev (heap_mem s) node) 0 s
                      in set_word (array + 4) (node_prev (heap_mem s) node) s
               else s);
          s = (if node = array_start (heap_mem s) array then
                 if node_next (heap_mem s) node \<noteq> 0 then set_word array (node_next (heap_mem s) node) s
                 else set_word array 0 s
               else s);
          s = (if node \<noteq> array_end (heap_mem s) array \<and> node \<noteq> array_start (heap_mem s) array then
                 let s = set_word (node_prev (heap_mem s) node) (node_next (heap_mem s) node) s
                 in set_word (node_next (heap_mem s) node + 4) (node_prev (heap_mem s) node) s
               else s)
      in do {
        s \<leftarrow> kfree node s;
        Some (set_word (array + 8) (array_size (heap_mem s) array - 1) s)
      })"

partial_function (option) array_clear_loop :: "u32 \<Rightarrow> u32 \<Rightarrow> kmem_state \<Rightarrow> kmem_state option" where
  "array_clear_loop node array s =
     (if node \<noteq> 0
      then let node_nxt = node_next (heap_mem s) node in
        do { s \<leftarrow> array_node_delete node array s; array_clear_loop node_nxt array s }
      else Some s)"

definition array_clear :: "u32 \<Rightarrow> kmem_state \<Rightarrow> kmem_state option" where
  "array_clear array s = array_clear_loop (array_start (heap_mem s) array) array s"

definition array_delete :: "u32 \<Rightarrow> kmem_state \<Rightarrow> kmem_state option" where
  "array_delete array s = do { s \<leftarrow> array_clear array s; kfree array s }"

text \<open>\<open>i\<close> is compared with the unsigned size, so the comparison is unsigned.\<close>

partial_function (option) find_loop :: "mem \<Rightarrow> u32 \<Rightarrow> u32 \<Rightarrow> u32 \<Rightarrow> u32 \<Rightarrow> u32 option" where
  "find_loop m v array i node =
     (if i \<le> array_size m array
      then if node_value m node = v then Some node else find_loop m v array (i + 1) (node_next m node)
      else Some 0)"

definition array_node_find :: "mem \<Rightarrow> u32 \<Rightarrow> u32 \<Rightarrow> u32 option" where
  "array_node_find m v array =
     (if array_start m array = 0 then Some 0 else find_loop m v array 0 (array_start m array))"

definition array_node_insert :: "u32 \<Rightarrow> u32 \<Rightarrow> kmem_state \<Rightarrow> kmem_state" where
  "array_node_insert node array s =
     (let s = (if array_end (heap_mem s) array = 0 then set_word array node s
               else let s = set_word (array_end (heap_mem s) array) node s
                    in set_word (node + 4) (array_end (heap_mem s) array) s);
          s = set_word (array + 4) node s
      in set_word (array + 8) (array_size (heap_mem s) array + 1) s)"

definition array_pop :: "u32 \<Rightarrow> kmem_state \<Rightarrow> (u32 \<times> kmem_state) option" where
  "array_pop array s =
     (if array_end (heap_mem s) array = 0 then Some (0, s)
      else let node = array_end (heap_mem s) array in
        do { s \<leftarrow> array_node_delete node array s; Some (node, s) })"

section \<open>Trees\<close>

definition tree_create :: "kmem_state \<Rightarrow> (u32 \<times> kmem_state) option" where
  "tree_create s = do { (tree, s) \<leftarrow> kmalloc 8 s; Some (tree, set_word tree 0 (set_word (tree + 4) 0 s)) }"

partial_function (option) reparent_loop :: "u32 \<Rightarrow> u32 \<Rightarrow> kmem_state \<Rightarrow> kmem_state option" where
  "reparent_loop child node s =
     (if child \<noteq> 0
      then let s = set_word (node_value (heap_mem s) child + 8) (tree_node_parent (heap_mem s) node) s
           in reparent_loop (node_next (heap_mem s) child) node s
      else Some s)"

definition tree_node_delete :: "u32 \<Rightarrow> u32 \<Rightarrow> kmem_state \<Rightarrow> kmem_state option" where
  "tree_node_delete node tree s =
     (if node = 0 \<or> tree = 0 \<or> tree_root (heap_mem s) tree = 0 then Some s
      else do {
        s \<leftarrow> (let children = tree_node_children (heap_mem s) node in
          if children \<noteq> 0 \<and> array_size (heap_mem s) children = 0 then do {
            s \<leftarrow> reparent_loop (array_start (heap_mem s) children) node s;
            s \<leftarrow> (if tree_node_value (heap_mem s) node \<noteq> 0 then kfree (tree_node_value (heap_mem s) node) s else Some s);
            array_delete (tree_node_children (heap_mem s) node) s
          }
          else Some s);
        s \<leftarrow> kfree node s;
        Some (set_word tree (tree_size (heap_mem s) tree - 1) s)
      })"

definition tree_clear :: "u32 \<Rightarrow> kmem_state \<Rightarrow> kmem_state option" where
  "tree_clear tree s = (if tree = 0 then Some s else tree_node_delete (tree_root (heap_mem s) tree) tree s)"

definition tree_delete :: "u32 \<Rightarrow> kmem_state \<Rightarrow> kmem_state option" where
  "tree_delete tree s = do { s \<leftarrow> tree_clear tree s; kfree tree s }"

definition tree_node_insert :: "u32 \<Rightarrow> u32 \<Rightarrow> u32 \<Rightarrow> kmem_state \<Rightarrow> kmem_state option" where
  "tree_node_insert node parent tree s =
     (if node = 0 \<or> tree = 0 then Some s
      else if parent = 0 then Some (set_word (tree + 4) node s)
      else do {
        s \<leftarrow> (if tree_node_children (heap_mem s) parent = 0
          then do { (a, s) \<leftarrow> array_create s; Some (set_word (parent + 4) a s) } else Some s);
        (array_node, s) \<leftarrow> kmalloc 12 s;
        let s = set_word (node + 8) parent (set_word (array_node + 8) node s);
        let s = array_node_insert array_node (tree_node_children (heap_mem s) parent) s;
        Some (set_word tree (tree_size (heap_mem s) tree + 1) s)
      })"

declare array_clear_loop.simps [code] find_loop.simps [code] reparent_loop.simps [code]

section \<open>Doubly linked lists in memory\<close>

text \<open>
  \<open>fwd m xs e\<close>: the next pointers lead through \<open>xs\<close> to \<open>e\<close>.  \<open>bwd m b xs\<close>: the previous pointers lead from the
  end of \<open>xs\<close> back to \<open>b\<close>.
\<close>

fun fwd :: "mem \<Rightarrow> u32 list \<Rightarrow> u32 \<Rightarrow> bool" where
  "fwd m [] e = True"
| "fwd m (x # xs) e = (node_next m x = hd (xs @ [e]) \<and> fwd m xs e)"

fun bwd :: "mem \<Rightarrow> u32 \<Rightarrow> u32 list \<Rightarrow> bool" where
  "bwd m b [] = True"
| "bwd m b (x # xs) = (node_prev m x = b \<and> bwd m x xs)"

lemma fwd_append: "fwd m (xs @ ys) e \<longleftrightarrow> fwd m xs (hd (ys @ [e])) \<and> fwd m ys e"
proof (induction xs)
  case (Cons x xs)
  have "hd ((xs @ ys) @ [e]) = hd (xs @ [hd (ys @ [e])])" by (cases xs) simp_all
  with Cons show ?case by simp
qed simp

lemma bwd_append: "bwd m b (xs @ ys) \<longleftrightarrow> bwd m b xs \<and> bwd m (List.last (b # xs)) ys"
  by (induction xs arbitrary: b) auto

lemma fwd_cong: "(\<And>x. x \<in> set xs \<Longrightarrow> node_next m' x = node_next m x) \<Longrightarrow> fwd m' xs e = fwd m xs e"
  by (induction xs) auto

lemma bwd_cong: "(\<And>x. x \<in> set xs \<Longrightarrow> node_prev m' x = node_prev m x) \<Longrightarrow> bwd m' b xs = bwd m b xs"
  by (induction xs arbitrary: b) auto

text \<open>\<open>array_holds m a xs\<close>: the array at \<open>a\<close> holds the nodes \<open>xs\<close>.\<close>

definition array_holds :: "mem \<Rightarrow> u32 \<Rightarrow> u32 list \<Rightarrow> bool" where
  "array_holds m a xs \<longleftrightarrow> distinct (a # xs) \<and> 0 \<notin> set xs \<and> array_start m a = hd (xs @ [0]) \<and>
     array_end m a = List.last (0 # xs) \<and> array_size m a = of_nat (length xs) \<and>
     fwd m xs 0 \<and> (xs \<noteq> [] \<longrightarrow> bwd m (hd xs) (tl xs))"

section \<open>Fields of separate structures\<close>

text \<open>The structures at \<open>A\<close>, twelve bytes each, do not overlap.\<close>

definition apart :: "u32 set \<Rightarrow> bool" where
  "apart A \<longleftrightarrow> (\<forall>x \<in> A. \<forall>y \<in> A. x \<noteq> y \<longrightarrow> disj x 12 y 12)"

lemma apart_field:
  assumes "apart A" "x \<in> A" "y \<in> A" "i \<in> {0, 4, 8}" "j \<in> {0, 4, 8}"
  shows "load32 (store32 m (x + i) v) (y + j) = (if x = y \<and> i = j then v else load32 m (y + j))"
proof (cases "x = y")
  case True
  then show ?thesis using assms(4,5) by (auto intro!: load32_store32_disj simp: disj_def)
next
  case False
  then have d: "disj x 12 y 12" using assms by (auto simp: apart_def)
  have "disj (x + i) 4 (y + j) 4" using assms(4,5) by (intro disj_sub [OF d]) auto
  then show ?thesis using False load32_store32_disj by auto
qed

lemmas apart_fields =
  apart_field [where i = 0 and j = 0, simplified] apart_field [where i = 0 and j = 4, simplified]
  apart_field [where i = 0 and j = 8, simplified] apart_field [where i = 4 and j = 0, simplified]
  apart_field [where i = 4 and j = 4, simplified] apart_field [where i = 4 and j = 8, simplified]
  apart_field [where i = 8 and j = 0, simplified] apart_field [where i = 8 and j = 4, simplified]
  apart_field [where i = 8 and j = 8, simplified]

lemma set_word_fields [simp]:
  "heap_mem (set_word a v s) = store32 (heap_mem s) a v" "pages (set_word a v s) = pages s"
  "l_initialized (set_word a v s) = l_initialized s" "int_enabled (set_word a v s) = int_enabled s"
  by (simp_all add: set_word_def)

section \<open>Insertion\<close>

lemma array_insert_holds:
  assumes "array_holds (heap_mem s) a xs" "apart (insert a (insert n (set xs)))" "n \<noteq> 0" "n \<notin> insert a (set xs)"
    "node_next (heap_mem s) n = 0" "length xs < 4294967295"
  shows "array_holds (heap_mem (array_node_insert n a s)) a (xs @ [n])"
proof (cases "xs = []")
  case True
  then show ?thesis using assms apart_fields [OF assms(2)]
    by (auto simp: array_holds_def array_node_insert_def field_defs Let_def)
next
  case False
  let ?A = "insert a (insert n (set xs))" and ?m = "heap_mem s" and ?e = "List.last xs"
  let ?m1 = "heap_mem (array_node_insert n a s)"
  have e: "array_end ?m a = ?e" "?e \<in> set xs" using assms(1) False by (auto simp: array_holds_def)
  then have ne: "?e \<noteq> 0" "?e \<noteq> a" "?e \<noteq> n" "a \<noteq> n" using assms(1,4) by (auto simp: array_holds_def)
  note F = apart_fields [OF assms(2)]
  have mem: "?m1 = store32 (store32 (store32 (store32 ?m ?e n) (n + 4) ?e) (a + 4) n) (a + 8) (array_size ?m a + 1)"
    using e ne by (simp add: array_node_insert_def Let_def field_defs F)
  have nx: "node_next ?m1 x = (if x = ?e then n else node_next ?m x)" if "x \<in> insert n (set xs)" for x
    unfolding mem using that e by (simp add: field_defs F)
  have pv: "node_prev ?m1 x = (if x = n then ?e else node_prev ?m x)" if "x \<in> insert n (set xs)" for x
    using that e ne assms(1) unfolding mem by (auto simp: field_defs F array_holds_def)
  have arr: "array_start ?m1 a = array_start ?m a" "array_end ?m1 a = n" "array_size ?m1 a = array_size ?m a + 1"
    unfolding mem using e ne by (simp_all add: field_defs F)
  obtain ys where ys: "xs = ys @ [?e]" using False by (metis append_butlast_last_id)
  have d: "?e \<notin> set ys" using assms(1) ys by (metis array_holds_def distinct.simps(2) distinct_append not_distinct_conv_prefix)
  have "fwd ?m1 ys ?e = fwd ?m ys ?e" using nx ys d by (intro fwd_cong) (metis UnI1 insertCI set_append)
  moreover have "fwd ?m (ys @ [?e]) 0" using assms(1) ys by (metis array_holds_def)
  ultimately have "fwd ?m1 (ys @ [?e, n]) 0" using nx [of ?e] nx [of n] assms(5) ne e(2) by (simp add: fwd_append)
  then have f: "fwd ?m1 (xs @ [n]) 0" using ys by (metis append.assoc append_Cons append_Nil)
  have b: "bwd ?m1 (hd xs) (tl xs @ [n])"
  proof -
    have "bwd ?m1 (hd xs) (tl xs) = bwd ?m (hd xs) (tl xs)"
      using pv assms(4) False by (intro bwd_cong) (metis insertCI list.set_sel(2))
    moreover have "List.last (hd xs # tl xs) = ?e" using False by simp
    ultimately show ?thesis using assms(1) False pv by (simp add: bwd_append array_holds_def)
  qed
  show ?thesis using assms(1,3) ne(4) assms(4) arr f b False by (auto simp: array_holds_def)
qed


section \<open>Deletion\<close>

text \<open>Unlinking a node between two others.\<close>

lemma unlink_holds:
  assumes "array_holds m a (xs @ p # n # q # ys)" "apart (insert a (set (xs @ p # n # q # ys)))"
    "m1 = store32 (store32 m p q) (q + 4) p" "\<And>b. b \<in> insert a (set (xs @ p # q # ys)) \<Longrightarrow>
      load32 m2 b = load32 m1 b \<and> load32 m2 (b + 4) = load32 m1 (b + 4) \<and> load32 m2 (b + 8) = load32 m1 (b + 8)"
  shows "array_holds (store32 m2 (a + 8) (array_size m2 a - 1)) a (xs @ p # q # ys)"
proof -
  let ?A = "insert a (set (xs @ p # n # q # ys))" and ?B = "insert a (set (xs @ p # q # ys))"
  let ?m = "store32 m2 (a + 8) (array_size m2 a - 1)"
  note F = apart_fields [OF assms(2)]
  have d: "distinct (a # xs @ p # n # q # ys)" "0 \<notin> set (xs @ p # n # q # ys)" using assms(1) by (auto simp: array_holds_def)
  have nx: "node_next ?m x = (if x = p then q else node_next m x)"
    and pv: "node_prev ?m x = (if x = q then p else node_prev m x)" if "x \<in> ?B - {a}" for x
    using that d assms(4) [of x] by (auto simp: field_defs F assms(3))
  have arr: "array_start ?m a = array_start m a" "array_end ?m a = array_end m a" "array_size ?m a = array_size m a - 1"
    using d assms(4) [of a] by (auto simp: field_defs F assms(3))
  have ol: "fwd m (xs @ p # n # q # ys) 0" "bwd m (hd (xs @ [p])) (tl (xs @ p # n # q # ys))"
    using assms(1) by (auto simp: array_holds_def hd_append)
  have "fwd ?m xs p = fwd m xs p" "fwd ?m ys 0 = fwd m ys 0" using d nx by (auto intro!: fwd_cong)
  then have f: "fwd ?m (xs @ p # q # ys) 0" using ol(1) d nx [of p] nx [of q] by (auto simp: fwd_append)
  have b: "bwd ?m (hd (xs @ [p])) (tl (xs @ p # q # ys))"
  proof (cases xs)
    case Nil
    then have "bwd ?m q ys = bwd m q ys" using d pv by (intro bwd_cong) auto
    then show ?thesis using ol(2) Nil pv [of q] d by auto
  next
    case (Cons x zs)
    then have "bwd ?m x zs = bwd m x zs" "bwd ?m q ys = bwd m q ys" using d pv by (auto intro!: bwd_cong)
    then show ?thesis using ol(2) Cons pv [of p] pv [of q] d by (auto simp: bwd_append)
  qed
  have "array_size m a = of_nat (length (xs @ p # n # q # ys))" using assms(1) by (simp add: array_holds_def)
  then have "array_size ?m a = of_nat (length (xs @ p # q # ys))" using arr(3) by simp
  then show ?thesis using assms(1) arr(1,2) f b by (auto simp: array_holds_def hd_append)
qed


section \<open>Arrays on the kernel heap\<close>

lemma blocks_apart:
  assumes "kheap_ok s T F" "\<And>x. x \<in> A \<Longrightarrow> blocks s T x = Some 12"
  shows "apart A"
  unfolding apart_def
proof (intro ballI impI)
  fix x y assume xy: "x \<in> A" "y \<in> A" "x \<noteq> y"
  have "blocks s T x = Some 12" "blocks s T y = Some 12" using assms(2) xy by blast+
  from payload_disj [OF kernel_okD(1) [OF assms(1) this(1)] this] xy(3) show "disj x 12 y 12" by simp
qed

text \<open>The allocator is well-formed and its allocated blocks are \<open>B\<close>.\<close>

definition kstate :: "kmem_state \<Rightarrow> u32 set \<Rightarrow> (int \<Rightarrow> u32 list) \<Rightarrow> (u32 \<rightharpoonup> u32) \<Rightarrow> bool" where
  "kstate s T F B \<longleftrightarrow> kheap_ok s T F \<and> blocks s T = B"

lemma kstate_set_word:
  assumes "kstate s T F B" "B p = Some 12" "i \<in> {0, 4, 8}"
  shows "kstate (set_word (p + i) v s) T F B"
proof -
  have "\<not> in_rng p 12 x \<Longrightarrow> \<not> in_rng (p + i) 4 x" for x
    using assms(3) in_rng_shift [of p i 4 x 12] by auto
  then have "store32 (heap_mem s) (p + i) v x = heap_mem s x" if "\<not> in_rng p (unat (12 :: u32)) x" for x
    using that by (simp add: store32_outside)
  from kernel.write_ok [unfolded kheap_ok_eq, of s T F p 12 "\<lambda>m. store32 m (p + i) v", OF _ _ this] assms(1,2)
  show ?thesis by (simp add: kstate_def set_word_def upd_mem_def)
qed

lemmas kstate_set_words = kstate_set_word [where i = 0, simplified] kstate_set_word [where i = 4, simplified]
  kstate_set_word [where i = 8, simplified]

text \<open>
  C25: \<open>array_node_insert\<close> of a block whose next pointer is null appends it to the array, keeps the allocator's
  invariant and all allocated blocks.
\<close>

theorem array_node_insert_appends:
  assumes "kheap_ok s T F" and "\<forall>x \<in> insert a (insert n (set xs)). blocks s T x = Some 12"
    and "array_holds (heap_mem s) a xs" and "n \<noteq> 0" and "n \<notin> insert a (set xs)" and "node_next (heap_mem s) n = 0"
    and "length xs < 4294967295"
  shows "array_holds (heap_mem (array_node_insert n a s)) a (xs @ [n]) \<and> kheap_ok (array_node_insert n a s) T F \<and>
    blocks (array_node_insert n a s) T = blocks s T"
proof -
  have ap: "apart (insert a (insert n (set xs)))" using blocks_apart [OF assms(1)] assms(2) by blast
  have "xs \<noteq> [] \<Longrightarrow> array_end (heap_mem s) a \<in> set xs" "xs = [] \<Longrightarrow> array_end (heap_mem s) a = 0"
    using assms(3) by (auto simp: array_holds_def)
  then have e: "array_end (heap_mem s) a \<noteq> 0 \<longrightarrow> blocks s T (array_end (heap_mem s) a) = Some 12" using assms(2) by auto
  have "kstate s T F (blocks s T)" using assms(1) by (simp add: kstate_def)
  then have "kstate (array_node_insert n a s) T F (blocks s T)"
    using assms(2) e by (auto simp add: array_node_insert_def Let_def intro!: kstate_set_words)
  then show ?thesis using array_insert_holds [OF assms(3) ap assms(4,5,6,7)] by (simp add: kstate_def)
qed

text \<open>
  \<open>array_node_delete\<close> of a node that has a node before and after it takes exactly this node out of the array,
  frees exactly this block and keeps the allocator's invariant.
\<close>

theorem array_node_delete_middle:
  assumes "kheap_ok s T F" and "\<forall>x \<in> insert a (set (xs @ p # n # q # ys)). blocks s T x = Some 12"
    and "array_holds (heap_mem s) a (xs @ p # n # q # ys)"
  shows "\<exists>s' T' F'. array_node_delete n a s = Some s' \<and> array_holds (heap_mem s') a (xs @ p # q # ys) \<and>
    kheap_ok s' T' F' \<and> blocks s' T' = (blocks s T)(n := None)"
proof -
  let ?A = "insert a (set (xs @ p # n # q # ys))"
  let ?s = "set_word (q + 4) p (set_word p q s)"
  have ap: "apart ?A" using blocks_apart [OF assms(1)] assms(2) by blast
  note F = apart_fields [OF ap]
  have d: "distinct (a # xs @ p # n # q # ys)" using assms(3) by (simp add: array_holds_def)
  have l: "node_next (heap_mem s) n = q" "node_prev (heap_mem s) n = p" "array_end (heap_mem s) a \<noteq> n" "array_start (heap_mem s) a \<noteq> n"
  proof -
    show "node_next (heap_mem s) n = q" using assms(3) by (simp add: array_holds_def fwd_append)
    show "node_prev (heap_mem s) n = p" using assms(3) by (cases xs) (auto simp: array_holds_def bwd_append)
    have "array_end (heap_mem s) a \<in> set (q # ys)" "array_start (heap_mem s) a \<in> set (xs @ [p])"
      using assms(3) by (auto simp: array_holds_def hd_append)
    then show "array_end (heap_mem s) a \<noteq> n" "array_start (heap_mem s) a \<noteq> n" using d by auto
  qed
  have "kstate s T F (blocks s T)" using assms(1) by (simp add: kstate_def)
  then have "kstate ?s T F (blocks s T)" using assms(2) by (intro kstate_set_words) auto
  then have ok: "kheap_ok ?s T F" "blocks ?s T = blocks s T" by (simp_all add: kstate_def)
  have bn: "blocks ?s T n = Some 12" using ok(2) assms(2) by simp
  from kernel_free [OF ok(1) bn] kernel_frame(2) [OF ok(1)]
  obtain s' T' F' where f: "free kernel_hooks n ?s = Some s'" "kheap_ok s' T' F'" "blocks s' T' = (blocks ?s T)(n := None)"
    "\<forall>b k x. blocks ?s T b = Some k \<longrightarrow> in_rng b (unat k) x \<longrightarrow> heap_mem s' x = heap_mem ?s x" by metis
  have eq: "load32 (heap_mem s') b = load32 (heap_mem ?s) b \<and> load32 (heap_mem s') (b + 4) = load32 (heap_mem ?s) (b + 4) \<and>
      load32 (heap_mem s') (b + 8) = load32 (heap_mem ?s) (b + 8)" if "b \<in> insert a (set (xs @ p # q # ys))" for b
  proof -
    have "blocks ?s T b = Some 12" using that ok(2) assms(2) by auto
    then have "heap_mem s' x = heap_mem ?s x" if "in_rng b 12 x" for x using f(4) that by auto
    then have "load32 (heap_mem s') (b + i) = load32 (heap_mem ?s) (b + i)" if "i \<in> {0, 4, 8}" for i
      using that in_rng_shift [of b i 4 _ 12] by (intro load32_cong) auto
    from this [of 0] this [of 4] this [of 8] show ?thesis by simp
  qed
  have "paging_state (pages ?s) \<noteq> 0" using ok(1) by (simp add: kheap_ok_def kinv_def kbase_def Let_def)
  then have del: "array_node_delete n a s = Some (set_word (a + 8) (array_size (heap_mem s') a - 1) s')"
    using l d f(1) F by (simp add: array_node_delete_def Let_def kfree_def field_defs)
  have "array_holds (heap_mem (set_word (a + 8) (array_size (heap_mem s') a - 1) s')) a (xs @ p # q # ys)"
    using unlink_holds [OF assms(3) ap, of "heap_mem ?s" "heap_mem s'"] eq by simp
  moreover have "kstate s' T' F' ((blocks s T)(n := None))" using f(2,3) ok(2) by (simp only: kstate_def)
  then have "kstate (set_word (a + 8) (array_size (heap_mem s') a - 1) s') T' F' ((blocks s T)(n := None))"
    using assms(2) d by (intro kstate_set_words) auto
  ultimately show ?thesis using del unfolding kstate_def by blast
qed

text \<open>
  \<open>array_node_delete\<close> of the last of several nodes goes on to the code for a node in the middle and writes
  through the null next pointer: just before the block is freed, the word at address 4 holds the address of
  the node before it.
\<close>

theorem array_node_delete_last:
  assumes "array_holds (heap_mem s) a (xs @ [p, n])" and "apart (insert a (set (xs @ [p, n])))"
  shows "\<exists>s1. load32 (heap_mem s1) 4 = p \<and> array_node_delete n a s =
    do { s2 \<leftarrow> kfree n s1; Some (set_word (a + 8) (array_size (heap_mem s2) a - 1) s2) }"
proof -
  note F = apart_fields [OF assms(2)]
  have d: "distinct (a # xs @ [p, n])" "p \<noteq> 0" using assms(1) by (auto simp: array_holds_def)
  have l: "node_next (heap_mem s) n = 0" "array_end (heap_mem s) a = n"
    using assms(1) by (simp_all add: array_holds_def fwd_append)
  have pv: "node_prev (heap_mem s) n = p" using assms(1) by (cases xs) (auto simp: array_holds_def bwd_append)
  have "array_start (heap_mem s) a \<in> set (xs @ [p])" using assms(1) by (cases xs) (auto simp: array_holds_def)
  then have st: "array_start (heap_mem s) a \<noteq> n" using d by auto
  let ?s2 = "set_word (a + 4) p (set_word p 0 s)"
  let ?s3 = "set_word p 0 ?s2"
  have e: "node_prev (heap_mem (set_word p 0 s)) n = p" "array_start (heap_mem ?s2) a = array_start (heap_mem s) a"
    "array_end (heap_mem ?s2) a = p" "node_prev (heap_mem ?s2) n = p" "node_next (heap_mem ?s2) n = 0"
    "node_prev (heap_mem ?s3) n = p" "node_next (heap_mem ?s3) n = 0"
    using l pv d by (auto simp: field_defs F)
  have "n \<noteq> p" "a \<noteq> p" "a \<noteq> n" using d by auto
  then have "array_node_delete n a s =
      do { s2 \<leftarrow> kfree n (set_word 4 p ?s3); Some (set_word (a + 8) (array_size (heap_mem s2) a - 1) s2) }"
    using l pv st d e by (simp add: array_node_delete_def Let_def del: set_word_fields)
  moreover have "load32 (heap_mem (set_word 4 p ?s3)) 4 = p" by simp
  ultimately show ?thesis by blast
qed

section \<open>Search\<close>

lemma find_loop_correct:
  assumes "fwd m ys 0" "array_size m a = of_nat (k + length ys)" "k + length ys < 4294967295" "node = hd (ys @ [0])"
  shows "find_loop m v a (of_nat k) node = Some (case List.find (\<lambda>x. node_value m x = v) ys of Some x \<Rightarrow> x | None \<Rightarrow> 0)"
  using assms
proof (induction ys arbitrary: k node)
  case Nil
  have "\<not> (of_nat (Suc k) :: u32) \<le> of_nat k"
    using Nil.prems(3) by (simp add: word_le_nat_alt unat_of_nat_u32 del: of_nat_Suc)
  then have "find_loop m v a (of_nat (Suc k)) (node_next m 0) = Some 0"
    using Nil.prems(2) by (subst find_loop.simps) simp
  then show ?case using Nil by (subst find_loop.simps) (simp add: add.commute)
next
  case (Cons y ys)
  have "(of_nat k :: u32) \<le> of_nat (k + length (y # ys))"
    using Cons.prems(3) by (simp add: word_le_nat_alt unat_of_nat_u32 del: of_nat_Suc of_nat_add)
  moreover have "find_loop m v a (of_nat (Suc k)) (node_next m y) = Some (case List.find (\<lambda>x. node_value m x = v) ys of Some x \<Rightarrow> x | None \<Rightarrow> 0)"
    using Cons.prems by (intro Cons.IH) simp_all
  ultimately show ?case using Cons.prems by (subst find_loop.simps) (simp add: add.commute)
qed

text \<open>\<open>array_node_find\<close> ends and returns the first node with the value, and null when there is none.\<close>

theorem array_node_find_first:
  assumes "array_holds m a xs" and "length xs < 4294967295"
  shows "array_node_find m v a = Some (case List.find (\<lambda>x. node_value m x = v) xs of Some x \<Rightarrow> x | None \<Rightarrow> 0)"
proof (cases xs)
  case Nil
  then show ?thesis using assms(1) by (simp add: array_holds_def array_node_find_def)
next
  case (Cons x ys)
  then have "array_start m a = x" "x \<noteq> 0" using assms(1) by (auto simp: array_holds_def)
  then have "array_node_find m v a = find_loop m v a (of_nat 0) x" by (simp add: array_node_find_def)
  also have "\<dots> = Some (case List.find (\<lambda>x. node_value m x = v) xs of Some x \<Rightarrow> x | None \<Rightarrow> 0)"
    using assms Cons by (intro find_loop_correct) (auto simp: array_holds_def)
  finally show ?thesis .
qed

section \<open>A sample array\<close>

text \<open>An array at \<open>0x100\<close> with nodes at \<open>0x200\<close>, \<open>0x300\<close> and \<open>0x400\<close>.\<close>

definition sample_array :: mem where
  "sample_array = (\<lambda>_. 0)(0x101 := 2, 0x105 := 4, 0x108 := 3, 0x201 := 3, 0x208 := 7, 0x301 := 4, 0x305 := 2, 0x308 := 8,
     0x405 := 3, 0x408 := 9)"

lemma sample_array_holds: "array_holds sample_array 0x100 [0x200, 0x300, 0x400]"
  by (simp add: array_holds_def field_defs sample_array_def load32_def)

theorem array_node_find_first_witness: "array_node_find sample_array 8 0x100 = Some 0x300"
  using array_node_find_first [OF sample_array_holds, of 8]
  by (simp add: field_defs) (simp add: sample_array_def load32_def)

theorem array_node_delete_last_witness:
  "\<exists>s1. load32 (heap_mem s1) 4 = 0x300 \<and> array_node_delete 0x400 0x100 (sample_fresh\<lparr>heap_mem := sample_array\<rparr>) =
    do { s2 \<leftarrow> kfree 0x400 s1; Some (set_word 0x108 (array_size (heap_mem s2) 0x100 - 1) s2) }"
proof -
  have "apart (insert 0x100 (set ([0x200] @ [0x300, 0x400])))" by (auto simp: apart_def disj_def)
  from array_node_delete_last [OF _ this, of "sample_fresh\<lparr>heap_mem := sample_array\<rparr>"] sample_array_holds
  show ?thesis by simp
qed

section \<open>A sample heap\<close>

text \<open>
  One page of the kernel heap with four allocated blocks of twelve bytes, at \<open>0x10020\<close>, \<open>0x10420\<close>, \<open>0x10820\<close>
  and \<open>0x10C20\<close>; with the words of \<open>sample_list\<close> the first is an array and the others its nodes, without
  them they are zero and the first is an empty array.
\<close>

definition sample_tags :: "(u32 \<times> u32) list" where
  "sample_tags = [
    (0x10000, 0xC001C0DE), (0x10004, 0xC), (0x10008, 0x400), (0x1000C, 0xFFFFFFFF), (0x10014, 0x10400),
     (0x10400, 0xC001C0DE), (0x10404, 0xC), (0x10408, 0x400), (0x1040C, 0xFFFFFFFF), (0x10410, 0x10000),
     (0x10414, 0x10800), (0x10800, 0xC001C0DE), (0x10804, 0xC), (0x10808, 0x400), (0x1080C, 0xFFFFFFFF),
     (0x10810, 0x10400), (0x10814, 0x10C00), (0x10C00, 0xC001C0DE), (0x10C04, 0xC), (0x10C08, 0x400),
     (0x10C0C, 0xFFFFFFFF), (0x10C10, 0x10800)]"

definition sample_list :: "(u32 \<times> u32) list" where
  "sample_list = [
    (0x10020, 0x10420), (0x10024, 0x10C20), (0x10028, 0x3), (0x10420, 0x10820), (0x10820, 0x10C20),
     (0x10824, 0x10420), (0x10C24, 0x10820)]"

definition sample_heap :: "(u32 \<times> u32) list \<Rightarrow> kmem_state" where
  "sample_heap ws = \<lparr>heap_mem = words (ws @ sample_tags), l_freePages = (\<lambda>_. 0), l_completePages = (\<lambda>_. 0), l_initialized = True,
     int_enabled = True, pages = sample_kernel\<rparr>"

definition sample_bt :: "u32 \<Rightarrow> u32 \<Rightarrow> boundary_tag" where
  "sample_bt l r = \<lparr>bt_magic = LIBALLOC_MAGIC, bt_size = 12, bt_real_size = 0x400, bt_index = - 1, bt_split_left = l,
     bt_split_right = r, bt_next = 0, bt_prev = 0\<rparr>"

abbreviation sample_T :: "u32 set" where "sample_T \<equiv> {0x10000, 0x10400, 0x10800, 0x10C00}"

lemma sample_aligned: "list_all (\<lambda>(a, v). aligned a) (sample_list @ sample_tags)" "list_all (\<lambda>(a, v). aligned a) sample_tags"
  by (simp_all add: sample_list_def sample_tags_def aligned_def)

lemma sample_load:
  "aligned b \<Longrightarrow> load32 (words (sample_list @ sample_tags)) b = (case map_of (sample_list @ sample_tags) b of Some v \<Rightarrow> v | None \<Rightarrow> 0)"
  "aligned b \<Longrightarrow> load32 (words sample_tags) b = (case map_of sample_tags b of Some v \<Rightarrow> v | None \<Rightarrow> 0)"
  using load32_words sample_aligned by blast+

lemma sample_heap_tags:
  assumes "ws = sample_list \<or> ws = []"
  shows "tag_at (words (ws @ sample_tags)) 0x10000 = sample_bt 0 0x10400" "tag_at (words (ws @ sample_tags)) 0x10400 = sample_bt 0x10000 0x10800"
    "tag_at (words (ws @ sample_tags)) 0x10800 = sample_bt 0x10400 0x10C00" "tag_at (words (ws @ sample_tags)) 0x10C00 = sample_bt 0x10800 0"
  using assms by (auto simp: tag_at_def sample_load aligned_def sample_bt_def LIBALLOC_MAGIC_def) (simp_all add: sample_tags_def sample_list_def)

lemma sample_heap_ok:
  assumes "ws = sample_list \<or> ws = []"
  shows "kheap_ok (sample_heap ws) sample_T (\<lambda>_. [])"
proof -
  let ?h = "tag_at (words (ws @ sample_tags))"
  note t = sample_heap_tags [OF assms]
  have "geom ?h sample_T" by (simp add: geom_def t sample_bt_def)
  moreover have "links ?h sample_T" by (simp add: links_def t sample_bt_def)
  moreover have "owns ?h sample_T (kregions sample_kernel)"
    unfolding owns_def by (rule ballI, rule bexI [OF _ sample_region]) (auto simp: t sample_bt_def)
  moreover have "freelists ?h (\<lambda>_. 0) (\<lambda>_. []) sample_T" by (simp add: freelists_def t sample_bt_def)
  moreover have "roomy ?h sample_T {}" "classed ?h sample_T" "coalesced ?h sample_T"
    by (simp_all add: roomy_def classed_def coalesced_def t sample_bt_def)
  moreover have "counted ?h (\<lambda>_. 0) (\<lambda>_. [])" by (simp add: counted_def MAXCOMPLETE_def)
  ultimately have "heap_ok ?h (\<lambda>_. 0) (\<lambda>_. 0) sample_T (\<lambda>_. []) {} (kregions sample_kernel)"
    by (simp add: heap_ok_def tiling_def)
  then show ?thesis by (simp add: kheap_ok_def sample_heap_def sample_kernel_inv)
qed

lemma sample_heap_blocks:
  assumes "ws = sample_list \<or> ws = []" "x \<in> {0x10020, 0x10420, 0x10820, 0x10C20}"
  shows "blocks (sample_heap ws) sample_T x = Some 12"
  using assms(2) sample_heap_tags [OF assms(1)] by (auto simp: live_def sample_heap_def sample_bt_def)

lemma sample_heap_list: "array_holds (heap_mem (sample_heap sample_list)) 0x10020 [0x10420, 0x10820, 0x10C20]"
  by (simp add: array_holds_def field_defs sample_heap_def sample_load aligned_def) (simp add: sample_tags_def sample_list_def)

theorem array_node_insert_appends_witness:
  "array_holds (heap_mem (array_node_insert 0x10420 0x10020 (sample_heap []))) 0x10020 [0x10420]"
proof -
  let ?s = "sample_heap []"
  have e: "array_holds (heap_mem ?s) 0x10020 []" "node_next (heap_mem ?s) 0x10420 = 0"
    by (simp_all add: array_holds_def field_defs sample_heap_def sample_load aligned_def) (simp_all add: sample_tags_def)
  have "\<forall>x \<in> insert 0x10020 (insert 0x10420 (set [])). blocks ?s sample_T x = Some 12"
    using sample_heap_blocks by auto
  from array_node_insert_appends [OF sample_heap_ok this e(1) _ _ e(2)] show ?thesis by simp
qed

theorem array_node_delete_middle_witness:
  "\<exists>s'. array_node_delete 0x10820 0x10020 (sample_heap sample_list) = Some s' \<and>
    array_holds (heap_mem s') 0x10020 [0x10420, 0x10C20]"
proof -
  let ?s = "sample_heap sample_list"
  have "\<forall>x \<in> insert 0x10020 (set ([] @ 0x10420 # 0x10820 # 0x10C20 # [])). blocks ?s sample_T x = Some 12"
    using sample_heap_blocks by auto
  from array_node_delete_middle [OF sample_heap_ok this] sample_heap_list show ?thesis by auto
qed

end
