(* ===== verification/Floppy.thy ===== *)
theory Floppy
  imports Interrupts "HOL-Library.Signed_Division"
begin

text \<open>
  The DMA controllers (\<open>kernel/arch/i386/dma.c\<close>) and the driver of the floppy controller (\<open>fdc.c\<close>).  The driver works
  on the machine of the theory \<open>Interrupts\<close> with its own variables as the world; the controller is whatever answers
  the ports and raises the interrupt.  The theorems say which bytes reach it.
\<close>

section \<open>The DMA controllers\<close>

definition DMA0_CHAN0_ADDR_REG :: u16 where "DMA0_CHAN0_ADDR_REG = 0"
definition DMA0_CHAN0_COUNT_REG :: u16 where "DMA0_CHAN0_COUNT_REG = 1"
definition DMA0_CHAN1_ADDR_REG :: u16 where "DMA0_CHAN1_ADDR_REG = 2"
definition DMA0_CHAN1_COUNT_REG :: u16 where "DMA0_CHAN1_COUNT_REG = 3"
definition DMA0_CHAN2_ADDR_REG :: u16 where "DMA0_CHAN2_ADDR_REG = 4"
definition DMA0_CHAN2_COUNT_REG :: u16 where "DMA0_CHAN2_COUNT_REG = 5"
definition DMA0_CHAN3_ADDR_REG :: u16 where "DMA0_CHAN3_ADDR_REG = 6"
definition DMA0_CHAN3_COUNT_REG :: u16 where "DMA0_CHAN3_COUNT_REG = 7"
definition DMA0_CHANMASK_REG :: u16 where "DMA0_CHANMASK_REG = 0x0a"
definition DMA0_MODE_REG :: u16 where "DMA0_MODE_REG = 0x0b"
definition DMA0_CLEARBYTE_FLIPFLOP_REG :: u16 where "DMA0_CLEARBYTE_FLIPFLOP_REG = 0x0c"
definition DMA0_TEMP_REG :: u16 where "DMA0_TEMP_REG = 0x0d"
definition DMA1_CHAN4_ADDR_REG :: u16 where "DMA1_CHAN4_ADDR_REG = 0xc0"
definition DMA1_CHAN4_COUNT_REG :: u16 where "DMA1_CHAN4_COUNT_REG = 0xc2"
definition DMA1_CHAN5_ADDR_REG :: u16 where "DMA1_CHAN5_ADDR_REG = 0xc4"
definition DMA1_CHAN5_COUNT_REG :: u16 where "DMA1_CHAN5_COUNT_REG = 0xc6"
definition DMA1_CHAN6_ADDR_REG :: u16 where "DMA1_CHAN6_ADDR_REG = 0xc8"
definition DMA1_CHAN6_COUNT_REG :: u16 where "DMA1_CHAN6_COUNT_REG = 0xca"
definition DMA1_CHAN7_ADDR_REG :: u16 where "DMA1_CHAN7_ADDR_REG = 0xcc"
definition DMA1_CHAN7_COUNT_REG :: u16 where "DMA1_CHAN7_COUNT_REG = 0xce"
definition DMA_PAGE_CHAN1_ADDRBYTE2 :: u16 where "DMA_PAGE_CHAN1_ADDRBYTE2 = 0x83"
definition DMA_PAGE_CHAN2_ADDRBYTE2 :: u16 where "DMA_PAGE_CHAN2_ADDRBYTE2 = 0x81"
definition DMA_PAGE_CHAN3_ADDRBYTE2 :: u16 where "DMA_PAGE_CHAN3_ADDRBYTE2 = 0x82"
definition DMA_PAGE_CHAN5_ADDRBYTE2 :: u16 where "DMA_PAGE_CHAN5_ADDRBYTE2 = 0x89"
definition DMA_PAGE_CHAN6_ADDRBYTE2 :: u16 where "DMA_PAGE_CHAN6_ADDRBYTE2 = 0x87"
definition DMA_PAGE_CHAN7_ADDRBYTE2 :: u16 where "DMA_PAGE_CHAN7_ADDRBYTE2 = 0x88"
definition DMA1_CHANMASK_REG :: u16 where "DMA1_CHANMASK_REG = 0xd4"
definition DMA1_MODE_REG :: u16 where "DMA1_MODE_REG = 0xd6"
definition DMA1_CLEARBYTE_FLIPFLOP_REG :: u16 where "DMA1_CLEARBYTE_FLIPFLOP_REG = 0xd8"
definition DMA1_UNMASK_ALL_REG :: u16 where "DMA1_UNMASK_ALL_REG = 0xdc"
definition DMA_MODE_READ_TRANSFER :: u8 where "DMA_MODE_READ_TRANSFER = 4"
definition DMA_MODE_WRITE_TRANSFER :: u8 where "DMA_MODE_WRITE_TRANSFER = 8"
definition DMA_MODE_TRANSFER_SINGLE :: u8 where "DMA_MODE_TRANSFER_SINGLE = 0x40"

text \<open>\<open>1 << n\<close> as the byte written; the processor takes the count modulo 32, also where C leaves it undefined.\<close>

definition one_shift :: "u32 \<Rightarrow> u8" where
  "one_shift n = ucast (push_bit (unat (n AND 31)) (1 :: u32))"

definition dma_mask_channel :: "u8 \<Rightarrow> 'a machine_scheme \<Rightarrow> 'a machine_scheme" where
  "dma_mask_channel channel s =
     (if channel \<le> 4 then out8 DMA0_CHANMASK_REG (one_shift (ucast channel - 1)) s
      else out8 DMA1_CHANMASK_REG (one_shift (ucast channel - 5)) s)"

definition dma_unmask_channel :: "u8 \<Rightarrow> 'a machine_scheme \<Rightarrow> 'a machine_scheme" where
  "dma_unmask_channel channel s =
     (if channel \<le> 4 then out8 DMA0_CHANMASK_REG channel s else out8 DMA1_CHANMASK_REG channel s)"

definition dma_unmask_all :: "int \<Rightarrow> 'a machine_scheme \<Rightarrow> 'a machine_scheme" where
  "dma_unmask_all dma s = out8 DMA1_UNMASK_ALL_REG 0xff s"

definition dma_reset :: "int \<Rightarrow> 'a machine_scheme \<Rightarrow> 'a machine_scheme" where
  "dma_reset dma s = out8 DMA0_TEMP_REG 0xff s"

definition dma_reset_flipflop :: "int \<Rightarrow> 'a machine_scheme \<Rightarrow> 'a machine_scheme" where
  "dma_reset_flipflop dma s =
     (if dma < 2 then s
      else out8 (if dma = 0 then DMA0_CLEARBYTE_FLIPFLOP_REG else DMA1_CLEARBYTE_FLIPFLOP_REG) 0xff s)"

definition dma_set_address :: "u8 \<Rightarrow> u8 \<Rightarrow> u8 \<Rightarrow> 'a machine_scheme \<Rightarrow> 'a machine_scheme" where
  "dma_set_address channel low high s =
     (if 8 < channel then s
      else let port = (if channel = 0 then DMA0_CHAN0_ADDR_REG else if channel = 1 then DMA0_CHAN1_ADDR_REG
          else if channel = 2 then DMA0_CHAN2_ADDR_REG else if channel = 3 then DMA0_CHAN3_ADDR_REG
          else if channel = 4 then DMA1_CHAN4_ADDR_REG else if channel = 5 then DMA1_CHAN5_ADDR_REG
          else if channel = 6 then DMA1_CHAN6_ADDR_REG else if channel = 7 then DMA1_CHAN7_ADDR_REG else 0)
        in out8 port high (out8 port low s))"

definition dma_set_count :: "u8 \<Rightarrow> u8 \<Rightarrow> u8 \<Rightarrow> 'a machine_scheme \<Rightarrow> 'a machine_scheme" where
  "dma_set_count channel low high s =
     (if 8 < channel then s
      else let port = (if channel = 0 then DMA0_CHAN0_COUNT_REG else if channel = 1 then DMA0_CHAN1_COUNT_REG
          else if channel = 2 then DMA0_CHAN2_COUNT_REG else if channel = 3 then DMA0_CHAN3_COUNT_REG
          else if channel = 4 then DMA1_CHAN4_COUNT_REG else if channel = 5 then DMA1_CHAN5_COUNT_REG
          else if channel = 6 then DMA1_CHAN6_COUNT_REG else if channel = 7 then DMA1_CHAN7_COUNT_REG else 0)
        in out8 port high (out8 port low s))"

definition dma_set_mode :: "u8 \<Rightarrow> u8 \<Rightarrow> 'a machine_scheme \<Rightarrow> 'a machine_scheme" where
  "dma_set_mode channel mode s = (let
     dma = (if channel < 4 then 0 else 1);
     chan = (if dma = 0 then channel else channel - 4);
     s = dma_mask_channel channel s;
     s = out8 (if channel < 4 then DMA0_MODE_REG else DMA1_MODE_REG) (chan OR mode) s
     in dma_unmask_all dma s)"

definition dma_set_read :: "u8 \<Rightarrow> 'a machine_scheme \<Rightarrow> 'a machine_scheme" where
  "dma_set_read channel s = dma_set_mode channel (DMA_MODE_READ_TRANSFER OR DMA_MODE_TRANSFER_SINGLE) s"

definition dma_set_write :: "u8 \<Rightarrow> 'a machine_scheme \<Rightarrow> 'a machine_scheme" where
  "dma_set_write channel s = dma_set_mode channel (DMA_MODE_WRITE_TRANSFER OR DMA_MODE_TRANSFER_SINGLE) s"

definition dma_set_external_page_register :: "u8 \<Rightarrow> u8 \<Rightarrow> 'a machine_scheme \<Rightarrow> 'a machine_scheme" where
  "dma_set_external_page_register reg val s =
     (if 14 < reg then s
      else if reg = 4 then s
      else let port = (if reg = 1 then DMA_PAGE_CHAN1_ADDRBYTE2 else if reg = 2 then DMA_PAGE_CHAN2_ADDRBYTE2
          else if reg = 3 then DMA_PAGE_CHAN3_ADDRBYTE2 else if reg = 5 then DMA_PAGE_CHAN5_ADDRBYTE2
          else if reg = 6 then DMA_PAGE_CHAN6_ADDRBYTE2 else if reg = 7 then DMA_PAGE_CHAN7_ADDRBYTE2 else 0)
        in out8 port val s)"

section \<open>The floppy controller\<close>

definition FLOPPY_DOR :: u16 where "FLOPPY_DOR = 0x3f2"
definition FLOPPY_MSR :: u16 where "FLOPPY_MSR = 0x3f4"
definition FLOPPY_FIFO :: u16 where "FLOPPY_FIFO = 0x3f5"
definition FLOPPY_CTRL :: u16 where "FLOPPY_CTRL = 0x3f7"
definition FDC_CMD_SPECIFY :: u8 where "FDC_CMD_SPECIFY = 3"
definition FDC_CMD_READ_SECT :: u8 where "FDC_CMD_READ_SECT = 6"
definition FDC_CMD_CALIBRATE :: u8 where "FDC_CMD_CALIBRATE = 7"
definition FDC_CMD_CHECK_INT :: u8 where "FDC_CMD_CHECK_INT = 8"
definition FDC_CMD_SEEK :: u8 where "FDC_CMD_SEEK = 0xf"
definition FDC_CMD_EXT_SKIP :: u8 where "FDC_CMD_EXT_SKIP = 0x20"
definition FDC_CMD_EXT_DENSITY :: u8 where "FDC_CMD_EXT_DENSITY = 0x40"
definition FDC_CMD_EXT_MULTITRACK :: u8 where "FDC_CMD_EXT_MULTITRACK = 0x80"
definition FLOPPY_DOR_MASK_RESET :: u32 where "FLOPPY_DOR_MASK_RESET = 4"
definition FLOPPY_DOR_MASK_DMA :: u32 where "FLOPPY_DOR_MASK_DMA = 8"
definition FLOPPY_DOR_MASK_DRIVE0_MOTOR :: u32 where "FLOPPY_DOR_MASK_DRIVE0_MOTOR = 16"
definition FLOPPY_DOR_MASK_DRIVE1_MOTOR :: u32 where "FLOPPY_DOR_MASK_DRIVE1_MOTOR = 32"
definition FLOPPY_DOR_MASK_DRIVE2_MOTOR :: u32 where "FLOPPY_DOR_MASK_DRIVE2_MOTOR = 64"
definition FLOPPY_DOR_MASK_DRIVE3_MOTOR :: u32 where "FLOPPY_DOR_MASK_DRIVE3_MOTOR = 128"
definition FLOPPY_MSR_MASK_DATAREG :: u8 where "FLOPPY_MSR_MASK_DATAREG = 128"
definition FLOPPY_GAP3_LENGTH_3_5 :: u8 where "FLOPPY_GAP3_LENGTH_3_5 = 27"
definition FLOPPY_SECTOR_DTL_512 :: u8 where "FLOPPY_SECTOR_DTL_512 = 2"
definition FDC_DMA_CHANNEL :: u8 where "FDC_DMA_CHANNEL = 2"
definition FLOPPY_SECTORS_PER_TRACK :: int where "FLOPPY_SECTORS_PER_TRACK = 18"

text \<open>The variables of the driver.\<close>

record floppy =
  DMA_BUFFER :: u32
  CurrentDrive :: u8
  FloppyDiskIRQ :: u8

type_synonym fdc = "floppy intr"

abbreviation drive_of :: "fdc \<Rightarrow> u8" where
  "drive_of s \<equiv> CurrentDrive (world s)"

definition floppy_set_dma :: "u32 \<Rightarrow> fdc \<Rightarrow> fdc" where
  "floppy_set_dma addr s = s\<lparr>world := (world s)\<lparr>DMA_BUFFER := addr\<rparr>\<rparr>"

definition floppy_dma_initialize :: "u32 \<Rightarrow> u32 \<Rightarrow> 'a machine_scheme \<Rightarrow> int \<times> 'a machine_scheme" where
  "floppy_dma_initialize buffer len s = (let
     a = buffer; c = len - 1 in
     if drop_bit 24 a \<noteq> 0 \<or> drop_bit 16 c \<noteq> 0 \<or> drop_bit 16 ((a AND 0xffff) + c) \<noteq> 0 then (0, s)
     else let
       s = dma_reset 1 s;
       s = dma_mask_channel FDC_DMA_CHANNEL s;
       s = dma_reset_flipflop 1 s;
       s = dma_set_address FDC_DMA_CHANNEL (ucast a) (ucast (drop_bit 8 a)) s;
       s = dma_reset_flipflop 1 s;
       s = dma_set_count FDC_DMA_CHANNEL (ucast c) (ucast (drop_bit 8 c)) s;
       s = dma_set_read FDC_DMA_CHANNEL s;
       s = dma_unmask_all 1 s
     in (1, s))"

definition floppy_read_status :: "fdc \<Rightarrow> u8 \<times> fdc" where
  "floppy_read_status s = in8 FLOPPY_MSR s"

definition floppy_write_dor :: "u8 \<Rightarrow> fdc \<Rightarrow> fdc" where
  "floppy_write_dor val s = out8 FLOPPY_DOR val s"

text \<open>The loops with the number of turns left.\<close>

fun send_loop :: "nat \<Rightarrow> u8 \<Rightarrow> fdc \<Rightarrow> fdc" where
  "send_loop 0 cmd s = s"
| "send_loop (Suc n) cmd s = (let (v, s) = floppy_read_status s in
     if v AND FLOPPY_MSR_MASK_DATAREG \<noteq> 0 then out8 FLOPPY_FIFO cmd s else send_loop n cmd s)"

definition floppy_send_command :: "u8 \<Rightarrow> fdc \<Rightarrow> fdc" where
  "floppy_send_command cmd s = send_loop 500 cmd s"

fun data_loop :: "nat \<Rightarrow> fdc \<Rightarrow> u8 \<times> fdc" where
  "data_loop 0 s = (0, s)"
| "data_loop (Suc n) s = (let (v, s) = floppy_read_status s in
     if v AND FLOPPY_MSR_MASK_DATAREG \<noteq> 0 then in8 FLOPPY_FIFO s else data_loop n s)"

definition floppy_read_data :: "fdc \<Rightarrow> u8 \<times> fdc" where
  "floppy_read_data s = data_loop 500 s"

definition floppy_write_ccr :: "u8 \<Rightarrow> fdc \<Rightarrow> fdc" where
  "floppy_write_ccr val s = out8 FLOPPY_CTRL val s"

definition floppy_irq :: "fdc \<Rightarrow> fdc" where
  "floppy_irq s = s\<lparr>world := (world s)\<lparr>FloppyDiskIRQ := 1\<rparr>\<rparr>"

text \<open>
  \<open>arrives h\<close>: after the accesses \<open>h\<close> the controller raises its interrupt, whose routine is \<open>floppy_irq\<close>.  \<open>None\<close> is the loop that
  never ends because it does not.
\<close>

definition floppy_wait_irq :: "(io_event list \<Rightarrow> bool) \<Rightarrow> fdc \<Rightarrow> fdc option" where
  "floppy_wait_irq arrives s = do {
     s \<leftarrow> (if FloppyDiskIRQ (world s) = 0 then if arrives (ports s) then Some (floppy_irq s) else None else Some s);
     Some (s\<lparr>world := (world s)\<lparr>FloppyDiskIRQ := 0\<rparr>\<rparr>)
   }"

definition floppy_check_int :: "fdc \<Rightarrow> (u32 \<times> u32) \<times> fdc" where
  "floppy_check_int s = (let
     s = floppy_send_command FDC_CMD_CHECK_INT s;
     (st0, s) = floppy_read_data s;
     (cyl, s) = floppy_read_data s
     in ((ucast st0, ucast cyl), s))"

text \<open>A call of \<open>sleep\<close>.\<close>

definition sleep_call :: "u32 \<Rightarrow> fdc \<Rightarrow> fdc" where
  "sleep_call n s = s\<lparr>mbus := (mbus s)\<lparr>trace := Ticks n # ports s\<rparr>\<rparr>"

definition floppy_control_motor :: "int \<Rightarrow> fdc \<Rightarrow> fdc" where
  "floppy_control_motor b s =
     (if 3 < drive_of s then s
      else let
        motor = (if drive_of s = 0 then FLOPPY_DOR_MASK_DRIVE0_MOTOR else if drive_of s = 1 then FLOPPY_DOR_MASK_DRIVE1_MOTOR
          else if drive_of s = 2 then FLOPPY_DOR_MASK_DRIVE2_MOTOR else FLOPPY_DOR_MASK_DRIVE3_MOTOR);
        s = (if b \<noteq> 0 then floppy_write_dor (ucast (ucast (drive_of s) OR motor OR FLOPPY_DOR_MASK_RESET OR FLOPPY_DOR_MASK_DMA)) s
          else floppy_write_dor (ucast FLOPPY_DOR_MASK_RESET) s)
        in sleep_call 20 s)"

text \<open>\<open>x << 1 | (dma==0) ? 0 : 1\<close> is \<open>(x << 1 | (dma==0)) ? 0 : 1\<close>.\<close>

definition floppy_drive_data :: "u32 \<Rightarrow> u32 \<Rightarrow> u32 \<Rightarrow> int \<Rightarrow> fdc \<Rightarrow> fdc" where
  "floppy_drive_data stepr loadt unloadt dma s = (let
     s = floppy_send_command FDC_CMD_SPECIFY s;
     data = push_bit 4 (stepr AND 0xf) OR (unloadt AND 0xf);
     s = floppy_send_command (ucast data) s;
     data = (if push_bit 1 loadt OR (if dma = 0 then 1 else 0) \<noteq> (0 :: u32) then 0 else 1)
     in floppy_send_command data s)"

fun calibrate_loop :: "(io_event list \<Rightarrow> bool) \<Rightarrow> nat \<Rightarrow> u32 \<Rightarrow> fdc \<Rightarrow> (int \<times> fdc) option" where
  "calibrate_loop arrives 0 drive s = Some (-1, floppy_control_motor 0 s)"
| "calibrate_loop arrives (Suc n) drive s = do {
     let s = floppy_send_command FDC_CMD_CALIBRATE s;
     let s = floppy_send_command (ucast drive) s;
     s \<leftarrow> floppy_wait_irq arrives s;
     let ((st0, cyl), s) = floppy_check_int s;
     if cyl = 0 then Some (0, floppy_control_motor 0 s) else calibrate_loop arrives n drive s
   }"

definition floppy_calibrate :: "(io_event list \<Rightarrow> bool) \<Rightarrow> u32 \<Rightarrow> fdc \<Rightarrow> (int \<times> fdc) option" where
  "floppy_calibrate arrives drive s =
     (if 4 \<le> drive then Some (-2, s) else calibrate_loop arrives 10 drive (floppy_control_motor 1 s))"

definition floppy_disable_controller :: "fdc \<Rightarrow> fdc" where
  "floppy_disable_controller s = floppy_write_dor 0 s"

definition floppy_enable_controller :: "fdc \<Rightarrow> fdc" where
  "floppy_enable_controller s = floppy_write_dor (ucast (FLOPPY_DOR_MASK_RESET OR FLOPPY_DOR_MASK_DMA)) s"

definition floppy_reset :: "(io_event list \<Rightarrow> bool) \<Rightarrow> fdc \<Rightarrow> fdc option" where
  "floppy_reset arrives s = do {
     let s = floppy_disable_controller s;
     let s = floppy_enable_controller s;
     s \<leftarrow> floppy_wait_irq arrives s;
     let s = ((\<lambda>s. snd (floppy_check_int s)) ^^ 4) s;
     let s = floppy_write_ccr 0 s;
     let s = floppy_drive_data 3 16 240 1 s;
     (r, s) \<leftarrow> floppy_calibrate arrives (ucast (drive_of s)) s;
     Some s
   }"

definition floppy_read_sector_imp :: "(io_event list \<Rightarrow> bool) \<Rightarrow> u8 \<Rightarrow> u8 \<Rightarrow> u8 \<Rightarrow> fdc \<Rightarrow> fdc option" where
  "floppy_read_sector_imp arrives head track sector s = do {
     let (r, s) = floppy_dma_initialize (DMA_BUFFER (world s)) 512 s;
     let s = dma_set_read FDC_DMA_CHANNEL s;
     let s = floppy_send_command (FDC_CMD_READ_SECT OR FDC_CMD_EXT_MULTITRACK OR FDC_CMD_EXT_SKIP OR FDC_CMD_EXT_DENSITY) s;
     let s = floppy_send_command (push_bit 2 head OR drive_of s) s;
     let s = floppy_send_command track s;
     let s = floppy_send_command head s;
     let s = floppy_send_command sector s;
     let s = floppy_send_command FLOPPY_SECTOR_DTL_512 s;
     let s = floppy_send_command (if FLOPPY_SECTORS_PER_TRACK \<le> uint sector + 1 then of_int FLOPPY_SECTORS_PER_TRACK else sector + 1) s;
     let s = floppy_send_command FLOPPY_GAP3_LENGTH_3_5 s;
     let s = floppy_send_command 0xff s;
     s \<leftarrow> floppy_wait_irq arrives s;
     let s = ((\<lambda>s. snd (floppy_read_data s)) ^^ 7) s;
     Some (snd (floppy_check_int s))
   }"

fun seek_loop :: "(io_event list \<Rightarrow> bool) \<Rightarrow> nat \<Rightarrow> u32 \<Rightarrow> u32 \<Rightarrow> fdc \<Rightarrow> (int \<times> fdc) option" where
  "seek_loop arrives 0 cyl head s = Some (-1, s)"
| "seek_loop arrives (Suc n) cyl head s = do {
     let s = floppy_send_command FDC_CMD_SEEK s;
     let s = floppy_send_command (ucast (push_bit 2 head OR ucast (drive_of s))) s;
     let s = floppy_send_command (ucast cyl) s;
     s \<leftarrow> floppy_wait_irq arrives s;
     let ((st0, cyl0), s) = floppy_check_int s;
     if cyl0 = cyl then Some (0, s) else seek_loop arrives n cyl head s
   }"

definition floppy_seek :: "(io_event list \<Rightarrow> bool) \<Rightarrow> u32 \<Rightarrow> u32 \<Rightarrow> fdc \<Rightarrow> (int \<times> fdc) option" where
  "floppy_seek arrives cyl head s = (if 4 \<le> drive_of s then Some (-1, s) else seek_loop arrives 10 cyl head s)"

definition floppy_convert :: "int \<Rightarrow> int \<times> int \<times> int" where
  "floppy_convert lba =
     ((lba smod (FLOPPY_SECTORS_PER_TRACK * 2)) sdiv FLOPPY_SECTORS_PER_TRACK,
      lba sdiv (FLOPPY_SECTORS_PER_TRACK * 2),
      lba smod FLOPPY_SECTORS_PER_TRACK + 1)"

text \<open>\<open>buffer\<close> is the address that \<open>malloc (512)\<close> returns and \<open>floppy_irq_ptr\<close> that of \<open>floppy_irq\<close>.\<close>

definition floppy_initialize :: "(io_event list \<Rightarrow> bool) \<Rightarrow> u32 \<Rightarrow> u32 \<Rightarrow> int \<Rightarrow> fdc \<Rightarrow> fdc option" where
  "floppy_initialize arrives floppy_irq_ptr buffer irq s = do {
     s \<leftarrow> irq_install_handler irq floppy_irq_ptr s;
     let s = floppy_set_dma buffer s;
     s \<leftarrow> floppy_reset arrives s;
     let s = floppy_drive_data 13 1 0xf 1 s;
     Some (log_call NOTICE ''FDC'' s)
   }"

definition floppy_drive_set :: "u8 \<Rightarrow> fdc \<Rightarrow> fdc" where
  "floppy_drive_set drive s = (if drive < 4 then s\<lparr>world := (world s)\<lparr>CurrentDrive := drive\<rparr>\<rparr> else s)"

definition floppy_drive_get :: "fdc \<Rightarrow> u8" where
  "floppy_drive_get s = drive_of s"

definition floppy_read :: "(io_event list \<Rightarrow> bool) \<Rightarrow> int \<Rightarrow> fdc \<Rightarrow> (u32 \<times> fdc) option" where
  "floppy_read arrives sectorLBA s =
     (if 4 \<le> drive_of s then Some (0, s)
      else do {
        let (head, track, sector) = floppy_convert sectorLBA;
        let s = floppy_control_motor 1 s;
        (r, s) \<leftarrow> floppy_seek arrives (of_int track) (of_int head) s;
        if r \<noteq> 0 then Some (0, s)
        else do {
          s \<leftarrow> floppy_read_sector_imp arrives (of_int head) (of_int track) (of_int sector) s;
          let s = floppy_control_motor 0 s;
          Some (DMA_BUFFER (world s), s)
        }
      })"

section \<open>Sectors\<close>

text \<open>
  C34: \<open>floppy_convert\<close> maps the sectors numbered from 0 one to one to heads 0 and 1, tracks from 0 and the sectors 1 to 18 of
  a track: it answers \<open>(h, t, s)\<close> exactly for sector \<open>s\<close> of head \<open>h\<close> on track \<open>t\<close>.
\<close>

theorem floppy_convert_bijective:
  assumes "0 \<le> lba"
  shows "floppy_convert lba = (h, t, s) \<longleftrightarrow> 0 \<le> h \<and> h \<le> 1 \<and> 0 \<le> t \<and> 1 \<le> s \<and> s \<le> 18 \<and> lba = (2 * t + h) * 18 + s - 1"
proof -
  have q: "lba sdiv 36 = lba div 36" "lba smod 36 = lba mod 36" "lba smod 18 = lba mod 18" "(lba mod 36) sdiv 18 = lba mod 36 div 18"
    using assms by (auto simp: signed_divide_int_def signed_modulo_int_def sgn_if)
  have m: "lba mod (18 * 2) = 18 * (lba div 18 mod 2) + lba mod 18" "lba div (18 * 2) = lba div 18 div 2"
    by (simp_all only: zmod_zmult2_eq zdiv_zmult2_eq)
  have d: "(18 * (lba div 18 mod 2) + lba mod 18) div 18 = lba div 18 mod 2" by simp
  have c: "floppy_convert lba = (lba mod (18 * 2) div 18, lba div (18 * 2), lba mod 18 + 1)"
    by (simp add: floppy_convert_def FLOPPY_SECTORS_PER_TRACK_def q)
  have e: "floppy_convert lba = (lba div 18 mod 2, lba div 18 div 2, lba mod 18 + 1)" unfolding c m d ..
  show ?thesis
  proof
    assume "floppy_convert lba = (h, t, s)"
    then have v: "h = lba div 18 mod 2" "t = lba div 18 div 2" "s = lba mod 18 + 1" by (simp_all add: e)
    have g: "0 \<le> h' \<and> h' \<le> 1 \<and> 0 \<le> t' \<and> 1 \<le> r + 1 \<and> r + 1 \<le> 18 \<and> lba = (2 * t' + h') * 18 + (r + 1) - 1"
      if "lba = 18 * q + r" "q = 2 * t' + h'" "0 \<le> h'" "h' < 2" "0 \<le> t'" "0 \<le> r" "r < 18" for q r t' h' :: int
      using that by auto
    show "0 \<le> h \<and> h \<le> 1 \<and> 0 \<le> t \<and> 1 \<le> s \<and> s \<le> 18 \<and> lba = (2 * t + h) * 18 + s - 1"
      unfolding v by (rule g) (use assms in \<open>simp_all add: pos_imp_zdiv_nonneg_iff\<close>)
  next
    assume a: "0 \<le> h \<and> h \<le> 1 \<and> 0 \<le> t \<and> 1 \<le> s \<and> s \<le> 18 \<and> lba = (2 * t + h) * 18 + s - 1"
    then have l: "lba = (s - 1) + (2 * t + h) * 18" by simp
    have "(s - 1 + k * 18) div 18 = k" "(s - 1 + k * 18) mod 18 = s - 1" for k using a by simp_all
    then have "lba div 18 = 2 * t + h" "lba mod 18 = s - 1" unfolding l by blast+
    moreover have "(2 * t + h) mod 2 = h" "(2 * t + h) div 2 = t" using a by simp_all
    ultimately show "floppy_convert lba = (h, t, s)" by (simp add: e)
  qed
qed

theorem floppy_convert_bijective_witness:
  "floppy_convert 2879 = (1, 79, 18) \<longleftrightarrow> 0 \<le> (1 :: int) \<and> (1 :: int) \<le> 1 \<and> 0 \<le> (79 :: int) \<and> 1 \<le> (18 :: int) \<and> (18 :: int) \<le> 18 \<and>
   (2879 :: int) = (2 * 79 + 1) * 18 + 18 - 1"
  by (rule floppy_convert_bijective) simp

section \<open>The DMA channel\<close>

text \<open>
  Channel 2 of the first controller after its data sheet: the address and count registers take their two bytes in turn, as a
  flip-flop says, which every access to one of the eight registers toggles and the master clear resets; the single mask register
  sets or clears the mask of the channel in its low bits.
\<close>

record dma_chip =
  flipflop :: bool
  dma_addr :: u16
  dma_count :: u16
  dma_mode :: u8
  dma_masked :: bool

definition put_byte :: "bool \<Rightarrow> u8 \<Rightarrow> u16 \<Rightarrow> u16" where
  "put_byte high v r = (if high then push_bit 8 (ucast v) OR (r AND 0xFF) else (r AND 0xFF00) OR ucast v)"

definition dma_write :: "u16 \<Rightarrow> u8 \<Rightarrow> dma_chip \<Rightarrow> dma_chip" where
  "dma_write p v c =
     (if p = 4 then c\<lparr>dma_addr := put_byte (flipflop c) v (dma_addr c), flipflop := \<not> flipflop c\<rparr>
      else if p = 5 then c\<lparr>dma_count := put_byte (flipflop c) v (dma_count c), flipflop := \<not> flipflop c\<rparr>
      else if p < 8 then c\<lparr>flipflop := \<not> flipflop c\<rparr>
      else if p = 0x0A then if v AND 3 = 2 then c\<lparr>dma_masked := bit v 2\<rparr> else c
      else if p = 0x0B then if v AND 3 = 2 then c\<lparr>dma_mode := v\<rparr> else c
      else if p = 0x0C then c\<lparr>flipflop := False\<rparr>
      else if p = 0x0D then c\<lparr>flipflop := False, dma_masked := True\<rparr>
      else if p = 0x0E then c\<lparr>dma_masked := False\<rparr>
      else if p = 0x0F then c\<lparr>dma_masked := bit v 2\<rparr> else c)"

fun dma_replay :: "io_event list \<Rightarrow> dma_chip \<Rightarrow> dma_chip" where
  "dma_replay [] c = c"
| "dma_replay (Out8 p v # es) c = dma_write p v (dma_replay es c)"
| "dma_replay (In8 p v # es) c = dma_replay es c"
| "dma_replay (Wait # es) c = dma_replay es c"
| "dma_replay (Ticks n # es) c = dma_replay es c"

lemmas dma_consts = DMA0_CHAN0_ADDR_REG_def DMA0_CHAN0_COUNT_REG_def DMA0_CHAN1_ADDR_REG_def DMA0_CHAN1_COUNT_REG_def
  DMA0_CHAN2_ADDR_REG_def DMA0_CHAN2_COUNT_REG_def DMA0_CHANMASK_REG_def DMA0_MODE_REG_def DMA0_TEMP_REG_def DMA1_UNMASK_ALL_REG_def
  DMA_MODE_READ_TRANSFER_def DMA_MODE_TRANSFER_SINGLE_def FDC_DMA_CHANNEL_def

definition dma_events :: "u32 \<Rightarrow> u32 \<Rightarrow> io_event list" where
  "dma_events a c = [Out8 0xDC 0xFF, Out8 0xDC 0xFF, Out8 0x0B 0x46, Out8 0x0A 2, Out8 5 (ucast (drop_bit 8 c)), Out8 5 (ucast c),
     Out8 4 (ucast (drop_bit 8 a)), Out8 4 (ucast a), Out8 0x0A 2, Out8 0x0D 0xFF]"

lemma dma_initialize_events:
  "floppy_dma_initialize a len s =
     (if drop_bit 24 a \<noteq> 0 \<or> drop_bit 16 (len - 1) \<noteq> 0 \<or> drop_bit 16 ((a AND 0xffff) + (len - 1)) \<noteq> 0 then (0, s)
      else (1, s\<lparr>mbus := (mbus s)\<lparr>trace := dma_events a (len - 1) @ ports s\<rparr>\<rparr>))"
proof -
  have o: "one_shift 1 = 2" "(2 :: u8) \<le> 4" "\<not> (8 :: u8) < 2" "(2 :: u8) < 4" by (simp_all add: one_shift_def)
  show ?thesis
    by (simp add: floppy_dma_initialize_def Let_def dma_consts dma_reset_def dma_mask_channel_def dma_reset_flipflop_def
      dma_set_address_def dma_set_count_def dma_set_read_def dma_set_mode_def dma_unmask_all_def o out8_def outport8_def dma_events_def)
qed

lemma two_bytes: "push_bit 8 (ucast (ucast (drop_bit 8 a) :: u8)) OR (((r AND 0xFF00) OR ucast (ucast (a :: u32) :: u8)) AND 0xFF) = (ucast a :: u16)"
proof -
  have m: "(x :: u16) AND 0xFF = take_bit 8 x" for x by (simp add: take_bit_eq_mask mask_eq_exp_minus_1)
  have "(0xFF00 :: u16) = push_bit 8 (mask 8)" by (simp add: mask_eq_exp_minus_1)
  then have b: "bit (0xFF00 :: u16) n \<longleftrightarrow> 8 \<le> n \<and> n < 16" for n by (simp only: bit_simps) auto
  show ?thesis by (rule bit_word_eqI) (auto simp: m b bit_simps)
qed

lemma dma_replay_events:
  "dma_replay (dma_events a n) c = \<lparr>flipflop = False, dma_addr = ucast a, dma_count = ucast n, dma_mode = 0x46, dma_masked = False, \<dots> = dma_chip.more c\<rparr>"
  by (cases c) (simp add: dma_events_def dma_write_def put_byte_def two_bytes bit_numeral_rec)

lemma dma_range:
  "(drop_bit 24 a \<noteq> 0 \<or> drop_bit 16 (len - 1) \<noteq> 0 \<or> drop_bit 16 ((a AND 0xffff) + (len - 1)) \<noteq> 0) \<longleftrightarrow>
   \<not> (0 < unat (len :: u32) \<and> unat len \<le> 65536 \<and> unat a < 16777216 \<and> unat a mod 65536 + unat len \<le> 65536)"
proof -
  have d: "drop_bit k x = 0 \<longleftrightarrow> unat x < 2 ^ k" for k and x :: u32
  proof -
    have "unat (drop_bit k x) = drop_bit k (unat x)" by (simp add: unsigned_drop_bit_eq take_bit_nat_eq_self unat_u32_lt)
    then have "unat (drop_bit k x) = unat x div 2 ^ k" by (simp only: drop_bit_eq_div)
    then show ?thesis by (simp add: unat_eq_0 [symmetric] div_eq_0_iff)
  qed
  have m: "unat (a AND 0xffff) = unat a mod 65536"
  proof -
    have "a AND 0xffff = take_bit 16 a" by (simp add: take_bit_eq_mask mask_eq_exp_minus_1)
    then show ?thesis by (simp only: unsigned_take_bit_eq) (simp add: take_bit_eq_mod)
  qed
  show ?thesis
  proof (cases "len = 0")
    case False
    then have l: "unat (len - 1) = unat len - 1" "0 < unat len" by (simp_all add: unat_minus_one unat_gt_0)
    show ?thesis
    proof (cases "unat len \<le> 65536")
      case True
      have "unat a mod 65536 < 65536" by simp
      then have "unat (a AND 0xffff) + unat (len - 1) < 4294967296" using True l m by linarith
      then have "unat ((a AND 0xffff) + (len - 1)) = unat a mod 65536 + (unat len - 1)" unfolding m [symmetric] l(1) [symmetric]
        by (rule unat_u32_add_le)
      then show ?thesis using l True by (auto simp: d)
    qed (use l in \<open>auto simp: d\<close>)
  qed (simp add: d)
qed

text \<open>
  C35: \<open>floppy_dma_initialize\<close> refuses exactly the buffers that are not a non-empty range below 16 MB inside one block
  of 64 KB, and then touches no port.  Otherwise it leaves channel 2 programmed with the low 16 bits of the
  address, the length less one and the mode for single transfers to memory, and unmasked; it never sets
  the page register that holds the address bits 16 to 23.
\<close>

theorem floppy_dma_initialize_programs:
  "let ok = 0 < unat len \<and> unat len \<le> 65536 \<and> unat a < 16777216 \<and> unat a mod 65536 + unat len \<le> 65536;
       r = floppy_dma_initialize a len s
   in if ok then fst r = 1 \<and> (\<exists>es. ports (snd r) = es @ ports s \<and> 
        dma_replay es c = c\<lparr>flipflop := False, dma_addr := ucast a, dma_count := ucast (len - 1), dma_mode := 0x46, dma_masked := False\<rparr> \<and>
        Out8 DMA_PAGE_CHAN2_ADDRBYTE2 v \<notin> set es)
      else r = (0, s)"
proof -
  have p: "Out8 DMA_PAGE_CHAN2_ADDRBYTE2 v \<notin> set (dma_events a (len - 1))" by (simp add: dma_events_def DMA_PAGE_CHAN2_ADDRBYTE2_def)
  show ?thesis
    unfolding Let_def dma_initialize_events dma_range
    by (auto simp: dma_replay_events p intro!: exI [of _ "dma_events a (len - 1)"])
qed

section \<open>Commands\<close>

text \<open>The bytes written to a port, first one first.\<close>

fun writes :: "u16 \<Rightarrow> io_event list \<Rightarrow> u8 list" where
  "writes p [] = []"
| "writes p (Out8 q v # es) = writes p es @ (if q = p then [v] else [])"
| "writes p (In8 q v # es) = writes p es"
| "writes p (Wait # es) = writes p es"
| "writes p (Ticks n # es) = writes p es"

lemma writes_append: "writes p (es @ fs) = writes p fs @ writes p es"
  by (induction p es rule: writes.induct) simp_all

text \<open>The status after \<open>k\<close> fruitless readings of it.\<close>

fun polls :: "nat \<Rightarrow> fdc \<Rightarrow> fdc" where
  "polls 0 s = s"
| "polls (Suc n) s = polls n (snd (in8 FLOPPY_MSR s))"

definition status_at :: "nat \<Rightarrow> fdc \<Rightarrow> u8" where
  "status_at n s = fst (in8 FLOPPY_MSR (polls n s))"

lemma send_loop_polls:
  "k < n \<Longrightarrow> status_at k s AND FLOPPY_MSR_MASK_DATAREG \<noteq> 0 \<Longrightarrow> \<forall>i < k. status_at i s AND FLOPPY_MSR_MASK_DATAREG = 0 \<Longrightarrow>
   send_loop n cmd s = out8 FLOPPY_FIFO cmd (polls (Suc k) s)"
proof (induction n arbitrary: k s)
  case (Suc n)
  show ?case
  proof (cases k)
    case 0
    then show ?thesis using Suc.prems by (simp add: floppy_read_status_def case_prod_unfold status_at_def Let_def del: in8_fields)
  next
    case (Suc k')
    let ?s = "snd (in8 FLOPPY_MSR s)"
    have "status_at 0 s AND FLOPPY_MSR_MASK_DATAREG = 0" using Suc Suc.prems(3) by blast
    moreover have "status_at i ?s = status_at (Suc i) s" for i by (simp add: status_at_def del: in8_fields)
    then have "send_loop n cmd ?s = out8 FLOPPY_FIFO cmd (polls (Suc k') ?s)" using Suc Suc.prems
      by (intro Suc.IH) auto
    ultimately show ?thesis using Suc
      by (simp add: floppy_read_status_def case_prod_unfold status_at_def Let_def del: in8_fields)
  qed
qed simp

lemma send_loop_dropped:
  "\<forall>i < n. status_at i s AND FLOPPY_MSR_MASK_DATAREG = 0 \<Longrightarrow> send_loop n cmd s = polls n s"
proof (induction n arbitrary: s)
  case (Suc n)
  have "status_at 0 s AND FLOPPY_MSR_MASK_DATAREG = 0" using Suc.prems by blast
  moreover have "status_at i (snd (in8 FLOPPY_MSR s)) = status_at (Suc i) s" for i by (simp add: status_at_def del: in8_fields)
  then have "send_loop n cmd (snd (in8 FLOPPY_MSR s)) = polls n (snd (in8 FLOPPY_MSR s))" using Suc.prems by (intro Suc.IH) auto
  ultimately show ?case by (simp add: floppy_read_status_def case_prod_unfold status_at_def Let_def del: in8_fields)
qed simp

lemma polls_writes: "writes p (ports (polls n s)) = writes p (ports s)"
  by (induction n arbitrary: s) simp_all

text \<open>
  \<open>floppy_send_command\<close> always returns.  It writes the byte to the data register exactly once if the controller
  reports itself ready at one of 500 readings of its status, and at the first such reading; otherwise the
  byte is dropped without notice.
\<close>

theorem floppy_send_command_polls:
  "writes FLOPPY_FIFO (ports (floppy_send_command cmd s)) = writes FLOPPY_FIFO (ports s) @
     (if \<exists>k < 500. status_at k s AND FLOPPY_MSR_MASK_DATAREG \<noteq> 0 then [cmd] else [])"
proof (cases "\<exists>k < 500. status_at k s AND FLOPPY_MSR_MASK_DATAREG \<noteq> 0")
  case True
  define k where "k = (LEAST k. status_at k s AND FLOPPY_MSR_MASK_DATAREG \<noteq> 0)"
  obtain j where j: "j < 500" "status_at j s AND FLOPPY_MSR_MASK_DATAREG \<noteq> 0" using True by blast
  have "status_at k s AND FLOPPY_MSR_MASK_DATAREG \<noteq> 0" "k \<le> j" unfolding k_def using j(2) by (rule LeastI, rule Least_le)
  moreover have "\<forall>i < k. status_at i s AND FLOPPY_MSR_MASK_DATAREG = 0" unfolding k_def using not_less_Least by blast
  ultimately have "floppy_send_command cmd s = out8 FLOPPY_FIFO cmd (polls (Suc k) s)"
    unfolding floppy_send_command_def using j(1) by (intro send_loop_polls) auto
  then show ?thesis using True by (simp add: polls_writes)
next
  case False
  then have "floppy_send_command cmd s = polls 500 s" unfolding floppy_send_command_def by (intro send_loop_dropped) blast
  then show ?thesis using False by (simp add: polls_writes)
qed

section \<open>Reading a sector\<close>

text \<open>The controller is always ready, and its interrupts arrive.\<close>

definition fdc_ready :: "fdc \<Rightarrow> bool" where
  "fdc_ready s \<longleftrightarrow> (\<forall>h. answers s h FLOPPY_MSR AND FLOPPY_MSR_MASK_DATAREG \<noteq> 0)"

text \<open>The cylinder the controller reports: the second byte of its answer to a check of the interrupt status.\<close>

definition reports :: "fdc \<Rightarrow> (u8 \<Rightarrow> bool) \<Rightarrow> bool" where
  "reports s P \<longleftrightarrow> (\<forall>x st0 y h. P (answers s (In8 FLOPPY_MSR x # In8 FLOPPY_FIFO st0 # In8 FLOPPY_MSR y # Out8 FLOPPY_FIFO FDC_CMD_CHECK_INT # h) FLOPPY_FIFO))"

text \<open>From \<open>s\<close> to \<open>s'\<close> the driver writes \<open>bs\<close> to the data register and \<open>ds\<close> to the output register.\<close>

definition sends :: "fdc \<Rightarrow> u8 list \<Rightarrow> u8 list \<Rightarrow> fdc \<Rightarrow> bool" where
  "sends s bs ds s' \<longleftrightarrow> writes FLOPPY_FIFO (ports s') = writes FLOPPY_FIFO (ports s) @ bs \<and> writes FLOPPY_DOR (ports s') = writes FLOPPY_DOR (ports s) @ ds \<and>
     answers s' = answers s \<and> DMA_BUFFER (world s') = DMA_BUFFER (world s) \<and> drive_of s' = drive_of s"

lemma sends_refl: "sends s [] [] s"
  by (simp add: sends_def)

lemma sends_trans: "sends s bs ds s' \<Longrightarrow> sends s' bs' ds' s'' \<Longrightarrow> sends s (bs @ bs') (ds @ ds') s''"
  by (simp add: sends_def)

lemma sends_ready: "sends s bs ds s' \<Longrightarrow> fdc_ready s' = fdc_ready s \<and> reports s' P = reports s P"
  by (simp add: sends_def fdc_ready_def reports_def)

lemma world_out8 [simp]: "world (out8 p v s) = world s"
  by (simp add: out8_def)

lemma world_in8 [simp]: "world (snd (in8 p s)) = world s"
  by (simp add: in8_def Let_def case_prod_unfold)

lemma send_ready:
  assumes "fdc_ready s"
  shows "floppy_send_command cmd s = out8 FLOPPY_FIFO cmd (snd (in8 FLOPPY_MSR s))"
proof -
  have "(500 :: nat) = Suc 499" by simp
  then show ?thesis using assms
    by (simp only: floppy_send_command_def send_loop.simps) (simp add: floppy_read_status_def fdc_ready_def case_prod_unfold Let_def)
qed

lemma data_ready:
  assumes "fdc_ready s"
  shows "floppy_read_data s = in8 FLOPPY_FIFO (snd (in8 FLOPPY_MSR s))"
proof -
  have "(500 :: nat) = Suc 499" by simp
  then show ?thesis using assms
    by (simp only: floppy_read_data_def data_loop.simps) (simp add: floppy_read_status_def fdc_ready_def case_prod_unfold Let_def)
qed

lemma port_neq: "FLOPPY_FIFO \<noteq> FLOPPY_DOR" "FLOPPY_DOR \<noteq> FLOPPY_FIFO" "FLOPPY_CTRL \<noteq> FLOPPY_FIFO" "FLOPPY_CTRL \<noteq> FLOPPY_DOR"
  by (simp_all add: FLOPPY_FIFO_def FLOPPY_DOR_def FLOPPY_CTRL_def)

lemma send_sends: "fdc_ready s \<Longrightarrow> sends s [cmd] [] (floppy_send_command cmd s)"
  by (simp add: send_ready sends_def port_neq)

lemma data_sends: "fdc_ready s \<Longrightarrow> sends s [] [] (snd (floppy_read_data s))"
  by (simp add: data_ready sends_def)

lemma check_int_sends:
  assumes "fdc_ready s" "reports s P"
  shows "sends s [FDC_CMD_CHECK_INT] [] (snd (floppy_check_int s)) \<and> (\<exists>v. P v \<and> snd (fst (floppy_check_int s)) = ucast v)"
proof -
  let ?s1 = "floppy_send_command FDC_CMD_CHECK_INT s"
  let ?s2 = "snd (floppy_read_data ?s1)"
  have 1: "sends s [FDC_CMD_CHECK_INT] [] ?s1" using assms by (intro send_sends)
  then have r1: "fdc_ready ?s1" using sends_ready assms(1) by blast
  have 2: "sends ?s1 [] [] ?s2" using r1 by (intro data_sends)
  then have r2: "fdc_ready ?s2" using sends_ready r1 by blast
  have 3: "sends ?s2 [] [] (snd (floppy_read_data ?s2))" using r2 by (intro data_sends)
  have e: "floppy_check_int s = ((ucast (fst (floppy_read_data ?s1)), ucast (fst (floppy_read_data ?s2))), snd (floppy_read_data ?s2))"
    by (simp add: floppy_check_int_def case_prod_unfold Let_def)
  have "P (fst (floppy_read_data ?s2))"
    using assms r1 r2 by (simp add: data_ready send_ready reports_def)
  then show ?thesis using e sends_trans [OF sends_trans [OF 1 2] 3] by auto
qed

lemma wait_sends:
  assumes "arrives (ports s)"
  shows "\<exists>s'. floppy_wait_irq arrives s = Some s' \<and> sends s [] [] s'"
  using assms by (simp add: floppy_wait_irq_def floppy_irq_def sends_def)

lemma motor_sends:
  assumes "drive_of s < 4"
  shows "sends s [] [if b = 0 then 4 else drive_of s OR push_bit (4 + unat (drive_of s)) 1 OR 12] (floppy_control_motor b s)"
proof -
  have "drive_of s \<in> {0, 1, 2, 3}"
  proof -
    have "unat (drive_of s) < 4" using assms by (simp add: word_less_nat_alt)
    then have "unat (drive_of s) \<in> {0, 1, 2, 3}" by auto
    then have "(of_nat (unat (drive_of s)) :: u8) \<in> {0, 1, 2, 3}" by (elim insertE) simp_all
    then show ?thesis by simp
  qed
  moreover have "\<not> 3 < drive_of s" using assms by (simp add: word_less_nat_alt)
  ultimately show ?thesis
    by (auto simp: floppy_control_motor_def sleep_call_def floppy_write_dor_def sends_def port_neq FLOPPY_DOR_MASK_DRIVE0_MOTOR_def
      FLOPPY_DOR_MASK_DRIVE1_MOTOR_def FLOPPY_DOR_MASK_DRIVE2_MOTOR_def FLOPPY_DOR_MASK_DRIVE3_MOTOR_def FLOPPY_DOR_MASK_RESET_def FLOPPY_DOR_MASK_DMA_def)
qed

lemma writes_dma:
  assumes "\<forall>e \<in> set es. \<exists>p v. e = Out8 p v \<and> p < 0x100"
  shows "writes FLOPPY_FIFO es = [] \<and> writes FLOPPY_DOR es = []"
  using assms by (induction es) (auto simp: FLOPPY_FIFO_def FLOPPY_DOR_def word_less_nat_alt)

lemma set_read_events:
  "dma_set_read FDC_DMA_CHANNEL s = s\<lparr>mbus := (mbus s)\<lparr>trace := [Out8 0xDC 0xFF, Out8 0x0B 0x46, Out8 0x0A 2] @ ports s\<rparr>\<rparr>"
proof -
  have o: "one_shift 1 = 2" "(2 :: u8) \<le> 4" "(2 :: u8) < 4" by (simp_all add: one_shift_def)
  show ?thesis
    by (simp add: Let_def dma_consts dma_mask_channel_def dma_set_read_def dma_set_mode_def dma_unmask_all_def o out8_def outport8_def)
qed

lemma dma_sends: "sends s [] [] (dma_set_read FDC_DMA_CHANNEL (snd (floppy_dma_initialize a n s)))"
proof -
  have "writes FLOPPY_FIFO (dma_events a (n - 1)) = [] \<and> writes FLOPPY_DOR (dma_events a (n - 1)) = []"
    by (rule writes_dma) (simp add: dma_events_def word_less_nat_alt)
  moreover have "writes FLOPPY_FIFO [Out8 0xDC 0xFF, Out8 0x0B 0x46, Out8 0x0A 2] = [] \<and> writes FLOPPY_DOR [Out8 0xDC 0xFF, Out8 0x0B 0x46, Out8 0x0A 2] = []"
    by (rule writes_dma) (simp add: word_less_nat_alt)
  ultimately show ?thesis
    by (simp add: set_read_events dma_initialize_events sends_def writes_append)
qed

definition seek_bytes :: "u32 \<Rightarrow> u32 \<Rightarrow> u8 \<Rightarrow> u8 list" where
  "seek_bytes cyl head drive = [FDC_CMD_SEEK, ucast (push_bit 2 head OR ucast drive), ucast cyl, FDC_CMD_CHECK_INT]"

lemma seek_turn:
  assumes "fdc_ready s" "reports s P" "\<forall>h. arrives h"
  shows "\<exists>s' v. sends s (seek_bytes cyl head (drive_of s)) [] s' \<and> P v \<and>
    seek_loop arrives (Suc n) cyl head s = (if ucast v = cyl then Some (0, s') else seek_loop arrives n cyl head s')"
proof -
  let ?b = "ucast (push_bit 2 head OR ucast (drive_of s)) :: u8"
  let ?s1 = "floppy_send_command FDC_CMD_SEEK s"
  let ?s2 = "floppy_send_command ?b ?s1"
  let ?s3 = "floppy_send_command (ucast cyl) ?s2"
  have 1: "sends s [FDC_CMD_SEEK] [] ?s1" using assms by (intro send_sends)
  have 2: "sends ?s1 [?b] [] ?s2" using 1 sends_ready assms(1) by (intro send_sends) blast
  have 3: "sends ?s2 [ucast cyl] [] ?s3" using 1 2 sends_ready assms(1) by (intro send_sends) blast
  obtain s4 where w: "floppy_wait_irq arrives ?s3 = Some s4" and 4: "sends ?s3 [] [] s4" using wait_sends assms(3) by blast
  have 14: "sends s [FDC_CMD_SEEK, ?b, ucast cyl] [] s4" using sends_trans [OF sends_trans [OF sends_trans [OF 1 2] 3] 4] by simp
  then have "fdc_ready s4" "reports s4 P" using sends_ready assms(1,2) by blast+
  then obtain v where 5: "sends s4 [FDC_CMD_CHECK_INT] [] (snd (floppy_check_int s4))" and v: "P v" "snd (fst (floppy_check_int s4)) = ucast v"
    using check_int_sends by blast
  have "sends s (seek_bytes cyl head (drive_of s)) [] (snd (floppy_check_int s4))" using sends_trans [OF 14 5] by (simp add: seek_bytes_def)
  moreover have "drive_of ?s1 = drive_of s" using 1 by (simp add: sends_def)
  ultimately show ?thesis using w v by (intro exI [of _ "snd (floppy_check_int s4)"] exI [of _ v]) (simp add: case_prod_unfold Let_def)
qed

lemma seek_reached:
  assumes "fdc_ready s" "reports s (\<lambda>v. ucast v = cyl)" "\<forall>h. arrives h" "drive_of s < 4"
  shows "\<exists>s'. floppy_seek arrives cyl head s = Some (0, s') \<and> sends s (seek_bytes cyl head (drive_of s)) [] s'"
proof -
  have "(10 :: nat) = Suc 9" by simp
  then show ?thesis using seek_turn [OF assms(1-3), of cyl head 9] assms(4) unfolding floppy_seek_def by auto
qed

lemma seek_missed_loop:
  assumes "fdc_ready s" "reports s (\<lambda>v. ucast v \<noteq> cyl)" "\<forall>h. arrives h"
  shows "\<exists>s'. seek_loop arrives n cyl head s = Some (-1, s') \<and> sends s (concat (replicate n (seek_bytes cyl head (drive_of s)))) [] s'"
  using assms(1,2)
proof (induction n arbitrary: s)
  case 0
  then show ?case by (simp add: sends_refl)
next
  case (Suc n)
  obtain s' where s': "sends s (seek_bytes cyl head (drive_of s)) [] s'" "seek_loop arrives (Suc n) cyl head s = seek_loop arrives n cyl head s'"
    using seek_turn [OF Suc.prems assms(3), of cyl head n] by auto
  have "fdc_ready s'" "reports s' (\<lambda>v. ucast v \<noteq> cyl)" using s'(1) sends_ready Suc.prems by blast+
  then obtain s'' where "seek_loop arrives n cyl head s' = Some (-1, s'')" "sends s' (concat (replicate n (seek_bytes cyl head (drive_of s')))) [] s''"
    using Suc.IH by blast
  moreover have "drive_of s' = drive_of s" using s'(1) by (simp add: sends_def)
  ultimately show ?case using s' sends_trans [OF s'(1)] by (auto simp del: seek_loop.simps)
qed

lemma reads_sends: "fdc_ready s \<Longrightarrow> sends s [] [] (((\<lambda>s. snd (floppy_read_data s)) ^^ n) s)"
proof (induction n)
  case (Suc n)
  then show ?case using sends_trans [OF Suc.IH [OF Suc.prems] data_sends] sends_ready [OF Suc.IH [OF Suc.prems]] by simp
qed (simp add: sends_refl)

definition read_bytes :: "u8 \<Rightarrow> u8 \<Rightarrow> u8 \<Rightarrow> u8 \<Rightarrow> u8 list" where
  "read_bytes head track sector drive = [0xE6, push_bit 2 head OR drive, track, head, sector, 2,
     if 18 \<le> uint sector + 1 then 18 else sector + 1, 27, 0xFF, FDC_CMD_CHECK_INT]"

fun send_all :: "u8 list \<Rightarrow> fdc \<Rightarrow> fdc" where
  "send_all [] s = s"
| "send_all (b # bs) s = send_all bs (floppy_send_command b s)"

lemma send_all_sends: "fdc_ready s \<Longrightarrow> sends s bs [] (send_all bs s)"
proof (induction bs arbitrary: s)
  case (Cons b bs)
  have 1: "sends s [b] [] (floppy_send_command b s)" using Cons.prems by (rule send_sends)
  then have "sends (floppy_send_command b s) bs [] (send_all bs (floppy_send_command b s))"
    using Cons.prems sends_ready by (intro Cons.IH) blast
  then show ?case using sends_trans [OF 1] by fastforce
qed (simp add: sends_refl)

lemma read_sector_sends:
  assumes "fdc_ready s" "\<forall>h. arrives h"
  shows "\<exists>s'. floppy_read_sector_imp arrives head track sector s = Some s' \<and> sends s (read_bytes head track sector (drive_of s)) [] s'"
proof -
  let ?s1 = "dma_set_read FDC_DMA_CHANNEL (snd (floppy_dma_initialize (DMA_BUFFER (world s)) 512 s))"
  let ?bs = "[0xE6, push_bit 2 head OR drive_of s, track, head, sector, 2, if 18 \<le> uint sector + 1 then 18 else sector + 1, 27, 0xFF]"
  have 1: "sends s [] [] ?s1" by (rule dma_sends)
  then have r1: "fdc_ready ?s1" using sends_ready assms(1) by blast
  have 2: "sends ?s1 ?bs [] (send_all ?bs ?s1)" using r1 by (rule send_all_sends)
  then have r2: "fdc_ready (send_all ?bs ?s1)" using sends_ready r1 by blast
  obtain s3 where w: "floppy_wait_irq arrives (send_all ?bs ?s1) = Some s3" and 3: "sends (send_all ?bs ?s1) [] [] s3"
    using wait_sends assms(2) by blast
  then have r3: "fdc_ready s3" using sends_ready r2 by blast
  let ?s4 = "((\<lambda>s. snd (floppy_read_data s)) ^^ 7) s3"
  have 4: "sends s3 [] [] ?s4" using r3 by (rule reads_sends)
  then have r4: "fdc_ready ?s4" using sends_ready r3 by blast
  have 5: "sends ?s4 [FDC_CMD_CHECK_INT] [] (snd (floppy_check_int ?s4))"
    using check_int_sends [OF r4, of "\<lambda>_. True"] by (simp add: reports_def)
  have d: "drive_of (floppy_send_command 0xE6 ?s1) = drive_of s"
    using 1 send_sends [OF r1, of "0xE6"] by (simp add: sends_def)
  have c: "FDC_CMD_READ_SECT OR FDC_CMD_EXT_MULTITRACK OR FDC_CMD_EXT_SKIP OR FDC_CMD_EXT_DENSITY = 0xE6"
    by (simp add: FDC_CMD_READ_SECT_def FDC_CMD_EXT_MULTITRACK_def FDC_CMD_EXT_SKIP_def FDC_CMD_EXT_DENSITY_def)
  have "floppy_read_sector_imp arrives head track sector s = Some (snd (floppy_check_int ?s4))"
    using w d unfolding floppy_read_sector_imp_def c
    by (cases "17 \<le> uint sector") (simp_all add: Let_def case_prod_unfold FLOPPY_SECTOR_DTL_512_def FLOPPY_SECTORS_PER_TRACK_def FLOPPY_GAP3_LENGTH_3_5_def)
  moreover have "sends s (read_bytes head track sector (drive_of s)) [] (snd (floppy_check_int ?s4))"
    using sends_trans [OF 1 sends_trans [OF 2 sends_trans [OF 3 sends_trans [OF 4 5]]]] by (simp add: read_bytes_def)
  ultimately show ?thesis by blast
qed

text \<open>The drive's motor and the drive are selected in the output register, with reset off and DMA on.\<close>

definition motor_on :: "u8 \<Rightarrow> u8" where
  "motor_on drive = drive OR push_bit (4 + unat drive) 1 OR 12"

text \<open>
  C33: with a controller that is ready and reaches the cylinder, \<open>floppy_read\<close> returns the DMA buffer after writing exactly these
  bytes to it: the motor of the current drive on, seek to the track of the sector, check, read the sector with its
  head, track and number, check, and the motor off.
\<close>

theorem floppy_read_commands:
  assumes "fdc_ready s" and "\<forall>h. arrives h" and "drive_of s < 4" and "floppy_convert lba = (head, track, sector)"
    and "reports s (\<lambda>v. ucast v = (of_int track :: u32))"
  shows "\<exists>s'. floppy_read arrives lba s = Some (DMA_BUFFER (world s), s') \<and>
    writes FLOPPY_FIFO (ports s') = writes FLOPPY_FIFO (ports s) @ seek_bytes (of_int track) (of_int head) (drive_of s) @
      read_bytes (of_int head) (of_int track) (of_int sector) (drive_of s) \<and>
    writes FLOPPY_DOR (ports s') = writes FLOPPY_DOR (ports s) @ [motor_on (drive_of s), 4]"
proof -
  let ?s1 = "floppy_control_motor 1 s"
  have 1: "sends s [] [motor_on (drive_of s)] ?s1" using motor_sends [OF assms(3), of 1] by (simp add: motor_on_def)
  have r1: "fdc_ready ?s1" "reports ?s1 (\<lambda>v. ucast v = (of_int track :: u32))" "drive_of ?s1 = drive_of s" "drive_of ?s1 < 4"
    using sends_ready [OF 1] assms(1,3,5) 1 by (auto simp: sends_def)
  obtain s2 where k: "floppy_seek arrives (of_int track) (of_int head) ?s1 = Some (0, s2)"
    and 2: "sends ?s1 (seek_bytes (of_int track) (of_int head) (drive_of ?s1)) [] s2"
    using seek_reached [OF r1(1,2) assms(2) r1(4)] by blast
  have r2: "fdc_ready s2" "drive_of s2 = drive_of s" using 2 sends_ready [OF 2] r1 by (auto simp: sends_def)
  obtain s3 where r: "floppy_read_sector_imp arrives (of_int head) (of_int track) (of_int sector) s2 = Some s3"
    and 3: "sends s2 (read_bytes (of_int head) (of_int track) (of_int sector) (drive_of s2)) [] s3"
    using read_sector_sends [OF r2(1) assms(2)] by blast
  have "drive_of s3 < 4" using 3 r2 assms(3) by (simp add: sends_def)
  then have 4: "sends s3 [] [4] (floppy_control_motor 0 s3)" using motor_sends [of s3 0] by simp
  have "\<not> 4 \<le> drive_of s" using assms(3) by simp
  then have "floppy_read arrives lba s = Some (DMA_BUFFER (world (floppy_control_motor 0 s3)), floppy_control_motor 0 s3)"
    using k r assms(4) by (simp add: floppy_read_def Let_def)
  then show ?thesis using sends_trans [OF 1 sends_trans [OF 2 sends_trans [OF 3 4]]] r1(3) r2(2) by (simp add: sends_def)
qed

text \<open>
  when the controller never reports the cylinder, \<open>floppy_read\<close> gives up after ten seeks and returns the null
  pointer; it leaves the motor running.
\<close>

theorem floppy_read_gives_up:
  assumes "fdc_ready s" and "\<forall>h. arrives h" and "drive_of s < 4" and "floppy_convert lba = (head, track, sector)"
    and "reports s (\<lambda>v. ucast v \<noteq> (of_int track :: u32))"
  shows "\<exists>s'. floppy_read arrives lba s = Some (0, s') \<and>
    writes FLOPPY_FIFO (ports s') = writes FLOPPY_FIFO (ports s) @ concat (replicate 10 (seek_bytes (of_int track) (of_int head) (drive_of s))) \<and>
    writes FLOPPY_DOR (ports s') = writes FLOPPY_DOR (ports s) @ [motor_on (drive_of s)]"
proof -
  let ?s1 = "floppy_control_motor 1 s"
  have 1: "sends s [] [motor_on (drive_of s)] ?s1" using motor_sends [OF assms(3), of 1] by (simp add: motor_on_def)
  have r1: "fdc_ready ?s1" "reports ?s1 (\<lambda>v. ucast v \<noteq> (of_int track :: u32))" "drive_of ?s1 = drive_of s"
    using sends_ready [OF 1] assms(1,5) 1 by (auto simp: sends_def)
  obtain s2 where k: "seek_loop arrives 10 (of_int track) (of_int head) ?s1 = Some (-1, s2)"
    and 2: "sends ?s1 (concat (replicate 10 (seek_bytes (of_int track) (of_int head) (drive_of ?s1)))) [] s2"
    using seek_missed_loop [OF r1(1,2) assms(2)] by blast
  have "\<not> 4 \<le> drive_of s" "\<not> 4 \<le> drive_of ?s1" using assms(3) r1(3) by simp_all
  then have "floppy_read arrives lba s = Some (0, s2)" using k assms(4) by (simp add: floppy_read_def floppy_seek_def Let_def)
  then show ?thesis using sends_trans [OF 1 2] r1(3) by (simp add: sends_def)
qed

text \<open>
  \<open>floppy_drive_data\<close> tells a ready controller 0 as the head load time and DMA mode whenever the load time
  is not a multiple of 2147483648, whatever it was asked for.
\<close>

theorem floppy_drive_data_loses:
  assumes "fdc_ready s" and "push_bit 1 loadt \<noteq> 0"
  shows "writes FLOPPY_FIFO (ports (floppy_drive_data stepr loadt unloadt dma s)) = writes FLOPPY_FIFO (ports s) @
    [FDC_CMD_SPECIFY, ucast (push_bit 4 (stepr AND 0xf) OR (unloadt AND 0xf)), 0]"
proof -
  have "push_bit 1 loadt OR x \<noteq> 0" for x using assms(2) by (simp add: or_eq_0_iff)
  then have "floppy_drive_data stepr loadt unloadt dma s = send_all [FDC_CMD_SPECIFY, ucast (push_bit 4 (stepr AND 0xf) OR (unloadt AND 0xf)), 0] s"
    by (simp add: floppy_drive_data_def Let_def)
  then show ?thesis using send_all_sends [OF assms(1), of "[FDC_CMD_SPECIFY, ucast (push_bit 4 (stepr AND 0xf) OR (unloadt AND 0xf)), 0]"]
    unfolding sends_def by argo
qed

section \<open>A sample controller\<close>

text \<open>Always ready; every data byte is \<open>cyl\<close>.\<close>

definition sample_fdc :: "u8 \<Rightarrow> fdc" where
  "sample_fdc cyl = \<lparr>mbus = \<lparr>device = (\<lambda>h p. if p = 0x3F4 then 0x80 else cyl), trace = []\<rparr>, klog = [], irq_routines = replicate 16 0,
     isr_routines = replicate 32 0, timer_ticks = 0, printed = [], halted = False,
     world = \<lparr>DMA_BUFFER = 0x9000, CurrentDrive = 1, FloppyDiskIRQ = 0\<rparr>\<rparr>"

lemma sample_fdc_facts:
  "fdc_ready (sample_fdc c)" "reports (sample_fdc c) (\<lambda>v. v = c)" "drive_of (sample_fdc c) = 1" "ports (sample_fdc c) = []"
  "DMA_BUFFER (world (sample_fdc c)) = 0x9000"
  by (simp_all add: fdc_ready_def reports_def sample_fdc_def FLOPPY_MSR_def FLOPPY_FIFO_def FLOPPY_MSR_MASK_DATAREG_def)

lemma sample_convert: "floppy_convert 40 = (0, 1, 5)"
  by (simp add: floppy_convert_def FLOPPY_SECTORS_PER_TRACK_def signed_divide_int_def signed_modulo_int_def)

theorem floppy_read_commands_witness:
  "\<exists>s'. floppy_read (\<lambda>_. True) 40 (sample_fdc 1) = Some (0x9000, s') \<and>
    writes FLOPPY_FIFO (ports s') = [0xF, 1, 1, 8, 0xE6, 1, 1, 0, 5, 2, 6, 27, 0xFF, 8] \<and> writes FLOPPY_DOR (ports s') = [0x2D, 4]"
  using floppy_read_commands [of "sample_fdc 1" "\<lambda>_. True" 40 0 1 5] sample_fdc_facts [of 1]
  by (simp add: sample_convert reports_def seek_bytes_def read_bytes_def motor_on_def FDC_CMD_SEEK_def FDC_CMD_CHECK_INT_def)

theorem floppy_read_gives_up_witness:
  "\<exists>s'. floppy_read (\<lambda>_. True) 40 (sample_fdc 7) = Some (0, s') \<and>
    writes FLOPPY_FIFO (ports s') = concat (replicate 10 [0xF, 1, 1, 8]) \<and> writes FLOPPY_DOR (ports s') = [0x2D]"
  using floppy_read_gives_up [of "sample_fdc 7" "\<lambda>_. True" 40 0 1 5] sample_fdc_facts [of 7]
  by (simp add: sample_convert reports_def seek_bytes_def motor_on_def FDC_CMD_SEEK_def FDC_CMD_CHECK_INT_def)

theorem floppy_drive_data_loses_witness:
  "writes FLOPPY_FIFO (ports (floppy_drive_data 13 1 0xf 1 (sample_fdc 0))) = [3, 0xDF, 0]"
  using floppy_drive_data_loses [of "sample_fdc 0" 1 13 "0xf" 1] by (simp add: sample_fdc_facts FDC_CMD_SPECIFY_def)

end
