(* ===== verification/Portio_Wide.thy ===== *)
theory Portio_Wide
  imports Prelude
begin

text \<open>
  The 16- and 32-bit accesses and the string accesses of \<open>kernel/include/kernel/portio.h\<close>, which the kernel offers but does not use.  They have a
  bus of their own, whose devices are a parameter: \<open>wide_device h port\<close> is the answer to a read of \<open>port\<close> after the accesses \<open>h\<close>, of
  which a 16-bit access takes the low half.  The string instructions go up in memory, the direction flag being clear.
\<close>

datatype wide_event = Out16 u16 u16 | Out32 u16 u32 | In16 u16 u16 | In32 u16 u32

record wide_bus =
  wide_device :: "wide_event list \<Rightarrow> u16 \<Rightarrow> u32"
  wide_trace :: "wide_event list"

definition outport16 :: "u16 \<Rightarrow> u16 \<Rightarrow> wide_bus \<Rightarrow> u16 \<times> wide_bus" where
  "outport16 port v b = (v, b\<lparr>wide_trace := Out16 port v # wide_trace b\<rparr>)"

definition outport32 :: "u16 \<Rightarrow> u32 \<Rightarrow> wide_bus \<Rightarrow> u32 \<times> wide_bus" where
  "outport32 port v b = (v, b\<lparr>wide_trace := Out32 port v # wide_trace b\<rparr>)"

definition inport16 :: "u16 \<Rightarrow> wide_bus \<Rightarrow> u16 \<times> wide_bus" where
  "inport16 port b = (let v = ucast (wide_device b (wide_trace b) port) in (v, b\<lparr>wide_trace := In16 port v # wide_trace b\<rparr>))"

definition inport32 :: "u16 \<Rightarrow> wide_bus \<Rightarrow> u32 \<times> wide_bus" where
  "inport32 port b = (let v = wide_device b (wide_trace b) port in (v, b\<lparr>wide_trace := In32 port v # wide_trace b\<rparr>))"

text \<open>\<open>rep\<close> runs until the count is 0; the count is one of words, not of bytes.\<close>

function outportsl :: "u16 \<Rightarrow> u32 \<Rightarrow> u32 \<Rightarrow> mem \<Rightarrow> wide_bus \<Rightarrow> wide_bus" where
  "outportsl port data sz m b =
     (if sz = 0 then b else outportsl port (data + 2) (sz - 1) m (snd (outport16 port (load16 m data) b)))"
  by pat_completeness auto
termination by (relation "measure (\<lambda>(_, _, sz, _, _). unat sz)") (auto simp: loop_down_dec)

function inportsl :: "u16 \<Rightarrow> u32 \<Rightarrow> u32 \<Rightarrow> mem \<Rightarrow> wide_bus \<Rightarrow> mem \<times> wide_bus" where
  "inportsl port data sz m b =
     (if sz = 0 then (m, b)
      else let (v, b) = inport16 port b in inportsl port (data + 2) (sz - 1) (store16 m data v) b)"
  by pat_completeness auto
termination by (relation "measure (\<lambda>(_, _, sz, _, _). unat sz)") (auto simp: loop_down_dec)

declare outportsl.simps [simp del] inportsl.simps [simp del]

section \<open>The string accesses\<close>

text \<open>
  \<open>outportsl\<close> writes the \<open>sz\<close> words from \<open>data\<close> on to the port, in their order.
\<close>

lemma outportsl_writes:
  "outportsl port data sz m b =
    b\<lparr>wide_trace := rev (map (\<lambda>i. Out16 port (load16 m (data + 2 * of_nat i))) [0..<unat sz]) @ wide_trace b\<rparr>"
proof (induction port data sz m b rule: outportsl.induct)
  case (1 port data sz m b)
  show ?case
  proof (cases "sz = 0")
    case True
    then show ?thesis by (subst outportsl.simps) simp
  next
    case False
    then have "unat sz = Suc (unat (sz - 1))" by (simp add: unat_minus_one unat_gt_0)
    then have "[0..<unat sz] = 0 # map Suc [0..<unat (sz - 1)]" by (simp add: upt_conv_Cons map_Suc_upt)
    then show ?thesis using 1 False by (subst outportsl.simps) (simp add: outport16_def comp_def algebra_simps)
  qed
qed

text \<open>What the devices answer to the next \<open>n\<close> readings of 16 bits.\<close>

fun answers16 :: "u16 \<Rightarrow> nat \<Rightarrow> wide_bus \<Rightarrow> u16 list" where
  "answers16 port 0 b = []"
| "answers16 port (Suc n) b = (let (v, b) = inport16 port b in v # answers16 port n b)"

text \<open>
  \<open>inportsl\<close> stores the next \<open>sz\<close> answers from \<open>data\<close> on, in their order, and nothing else.
\<close>

lemma inportsl_outside:
  "unat sz \<le> 0x7FFFFFFF \<Longrightarrow> \<not> in_rng data (2 * unat sz) x \<Longrightarrow> fst (inportsl port data sz m b) x = m x"
proof (induction port data sz m b rule: inportsl.induct)
  case (1 port data sz m b)
  show ?case
  proof (cases "sz = 0")
    case True
    then show ?thesis by (subst inportsl.simps) simp
  next
    case False
    then have n: "unat sz = Suc (unat (sz - 1))" by (simp add: unat_minus_one unat_gt_0)
    obtain v b' where v: "inport16 port b = (v, b')" by fastforce
    have "\<not> in_rng (data + 2) (2 * unat (sz - 1)) x"
      using 1(3) in_rng_shift [of data 2 "2 * unat (sz - 1)" x "2 * unat sz"] 1(2) n by auto
    moreover have "\<not> in_rng data 2 x" using 1(3) in_rng_sub [of data 2 x "2 * unat sz"] n by auto
    ultimately show ?thesis using 1(1) [OF False v [symmetric]] 1(2) False v n
      by (subst inportsl.simps) (simp add: store16_outside)
  qed
qed

lemma inportsl_stores:
  assumes "unat sz \<le> 0x7FFFFFFF" "i < unat sz"
  shows "load16 (fst (inportsl port data sz m b)) (data + 2 * of_nat i) = answers16 port (unat sz) b ! i"
  using assms
proof (induction port data sz m b arbitrary: i rule: inportsl.induct)
  case (1 port data sz m b)
  then have z: "sz \<noteq> 0" by auto
  then have n: "unat sz = Suc (unat (sz - 1))" by (simp add: unat_minus_one unat_gt_0)
  obtain v b' where v: "inport16 port b = (v, b')" by fastforce
  have e: "fst (inportsl port data sz m b) = fst (inportsl port (data + 2) (sz - 1) (store16 m data v) b')"
    using z v by (subst inportsl.simps) simp
  show ?case
  proof (cases i)
    case 0
    have "fst (inportsl port (data + 2) (sz - 1) (store16 m data v) b') x = store16 m data v x" if "in_rng data 2 x" for x
    proof (rule inportsl_outside)
      have "disj data 2 (data + 2) (2 * unat (sz - 1))" using "1.prems"(1) n by (simp add: disj_def)
      then show "\<not> in_rng (data + 2) (2 * unat (sz - 1)) x" using disjD that by blast
    qed (use "1.prems"(1) n in simp)
    then have "load16 (fst (inportsl port data sz m b)) data = load16 (store16 m data v) data" unfolding e by (rule load16_cong)
    then show ?thesis using 0 n v by simp
  next
    case (Suc j)
    then have "load16 (fst (inportsl port (data + 2) (sz - 1) (store16 m data v) b')) (data + 2 + 2 * of_nat j) = answers16 port (unat (sz - 1)) b' ! j"
      using "1.IH" [OF z v [symmetric] refl, of j] "1.prems" n by simp
    then show ?thesis unfolding e using Suc n v by (simp add: algebra_simps)
  qed
qed

end
