(* ===== verification/Spec2Isabelle.thy ===== *)
theory Spec2Isabelle
  imports Kernel_Main Keyboard_Kernel Initrd_Mount Klog Arrays Floppy Portio_Wide
begin

text \<open>
  CometOS is a kernel for the i386 in C: a memory manager with paging and a dynamic allocator, a text console with formatted
  output and a log, interrupt handling with the drivers of the timer, the clock, the keyboard and the floppy controller, a
  virtual file system with a ram disk in the ext2 format, and the small C library all of it links against.  This
  development models the C sources under \<open>src/kernel\<close> and \<open>src/libc\<close> function by function.

  \<^bold>\<open>How the program is modelled.\<close>
  Integers are words of the width the code declares, so every sum wraps as it does in the program.  Memory is a function
  from 32-bit addresses to bytes (\<open>Prelude\<close>); structures the code reaches through pointers (boundary tags, bitmaps, page
  tables, heaps, list nodes, files, directory entries, strings) are read and written in it at their C offsets, so aliasing
  is part of the model.  Globals are fields of a record per component, and an operation takes and returns that record.  A
  loop that need not end is a \<open>partial_function (option)\<close>; \<open>None\<close> stands for a loop that never ends, and in the theories on
  formatted output, interrupts, the floppy driver and the keyboard also for an access outside an array or a call through a
  null pointer.  No fuel is used.  Loops whose bound is visible are total functions with a termination proof.  Devices are
  not part of the program: a \<open>bus\<close> (\<open>Portio\<close>) answers each read from the accesses made so far and records every access, so
  statements about drivers are statements about the recorded accesses.  Further parameters are the effect of a call through
  a pointer to an interrupt routine (\<open>call\<close>), the interrupts that arrive while a driver waits (\<open>arrives\<close>), the addresses of
  the assembly entry points, and the hooks that hand pages to the allocator.

  \<^bold>\<open>Memory.\<close>
  \<open>Libc_Mem\<close> and \<open>Libc_Str\<close> hold \<open>libc/string\<close> and \<open>libc/stdlib/find.c\<close>; the lemmas give the memory after each call in closed
  form, the results of the searches and comparisons, and the tokens that \<open>strtok_r\<close> produces.
  \<open>Liballoc\<close> is \<open>mem/liballoc.c\<close> over the byte memory.  \<open>Liballoc_Tags\<close> reads the tags as a typed heap, \<open>Liballoc_Tiling\<close> and
  \<open>Liballoc_Lists\<close> hold the geometry of the blocks and the free lists, \<open>Liballoc_Inv\<close> the invariant and the abstract steps,
  \<open>Liballoc_Steps\<close> and \<open>Liballoc_Split\<close> show that the helpers of the code implement those steps, and \<open>Liballoc_Correct\<close> proves
  \<open>malloc\<close> and \<open>free\<close> in the locale \<open>page_provider\<close>, the contract of the page hooks: both end and keep the invariant, and
  the set of live blocks changes by exactly one.  \<open>Liballoc_Client\<close> adds \<open>calloc\<close>, \<open>realloc\<close> and what a client may rely on.
  \<open>Bitmap\<close>, \<open>Paging\<close>, \<open>Frames\<close>, \<open>Kheap\<close> and \<open>Kheap_Pages\<close> hold the bitmaps of \<open>array.c\<close>, \<open>mem/paging.c\<close> and \<open>mem/heap.c\<close>;
  \<open>walk\<close> is the translation that the processor makes, against which \<open>page_map\<close>, \<open>page_unmap\<close> and \<open>page_physaddr\<close> are measured.
  \<open>Kmem\<close> holds the allocator interface of the kernel and the separation of the areas it works on; \<open>Kmem_Pages\<close> adds the frames
  behind the pages and interprets \<open>page_provider\<close> on the hooks of the kernel heap, for requests of one page (the heap returns
  overlapping pages for larger ones, which \<open>Kheap_Pages\<close> proves); \<open>Kalloc\<close> writes the resulting theorems about \<open>kmalloc\<close>
  and \<open>kfree\<close> out.  \<open>Arrays\<close> is the rest of \<open>array.c\<close>, linked lists and trees whose nodes come from that allocator;
  \<open>array_holds\<close> relates a list in memory to the list of its nodes, and each operation to an operation on lists.
  \<open>Boot_Mem\<close>, \<open>Boot_Paging\<close> and \<open>Boot_Heap\<close> follow \<open>paging_initialize\<close> from the end of the kernel on: where it puts its bitmaps, the
  heap and the tables as a function of the end of the kernel and the size of the memory, for which of them nothing is overwritten
  (\<open>boot_window\<close>; outside it the start destroys its own heap), and that the kernel it leaves satisfies the invariant of the
  allocator, so that the theorems about \<open>kmalloc\<close> and \<open>kfree\<close> hold in every state a client can reach (\<open>heap_reach\<close>).

  \<^bold>\<open>Console.\<close>
  \<open>Terminal\<close> is \<open>ui/tty.c\<close> and \<open>vga.h\<close> with the refinement to a screen of 25 rows and a cursor and the terminals a client can reach, \<open>Printf\<close> the formatted output
  of \<open>libc/stdio\<close> with \<open>radix\<close> and \<open>prints\<close> as its specification, \<open>Rtc\<close> the clock (\<open>time.c\<close>), and \<open>Klog\<close> the log (\<open>ui/log.c\<close>)
  with its own formatter.

  \<^bold>\<open>Interrupts and devices.\<close>
  \<open>Portio\<close> and \<open>Portio_Wide\<close> are \<open>portio.h\<close>.  \<open>Machine\<close> holds what the drivers share: the bus and the record of the calls of \<open>log_print\<close>.  \<open>Descriptors\<close> is \<open>irq/idt.c\<close> and
  \<open>gdt.c\<close>, checked against what the processor decodes from the packed fields.  \<open>Interrupts\<close> is \<open>pic.c\<close>, \<open>irq/interrupt.c\<close> and
  \<open>pit.c\<close>; the two controllers are state machines after their data sheet that replay the recorded accesses.  \<open>Floppy\<close> is
  \<open>dma.c\<close> and \<open>fdc.c\<close>: the bytes that reach the controllers, the retries and the time-outs.  \<open>Keyboard\<close> is \<open>kb.c\<close>: the reachable
  states of the driver are an inductive predicate with the bounds of the two buffers as invariant.  \<open>Keyboard_Kernel\<close> runs the handler with
  its three test keys on the paging structures, the allocator and the dispatcher: one of them ends in the page fault handler and stops
  the processor, two allocate memory that nothing releases.

  \<^bold>\<open>Files.\<close>
  \<open>Ext2\<close> reads images in memory (\<open>fs/ext2.c\<close>); \<open>Initrd\<close> is \<open>fs/vfs.c\<close> and \<open>fs/initrd.c\<close>, whose function pointers are values in
  memory that \<open>file_ops\<close> interprets; opening a path composes the tokenizer, the allocator and the ext2 reader.  \<open>Initrd_Mount\<close>
  mounts an image that lies above the heap, with the allocator behind it (\<open>placed\<close> is the contract of the pages with the start of the heap fixed).

  \<^bold>\<open>The start of the kernel.\<close>
  \<open>Printf_Text\<close> computes the text of a format as a function; \<open>Page_Fault\<close> is the handler of page faults in \<open>mem/paging.c\<close>; \<open>Multiboot\<close> is \<open>multiboot.h\<close>, the record of the boot loader, what is shown of
  it and the modules; \<open>Kernel_Main\<close> is \<open>kernel.c\<close>: its state holds the states of the components with their shared parts (bus, log, memory
  manager, exception routines), \<open>kernel_main\<close> runs their operations on it, and the theorems say what is set up when interrupts go on, and
  how the way the end of the kernel is moved lets the memory manager overwrite the ram disk.

  \<^bold>\<open>Here\<close>
  is the theorem that spans the controllers, the descriptor table and the dispatcher: the way of a device interrupt from
  its line to the routine installed for it.

  \<^bold>\<open>Not modelled.\<close>
  Interrupts that arrive while \<open>kernel_main\<close> runs after \<open>sti\<close> are not interleaved with it; the theories of the drivers show what each
  handler does to its own state.  The memories of the console, of the memory manager and of the blocks of the heap are kept apart, each with the
  addresses of the program.
  \<open>gui/draw.c\<close> does not compile (a statement stands outside every function), \<open>task/task.c\<close> holds includes only, and
  \<open>abort\<close>, \<open>exit\<close>, \<open>__init_libc\<close> and \<open>hello.c\<close> are placeholders without state.  The assembly sources are the entry points that
  appear as parameters.  The calls of \<open>log_print\<close> in drivers and of \<open>printf\<close> in the ram disk are recorded, not printed.  The code under \<open>LIBALLOC_DEBUG\<close> and \<open>FLOPPY\<close> is not compiled in.
\<close>

section \<open>From a line to its routine\<close>

text \<open>The vector that line \<open>n\<close> raises at controllers in the state \<open>c\<close> and \<open>d\<close>.\<close>

definition raised_vector :: "pic_chip \<Rightarrow> pic_chip \<Rightarrow> nat \<Rightarrow> u8" where
  "raised_vector c d n = (if n < 8 then vector_base c + of_nat n else vector_base d + of_nat (n - 8))"

text \<open>
  C39: the path of a device interrupt through the controllers, the descriptor table and the dispatcher: after \<open>pic_initialize\<close> and
  \<open>idt_initialize\<close> line \<open>n\<close> raises a vector whose gate is present and enters \<open>irq n\<close>, and the dispatcher, entered with
  this vector as the interrupt number, calls the routine that \<open>irq_install_handler\<close> installed for line \<open>n\<close> and ends the
  interrupt; unless the controllers deny it as spurious.
\<close>

theorem device_interrupt_path:
  assumes "n < 16" and "h \<noteq> 0" and "length (irq_routines s) = 16" and "irq_install_handler (int n) h s = Some s1"
    and "ports (pic_initialize p) = es @ ports p" and "v = raised_vector (pic_replay PIC_MASTER es c) (pic_replay PIC_SLAVE es d) n"
    and "int_no ctx = ucast v" and "\<not> spurious n s1"
  shows "gate_present (idt (idt_initialize isr irq a t) ! unat v) \<and> gate_offset (idt (idt_initialize isr irq a t) ! unat v) = irq n \<and>
    interrupt_handler call ctx s1 = map_option (eoi n) (call h (Context ctx) (checked n s1))"
proof -
  have "pic_replay PIC_MASTER es c = c\<lparr>stage := 0, expects_mode := True, vector_base := 32, cascade := 4, pic_mode := 1, imr := 0\<rparr>"
    "pic_replay PIC_SLAVE es d = d\<lparr>stage := 0, expects_mode := True, vector_base := 40, cascade := 2, pic_mode := 1, imr := 0\<rparr>"
    using pic_initialize_remaps [of p c d] assms(5) by auto
  then have "v = 32 + of_nat n" using assms(6) by (auto simp: raised_vector_def of_nat_diff not_less)
  moreover have "unat (of_nat n :: u8) = n" using assms(1) by (simp add: unat_of_nat take_bit_nat_eq_self)
  ultimately have v: "unat v = 32 + n" using assms(1) by (simp add: unat_word_ariths)
  have "int_no ctx = of_nat (unat v)" using assms(7) by simp
  then have i: "int_no ctx = 32 + of_nat n" using v by simp
  have "irq_routines s1 ! n = h" using assms(1,3,4) by (auto simp: irq_install_handler_def)
  then have "interrupt_handler call ctx s1 = map_option (eoi n) (call h (Context ctx) (checked n s1))"
    using irq_number [OF assms(1) i] assms(2,8)
    by (simp add: interrupt_handler_def irq_handler_cases [OF assms(1) i] Let_def word_less_nat_alt word_le_nat_alt)
  moreover have "idt (idt_initialize isr irq a t) ! unat v = idt_table isr irq (32 + n)" using v assms(1) by (simp add: idt_initialize_nth)
  ultimately show ?thesis using assms(1) by (auto simp: idt_table_def gate_simps)
qed

theorem device_interrupt_path_witness:
  "\<exists>s1. irq_install_handler 1 0x3000 sample_intr = Some s1 \<and>
     gate_present (idt (idt_initialize (\<lambda>i. 0x100 + of_nat i) (\<lambda>i. 0x200 + of_nat i) 0x8000 sample_idt) ! 33) \<and>
     gate_offset (idt (idt_initialize (\<lambda>i. 0x100 + of_nat i) (\<lambda>i. 0x200 + of_nat i) 0x8000 sample_idt) ! 33) = 0x201 \<and>
     interrupt_handler sample_call (sample_ctx 33) s1 = Some (eoi 1 s1)"
proof -
  let ?s1 = "sample_intr\<lparr>irq_routines := (irq_routines sample_intr)[1 := 0x3000]\<rparr>"
  have i: "irq_install_handler (int 1) 0x3000 sample_intr = Some ?s1" by (simp add: irq_install_handler_def)
  obtain es where es: "ports (pic_initialize sample_intr) = es @ ports sample_intr"
    "vector_base (pic_replay PIC_MASTER es (sample_chip [])) = 32"
    using pic_initialize_remaps [of sample_intr "sample_chip []" "sample_chip []"] by auto
  have v: "33 = raised_vector (pic_replay PIC_MASTER es (sample_chip [])) (pic_replay PIC_SLAVE es (sample_chip [])) 1"
    using es(2) by (simp add: raised_vector_def)
  have l: "length (irq_routines sample_intr) = 16" by (simp add: sample_intr_def)
  have c: "int_no (sample_ctx 33) = ucast (33 :: u8)" by (simp add: sample_ctx_def)
  have n: "\<not> spurious 1 ?s1" by (simp add: spurious_def)
  note device_interrupt_path [OF _ _ l i es(1) v c n, of "\<lambda>i. 0x100 + of_nat i" "\<lambda>i. 0x200 + of_nat i" "0x8000" sample_idt sample_call]
  then show ?thesis using i by (auto simp: sample_call_def checked_def)
qed

end
